(* ===== verification/M68k_Prelude.thy ===== *)
theory M68k_Prelude
  imports Main "HOL-Library.Word"
begin

unbundle bit_operations_syntax

section \<open>Shared types, outcomes and lemmas\<close>

text \<open>
  What every theory of the development shares: the fixed-width integer types of
  \<open>include/m68k.h\<close>, the extraction of bit fields from an opcode, and the
  outcome of a C function that runs on the CPU context. A function of the emulator
  can end in three ways: it returns a value (\<open>Ret\<close>), it leaves through
  \<open>longjmp(cpu->fault_trap, 1)\<close> (\<open>Longjmp\<close>), or it has no defined
  behaviour (\<open>Stuck\<close>: a null memory pointer is dereferenced, or exceptions
  nest without bound). \<open>andthen\<close> is C's sequencing of calls. The predicate
  \<open>post\<close> is the total correctness statement for an outcome, and \<open>keeps\<close>
  says that an invariant survives it; their rules carry the frame and safety proofs
  of all the components.
\<close>

named_theorems post_intros \<open>introduction rules for post and keeps\<close>
named_theorems cpu_defs \<open>small definitions the component proofs unfold\<close>

type_synonym u8 = "8 word"
type_synonym u16 = "16 word"
type_synonym u32 = "32 word"

subsection \<open>Casts and bit fields\<close>

text \<open>C's \<open>(s32)(s16)x\<close> and \<open>(s32)(s8)x\<close> on the low bits of \<open>x\<close>,
  converted back to \<open>u32\<close>.\<close>

definition sext16 :: "'a::len word \<Rightarrow> u32" where
  "sext16 x = scast (ucast x :: u16)"

definition sext8 :: "'a::len word \<Rightarrow> u32" where
  "sext8 x = scast (ucast x :: u8)"

lemma cast_u8: "ucast (ucast v :: u8) = (v :: u32) AND 0xFF"
  by (simp add: unsigned_ucast_eq take_bit_eq_mask mask_eq_exp_minus_1)

lemma cast_u16: "ucast (ucast v :: u16) = (v :: u32) AND 0xFFFF"
  by (simp add: unsigned_ucast_eq take_bit_eq_mask mask_eq_exp_minus_1)

lemma and_full [simp]: "(v :: u32) AND 0xFFFFFFFF = v"
proof -
  have "(0xFFFFFFFF :: u32) = - 1" by simp
  then show ?thesis by (simp only: and.right_neutral)
qed

lemma cast_of_int: "ucast (word_of_int k :: u32) = (word_of_int k :: u8)"
  "ucast (word_of_int k :: u32) = (word_of_int k :: u16)"
  by (simp_all add: unsigned_of_int word_of_int_eq_iff)

text \<open>C's \<open>(w >> n) & m\<close> on an opcode or extension word, as a number.\<close>

definition bits :: "u16 \<Rightarrow> nat \<Rightarrow> u16 \<Rightarrow> nat" where
  "bits w n m = unat (drop_bit n w AND m)"

lemma bits_le: "bits w n m \<le> unat m"
  unfolding bits_def by (metis word_and_le1 word_le_nat_alt)

lemma bits_7_less: "bits w n 7 < 8"
  using bits_le [of w n 7] by simp

lemma bits_3_less: "bits w n 3 < 4"
  using bits_le [of w n 3] by simp

lemma bits_1_less: "bits w n 1 < 2"
  using bits_le [of w n 1] by simp

lemma bits_15_less: "bits w n 15 < 16"
  using bits_le [of w n 15] by simp

subsection \<open>Single bits\<close>

lemma and_bit0_iff: "((w::'a::len word) AND 1 \<noteq> 0) = bit w 0"
  by (simp add: and_one_eq even_iff_mod_2_eq_zero[symmetric] bit_0)

lemma and_mask_bit_iff: "((w::'a::len word) AND push_bit n 1 \<noteq> 0) = bit w n"
  by (metis and_exp_eq_0_iff_not_bit push_bit_of_1)

subsection \<open>Outcomes\<close>

datatype ('s, 'a) outcome = Ret 'a 's | Longjmp 's | Stuck

primrec andthen ::
  "('s, 'a) outcome \<Rightarrow> ('a \<Rightarrow> 's \<Rightarrow> ('s, 'b) outcome) \<Rightarrow> ('s, 'b) outcome" where
  "andthen (Ret v s) f = f v s"
| "andthen (Longjmp s) f = Longjmp s"
| "andthen Stuck f = Stuck"

lemma andthen_Ret_right [simp]: "andthen r Ret = r"
  by (cases r) simp_all

lemma andthen_assoc: "andthen (andthen r f) g = andthen r (\<lambda>v s. andthen (f v s) g)"
  by (cases r) simp_all

lemma andthen_cong [fundef_cong]:
  "r = r' \<Longrightarrow> (\<And>v s. r' = Ret v s \<Longrightarrow> f v s = f' v s) \<Longrightarrow> andthen r f = andthen r' f'"
  by (cases r') simp_all

lemma andthen_eq_Ret:
  "(andthen r f = Ret v s) = (\<exists>v' s'. r = Ret v' s' \<and> f v' s' = Ret v s)"
  by (cases r) simp_all

text \<open>A C loop \<open>for (i = 0; i < n; i++)\<close> over a body that may fault.\<close>

primrec for_upto ::
  "nat \<Rightarrow> nat \<Rightarrow> (nat \<Rightarrow> 'v \<Rightarrow> 's \<Rightarrow> ('s, 'v) outcome) \<Rightarrow> 'v \<Rightarrow> 's \<Rightarrow> ('s, 'v) outcome" where
  "for_upto 0 i body v s = Ret v s"
| "for_upto (Suc n) i body v s = andthen (body i v s) (\<lambda>v s. for_upto n (Suc i) body v s)"

subsection \<open>Total correctness of an outcome\<close>

primrec post ::
  "('a \<Rightarrow> 's \<Rightarrow> bool) \<Rightarrow> ('s \<Rightarrow> bool) \<Rightarrow> ('s, 'a) outcome \<Rightarrow> bool" where
  "post Q E (Ret v s) = Q v s"
| "post Q E (Longjmp s) = E s"
| "post Q E Stuck = False"

definition keeps :: "('s \<Rightarrow> bool) \<Rightarrow> ('s \<Rightarrow> bool) \<Rightarrow> ('s, 'a) outcome \<Rightarrow> bool" where
  "keeps I E r = post (\<lambda>_. I) E r"

lemma post_andthen:
  "post (\<lambda>v s. post Q E (f v s)) E r \<Longrightarrow> post Q E (andthen r f)"
  by (cases r) simp_all

lemma post_andthen_iff: "post Q E (andthen r f) = post (\<lambda>v s. post Q E (f v s)) E r"
  by (cases r) simp_all

lemma post_mono:
  "post Q E r \<Longrightarrow> (\<And>v s. Q v s \<Longrightarrow> Q' v s) \<Longrightarrow> (\<And>s. E s \<Longrightarrow> E' s) \<Longrightarrow> post Q' E' r"
  by (cases r) simp_all

lemma keeps_Ret [simp]: "keeps I E (Ret v s) = I s"
  and keeps_Longjmp [simp]: "keeps I E (Longjmp s) = E s"
  and keeps_Stuck [simp]: "keeps I E Stuck = False"
  by (simp_all add: keeps_def)

lemma keeps_andthen [post_intros]:
  "keeps I E r \<Longrightarrow> (\<And>v s. I s \<Longrightarrow> keeps I E (f v s)) \<Longrightarrow> keeps I E (andthen r f)"
  by (cases r) simp_all

lemma keeps_if [post_intros]:
  "(b \<Longrightarrow> keeps I E r) \<Longrightarrow> (\<not> b \<Longrightarrow> keeps I E r') \<Longrightarrow> keeps I E (if b then r else r')"
  by simp

lemma keeps_mono:
  "keeps I E r \<Longrightarrow> (\<And>s. I s \<Longrightarrow> I' s) \<Longrightarrow> (\<And>s. E s \<Longrightarrow> E' s) \<Longrightarrow> keeps I' E' r"
  by (cases r) simp_all

lemma keeps_RetD: "keeps I E r \<Longrightarrow> r = Ret v s \<Longrightarrow> I s"
  by simp

lemma keeps_for_upto:
  assumes "I s" and "\<And>i v s. I s \<Longrightarrow> keeps I E (body i v s)"
  shows "keeps I E (for_upto n i body v s)"
  using assms(1)
proof (induction n arbitrary: i v s)
  case 0
  then show ?case by simp
next
  case (Suc n)
  then show ?case by (auto intro!: keeps_andthen assms(2))
qed

lemma keeps_bind: "keeps I E r \<Longrightarrow> (\<And>v s. I s \<Longrightarrow> keeps J E (f v s)) \<Longrightarrow> keeps J E (andthen r f)"
  by (cases r) simp_all

lemma bits_7_le: "bits w n 7 \<le> 7"
  using bits_7_less [of w n] by simp

lemma post_if:
  "(b \<Longrightarrow> post Q E r) \<Longrightarrow> (\<not> b \<Longrightarrow> post Q E r') \<Longrightarrow> post Q E (if b then r else r')"
  by simp

lemma post_bind:
  "post P E r \<Longrightarrow> (\<And>v s. P v s \<Longrightarrow> post Q E (f v s)) \<Longrightarrow> post Q E (andthen r f)"
  by (cases r) simp_all

end
