(* ===== verification/M68k_State.thy ===== *)
theory M68k_State
  imports M68k_Prelude
begin

section \<open>The CPU context and its public accessors\<close>

text \<open>
  The types of \<open>include/m68k.h\<close>: operand sizes, CPU models, the CPU context
  \<open>M68kCpu\<close> as the record \<open>cpu\<close>, and the installed host callbacks as the
  record \<open>host_callbacks\<close>. The context owns the registers, the status register,
  the bound memory, the interrupt lines, the fault latches of the group-0 machinery
  and the cycle counters.

  The eight data and eight address registers are functions from the register number;
  the code only ever uses the numbers 0 to 7. The bound memory is \<open>None\<close> for a null
  pointer and otherwise the contents of the buffer; only addresses below
  \<open>memory_size\<close> are looked at. C's \<open>int\<close> counters are integers: their
  overflow is undefined in C and is not given a meaning here. \<open>fault_trap\<close> itself
  (a \<open>jmp_buf\<close>) has no field: the only jump to it is the \<open>Longjmp\<close> outcome.

  A host callback gets the context and may change it, as it may in C: it is a function
  from the context to its result and the new context. The field \<open>host\<close> is whatever
  else the callbacks can reach (devices, closures). Which callbacks are installed is
  kept beside the context, because a context that held functions on contexts would not
  be a set.
\<close>

subsection \<open>Sizes and models\<close>

datatype M68kSize = SIZE_BYTE | SIZE_WORD | SIZE_LONG

primrec size_bytes :: "M68kSize \<Rightarrow> u32" where
  "size_bytes SIZE_BYTE = 1"
| "size_bytes SIZE_WORD = 2"
| "size_bytes SIZE_LONG = 4"

text \<open>The two masks every arithmetic handler spells out from its operand size.\<close>

primrec value_mask :: "M68kSize \<Rightarrow> u32" where
  "value_mask SIZE_BYTE = 0xFF"
| "value_mask SIZE_WORD = 0xFFFF"
| "value_mask SIZE_LONG = 0xFFFFFFFF"

primrec msb_mask :: "M68kSize \<Rightarrow> u32" where
  "msb_mask SIZE_BYTE = 0x80"
| "msb_mask SIZE_WORD = 0x8000"
| "msb_mask SIZE_LONG = 0x80000000"

datatype M68kModel = M68K_MODEL_68000 | M68K_MODEL_68010

primrec model_code :: "M68kModel \<Rightarrow> nat" where
  "model_code M68K_MODEL_68000 = 0"
| "model_code M68K_MODEL_68010 = 1"

text \<open>The C code compares models with \<open><\<close> and \<open>>=\<close> on the enumeration.\<close>

instantiation M68kModel :: linorder
begin

definition less_eq_M68kModel :: "M68kModel \<Rightarrow> M68kModel \<Rightarrow> bool" where
  "less_eq_M68kModel m n = (model_code m \<le> model_code n)"

definition less_M68kModel :: "M68kModel \<Rightarrow> M68kModel \<Rightarrow> bool" where
  "less_M68kModel m n = (model_code m < model_code n)"

instance
proof
  fix x y z :: M68kModel
  show "(x < y) = (x \<le> y \<and> \<not> y \<le> x)"
    by (auto simp: less_eq_M68kModel_def less_M68kModel_def)
  show "x \<le> x"
    by (simp add: less_eq_M68kModel_def)
  show "x \<le> y \<Longrightarrow> y \<le> z \<Longrightarrow> x \<le> z"
    by (simp add: less_eq_M68kModel_def)
  show "x \<le> y \<Longrightarrow> y \<le> x \<Longrightarrow> x = y"
    by (cases x; cases y) (simp_all add: less_eq_M68kModel_def)
  show "x \<le> y \<or> y \<le> x"
    by (auto simp: less_eq_M68kModel_def)
qed

end

lemma model_68010_le [simp]: "(M68K_MODEL_68010 \<le> m) = (m = M68K_MODEL_68010)"
  by (cases m) (simp_all add: less_eq_M68kModel_def)

lemma model_less_68010 [simp]: "(m < M68K_MODEL_68010) = (m = M68K_MODEL_68000)"
  by (cases m) (simp_all add: less_M68kModel_def)

subsection \<open>The context\<close>

record 'h cpu =
  d_regs :: "nat \<Rightarrow> u32"
  a_regs :: "nat \<Rightarrow> u32"
  pc :: u32
  ppc :: u32
  sr :: u16
  ir :: u16
  memory :: "(u32 \<Rightarrow> u8) option"
  memory_size :: u32
  irq_level :: int
  nmi_pending :: bool
  usp :: u32
  ssp :: u32
  stopped :: bool
  trace_pending :: bool
  exception_thrown :: int
  exception_depth :: int
  in_address_error :: bool
  in_bus_error :: bool
  fault_address :: u32
  fault_pc :: u32
  fault_ir :: u16
  fault_ssw :: u16
  fault_program_access :: bool
  fault_valid :: bool
  fault_pc_valid :: bool
  fault_bus_word :: u16
  fault_bus_word_valid :: bool
  operand_program_space :: bool
  group0_fault :: bool
  fault_trap_active :: bool
  model :: M68kModel
  vbr :: u32
  sfc :: u32
  dfc :: u32
  target_cycles :: int
  cycles_remaining :: int
  host :: 'h

type_synonym ('h, 'a) out = "('h cpu, 'a) outcome"

record 'h host_callbacks =
  wait_bus :: "('h cpu \<Rightarrow> u32 \<Rightarrow> M68kSize \<Rightarrow> bool \<Rightarrow> int \<times> 'h cpu) option"
  int_ack :: "('h cpu \<Rightarrow> int \<Rightarrow> int \<times> 'h cpu) option"
  fc_cb :: "('h cpu \<Rightarrow> nat \<Rightarrow> 'h cpu) option"
  instr_hook_cb :: "('h cpu \<Rightarrow> u32 \<Rightarrow> 'h cpu) option"
  pc_changed_cb :: "('h cpu \<Rightarrow> u32 \<Rightarrow> 'h cpu) option"
  reset_cb :: "('h cpu \<Rightarrow> 'h cpu) option"
  tas_cb :: "('h cpu \<Rightarrow> int \<times> 'h cpu) option"
  illg_cb :: "('h cpu \<Rightarrow> u16 \<Rightarrow> int \<times> 'h cpu) option"
  read8_cb :: "('h cpu \<Rightarrow> u32 \<Rightarrow> u8 \<times> 'h cpu) option"
  read16_cb :: "('h cpu \<Rightarrow> u32 \<Rightarrow> u16 \<times> 'h cpu) option"
  read32_cb :: "('h cpu \<Rightarrow> u32 \<Rightarrow> u32 \<times> 'h cpu) option"
  write8_cb :: "('h cpu \<Rightarrow> u32 \<Rightarrow> u8 \<Rightarrow> 'h cpu) option"
  write16_cb :: "('h cpu \<Rightarrow> u32 \<Rightarrow> u16 \<Rightarrow> 'h cpu) option"
  write32_cb :: "('h cpu \<Rightarrow> u32 \<Rightarrow> u32 \<Rightarrow> 'h cpu) option"

text \<open>What \<open>memset(cpu, 0, sizeof(M68kCpu))\<close> leaves: no callback installed.\<close>

definition no_callbacks :: "'h host_callbacks" where
  "no_callbacks = \<lparr>wait_bus = None, int_ack = None, fc_cb = None, instr_hook_cb = None,
     pc_changed_cb = None, reset_cb = None, tas_cb = None, illg_cb = None, read8_cb = None,
     read16_cb = None, read32_cb = None, write8_cb = None, write16_cb = None,
     write32_cb = None\<rparr>"

subsection \<open>Installing callbacks\<close>

text \<open>A null callback is \<open>None\<close>.\<close>

definition m68k_set_wait_bus_callback ::
  "('h cpu \<Rightarrow> u32 \<Rightarrow> M68kSize \<Rightarrow> bool \<Rightarrow> int \<times> 'h cpu) option \<Rightarrow>
   'h host_callbacks \<Rightarrow> 'h host_callbacks" where
  "m68k_set_wait_bus_callback callback env = env\<lparr>wait_bus := callback\<rparr>"

definition m68k_set_int_ack_callback ::
  "('h cpu \<Rightarrow> int \<Rightarrow> int \<times> 'h cpu) option \<Rightarrow>
   'h host_callbacks \<Rightarrow> 'h host_callbacks" where
  "m68k_set_int_ack_callback callback env = env\<lparr>int_ack := callback\<rparr>"

definition m68k_set_fc_callback ::
  "('h cpu \<Rightarrow> nat \<Rightarrow> 'h cpu) option \<Rightarrow>
   'h host_callbacks \<Rightarrow> 'h host_callbacks" where
  "m68k_set_fc_callback callback env = env\<lparr>fc_cb := callback\<rparr>"

definition m68k_set_instr_hook_callback ::
  "('h cpu \<Rightarrow> u32 \<Rightarrow> 'h cpu) option \<Rightarrow>
   'h host_callbacks \<Rightarrow> 'h host_callbacks" where
  "m68k_set_instr_hook_callback callback env = env\<lparr>instr_hook_cb := callback\<rparr>"

definition m68k_set_pc_changed_callback ::
  "('h cpu \<Rightarrow> u32 \<Rightarrow> 'h cpu) option \<Rightarrow>
   'h host_callbacks \<Rightarrow> 'h host_callbacks" where
  "m68k_set_pc_changed_callback callback env = env\<lparr>pc_changed_cb := callback\<rparr>"

definition m68k_set_reset_callback ::
  "('h cpu \<Rightarrow> 'h cpu) option \<Rightarrow>
   'h host_callbacks \<Rightarrow> 'h host_callbacks" where
  "m68k_set_reset_callback callback env = env\<lparr>reset_cb := callback\<rparr>"

definition m68k_set_tas_callback ::
  "('h cpu \<Rightarrow> int \<times> 'h cpu) option \<Rightarrow>
   'h host_callbacks \<Rightarrow> 'h host_callbacks" where
  "m68k_set_tas_callback callback env = env\<lparr>tas_cb := callback\<rparr>"

definition m68k_set_illg_callback ::
  "('h cpu \<Rightarrow> u16 \<Rightarrow> int \<times> 'h cpu) option \<Rightarrow>
   'h host_callbacks \<Rightarrow> 'h host_callbacks" where
  "m68k_set_illg_callback callback env = env\<lparr>illg_cb := callback\<rparr>"

definition m68k_set_read8_callback ::
  "('h cpu \<Rightarrow> u32 \<Rightarrow> u8 \<times> 'h cpu) option \<Rightarrow>
   'h host_callbacks \<Rightarrow> 'h host_callbacks" where
  "m68k_set_read8_callback callback env = env\<lparr>read8_cb := callback\<rparr>"

definition m68k_set_read16_callback ::
  "('h cpu \<Rightarrow> u32 \<Rightarrow> u16 \<times> 'h cpu) option \<Rightarrow>
   'h host_callbacks \<Rightarrow> 'h host_callbacks" where
  "m68k_set_read16_callback callback env = env\<lparr>read16_cb := callback\<rparr>"

definition m68k_set_read32_callback ::
  "('h cpu \<Rightarrow> u32 \<Rightarrow> u32 \<times> 'h cpu) option \<Rightarrow>
   'h host_callbacks \<Rightarrow> 'h host_callbacks" where
  "m68k_set_read32_callback callback env = env\<lparr>read32_cb := callback\<rparr>"

definition m68k_set_write8_callback ::
  "('h cpu \<Rightarrow> u32 \<Rightarrow> u8 \<Rightarrow> 'h cpu) option \<Rightarrow>
   'h host_callbacks \<Rightarrow> 'h host_callbacks" where
  "m68k_set_write8_callback callback env = env\<lparr>write8_cb := callback\<rparr>"

definition m68k_set_write16_callback ::
  "('h cpu \<Rightarrow> u32 \<Rightarrow> u16 \<Rightarrow> 'h cpu) option \<Rightarrow>
   'h host_callbacks \<Rightarrow> 'h host_callbacks" where
  "m68k_set_write16_callback callback env = env\<lparr>write16_cb := callback\<rparr>"

definition m68k_set_write32_callback ::
  "('h cpu \<Rightarrow> u32 \<Rightarrow> u32 \<Rightarrow> 'h cpu) option \<Rightarrow>
   'h host_callbacks \<Rightarrow> 'h host_callbacks" where
  "m68k_set_write32_callback callback env = env\<lparr>write32_cb := callback\<rparr>"

subsection \<open>Status register bits\<close>

definition M68K_SR_C :: u16 where "M68K_SR_C = 0x0001"
definition M68K_SR_V :: u16 where "M68K_SR_V = 0x0002"
definition M68K_SR_Z :: u16 where "M68K_SR_Z = 0x0004"
definition M68K_SR_N :: u16 where "M68K_SR_N = 0x0008"
definition M68K_SR_X :: u16 where "M68K_SR_X = 0x0010"
definition M68K_SR_S :: u16 where "M68K_SR_S = 0x2000"

lemmas sr_bit_defs [cpu_defs] =
  M68K_SR_C_def M68K_SR_V_def M68K_SR_Z_def M68K_SR_N_def M68K_SR_X_def M68K_SR_S_def

text \<open>\<open>(cpu->sr & m) != 0\<close> and \<open>if (b) cpu->sr |= m\<close>.\<close>

definition sr_flag :: "u16 \<Rightarrow> 'h cpu \<Rightarrow> bool" where
  "sr_flag m s = (sr s AND m \<noteq> 0)"

definition sr_set_if :: "bool \<Rightarrow> u16 \<Rightarrow> 'h cpu \<Rightarrow> 'h cpu" where
  "sr_set_if b m s = (if b then s\<lparr>sr := sr s OR m\<rparr> else s)"

definition sr_clear :: "u16 \<Rightarrow> 'h cpu \<Rightarrow> 'h cpu" where
  "sr_clear m s = s\<lparr>sr := sr s AND NOT m\<rparr>"

subsection \<open>Initialisation and register access\<close>

definition m68k_init :: "(u32 \<Rightarrow> u8) option \<Rightarrow> u32 \<Rightarrow> 'h \<Rightarrow> 'h cpu" where
  "m68k_init mem mem_size h =
     \<lparr>d_regs = (\<lambda>_. 0), a_regs = (\<lambda>_. 0), pc = 0, ppc = 0, sr = 0, ir = 0,
      memory = mem, memory_size = mem_size, irq_level = 0, nmi_pending = False,
      usp = 0, ssp = 0, stopped = False, trace_pending = False,
      exception_thrown = 0, exception_depth = 0, in_address_error = False,
      in_bus_error = False, fault_address = 0, fault_pc = 0, fault_ir = 0, fault_ssw = 0,
      fault_program_access = False, fault_valid = False, fault_pc_valid = False,
      fault_bus_word = 0, fault_bus_word_valid = False, operand_program_space = False,
      group0_fault = False, fault_trap_active = False, model = M68K_MODEL_68000,
      vbr = 0, sfc = 0, dfc = 0, target_cycles = 0, cycles_remaining = 0, host = h\<rparr>"

definition m68k_set_pc :: "'h host_callbacks \<Rightarrow> u32 \<Rightarrow> 'h cpu \<Rightarrow> 'h cpu" where
  "m68k_set_pc env v s =
     (let s = s\<lparr>pc := v\<rparr> in
      case pc_changed_cb env of None \<Rightarrow> s | Some cb \<Rightarrow> cb s v)"

definition m68k_get_pc :: "'h cpu \<Rightarrow> u32" where
  "m68k_get_pc s = pc s"

definition m68k_set_model :: "M68kModel \<Rightarrow> 'h cpu \<Rightarrow> 'h cpu" where
  "m68k_set_model m s = s\<lparr>model := m\<rparr>"

definition m68k_get_model :: "'h cpu \<Rightarrow> M68kModel" where
  "m68k_get_model s = model s"

definition m68k_set_dr :: "int \<Rightarrow> u32 \<Rightarrow> 'h cpu \<Rightarrow> 'h cpu" where
  "m68k_set_dr reg v s =
     (if reg \<ge> 0 \<and> reg < 8 then s\<lparr>d_regs := (d_regs s)(nat reg := v)\<rparr> else s)"

definition m68k_get_dr :: "int \<Rightarrow> 'h cpu \<Rightarrow> u32" where
  "m68k_get_dr reg s = (if reg \<ge> 0 \<and> reg < 8 then d_regs s (nat reg) else 0)"

definition m68k_set_ar :: "int \<Rightarrow> u32 \<Rightarrow> 'h cpu \<Rightarrow> 'h cpu" where
  "m68k_set_ar reg v s =
     (if reg \<ge> 0 \<and> reg < 8 then s\<lparr>a_regs := (a_regs s)(nat reg := v)\<rparr> else s)"

definition m68k_get_ar :: "int \<Rightarrow> 'h cpu \<Rightarrow> u32" where
  "m68k_get_ar reg s = (if reg \<ge> 0 \<and> reg < 8 then a_regs s (nat reg) else 0)"

text \<open>The assignments \<open>cpu->d_regs[i].l = v\<close> and \<open>cpu->a_regs[i].l = v\<close>.\<close>

abbreviation set_d :: "nat \<Rightarrow> u32 \<Rightarrow> 'h cpu \<Rightarrow> 'h cpu" where
  "set_d i v s \<equiv> s\<lparr>d_regs := (d_regs s)(i := v)\<rparr>"

abbreviation set_a :: "nat \<Rightarrow> u32 \<Rightarrow> 'h cpu \<Rightarrow> 'h cpu" where
  "set_a i v s \<equiv> s\<lparr>a_regs := (a_regs s)(i := v)\<rparr>"

text \<open>\<open>cpu->cycles_remaining -= n\<close>.\<close>

abbreviation spend :: "int \<Rightarrow> 'h cpu \<Rightarrow> 'h cpu" where
  "spend n s \<equiv> s\<lparr>cycles_remaining := cycles_remaining s - n\<rparr>"

subsection \<open>The status register and the two stack pointers\<close>

definition m68k_set_sr :: "u16 \<Rightarrow> 'h cpu \<Rightarrow> 'h cpu" where
  "m68k_set_sr v s =
     (let new_sr = v AND 0xA71F;
          old_s = (sr s AND M68K_SR_S \<noteq> 0);
          new_s = (new_sr AND M68K_SR_S \<noteq> 0);
          s = (if old_s \<noteq> new_s
               then (if new_s
                     then (let s = s\<lparr>usp := a_regs s 7\<rparr> in set_a 7 (ssp s) s)
                     else (let s = s\<lparr>ssp := a_regs s 7\<rparr> in set_a 7 (usp s) s))
               else s)
      in s\<lparr>sr := new_sr\<rparr>)"

subsection \<open>Interrupt request lines and timeslices\<close>

definition m68k_set_irq :: "int \<Rightarrow> 'h cpu \<Rightarrow> 'h cpu" where
  "m68k_set_irq level s =
     (let s = (if level = 7 \<and> irq_level s \<noteq> 7 then s\<lparr>nmi_pending := True\<rparr> else s)
      in s\<lparr>irq_level := level\<rparr>)"

definition m68k_cycles_run :: "'h cpu \<Rightarrow> int" where
  "m68k_cycles_run s = target_cycles s - cycles_remaining s"

definition m68k_cycles_remaining :: "'h cpu \<Rightarrow> int" where
  "m68k_cycles_remaining s = cycles_remaining s"

definition m68k_modify_timeslice :: "int \<Rightarrow> 'h cpu \<Rightarrow> 'h cpu" where
  "m68k_modify_timeslice cycles s =
     (let s = s\<lparr>cycles_remaining := cycles_remaining s + cycles\<rparr>
      in s\<lparr>target_cycles := target_cycles s + cycles\<rparr>)"

definition m68k_end_timeslice :: "'h cpu \<Rightarrow> 'h cpu" where
  "m68k_end_timeslice s =
     (let s = s\<lparr>target_cycles := target_cycles s - cycles_remaining s\<rparr>
      in s\<lparr>cycles_remaining := 0\<rparr>)"

end
