(* ===== verification/M68k_Bus.thy ===== *)
theory M68k_Bus
  imports M68k_State
begin

section \<open>Memory accesses and exception processing\<close>

text \<open>
  The bus of \<open>src/m68k/m68k.c\<close>: reads and writes of the bound memory or through
  the host callbacks, the instruction fetch, the capture of access faults, and
  \<open>m68k_exception\<close>, which they call on an odd or unmapped address and which
  itself pushes a frame and reads a vector through them.

  C defines these functions by mutual recursion. Here an access takes the exception
  routine it calls on a fault as its argument \<open>exc\<close> (the functions named
  \<open>..._with\<close>), \<open>m68k_exception_body\<close> is one activation of
  \<open>m68k_exception\<close>, and \<open>m68k_exception_n n\<close> allows \<open>n\<close> nested
  activations; running out of them is \<open>Stuck\<close>. \<open>m68k_exception\<close> allows
  three. The two re-entry guards \<open>in_address_error\<close> and \<open>in_bus_error\<close> make
  three enough: M68k_Frame shows that it never gets stuck, that more activations
  change nothing, and that it never leaves by \<open>longjmp\<close>, for every host whose
  callbacks leave the guards as they find them (\<open>host_ok\<close>).
\<close>

subsection \<open>Addresses, function codes, wait states\<close>

definition mask_address_24 :: "u32 \<Rightarrow> u32" where
  "mask_address_24 address = address AND 0x00FFFFFF"

definition is_valid_address :: "'h cpu \<Rightarrow> u32 \<Rightarrow> bool" where
  "is_valid_address s address = (address < memory_size s)"

definition current_fc :: "'h cpu \<Rightarrow> bool \<Rightarrow> nat" where
  "current_fc s is_program =
     (let is_supervisor = (sr s AND M68K_SR_S \<noteq> 0);
          is_program = (is_program \<or> operand_program_space s)
      in if is_supervisor then (if is_program then 6 else 5)
         else (if is_program then 2 else 1))"

definition set_fc :: "'h host_callbacks \<Rightarrow> bool \<Rightarrow> 'h cpu \<Rightarrow> 'h cpu" where
  "set_fc env is_program s =
     (case fc_cb env of None \<Rightarrow> s | Some cb \<Rightarrow> cb s (current_fc s is_program))"

definition capture_access_fault :: "u32 \<Rightarrow> bool \<Rightarrow> bool \<Rightarrow> 'h cpu \<Rightarrow> 'h cpu" where
  "capture_access_fault address is_write is_program s =
     (let fc = of_nat (current_fc s is_program) AND (0x7 :: u16);
          rw = (if is_write then 0 else 0x10 :: u16);
          s = s\<lparr>fault_address := address\<rparr>;
          s = s\<lparr>fault_ir := (if fault_bus_word_valid s then fault_bus_word s else ir s)\<rparr>;
          s = s\<lparr>fault_ssw := (fault_ir s AND 0xFFE0) OR rw OR fc\<rparr>;
          s = s\<lparr>fault_program_access := is_program\<rparr>;
          s = s\<lparr>fault_valid := True\<rparr>
      in s\<lparr>group0_fault := True\<rparr>)"

definition abort_faulted_instruction :: "'h cpu \<Rightarrow> ('h, unit) out" where
  "abort_faulted_instruction s =
     (if fault_trap_active s \<and> group0_fault s \<and> exception_depth s = 0
      then Longjmp s else Ret () s)"

definition apply_wait_bus ::
  "'h host_callbacks \<Rightarrow> u32 \<Rightarrow> M68kSize \<Rightarrow> bool \<Rightarrow> 'h cpu \<Rightarrow> 'h cpu" where
  "apply_wait_bus env address sz is_write s =
     (case wait_bus env of
        None \<Rightarrow> s
      | Some cb \<Rightarrow>
          (case cb s address sz is_write of
             (wait, s) \<Rightarrow> (if wait > 0 then spend wait s else s)))"

text \<open>\<open>cpu->memory[a]\<close> and \<open>cpu->memory[a] = v\<close>; a null pointer has no
  behaviour.\<close>

definition mem_load :: "u32 \<Rightarrow> 'h cpu \<Rightarrow> ('h, u8) out" where
  "mem_load a s = (case memory s of None \<Rightarrow> Stuck | Some m \<Rightarrow> Ret (m a) s)"

definition mem_store :: "u32 \<Rightarrow> u8 \<Rightarrow> 'h cpu \<Rightarrow> ('h, unit) out" where
  "mem_store a v s =
     (case memory s of None \<Rightarrow> Stuck | Some m \<Rightarrow> Ret () (s\<lparr>memory := Some (m(a := v))\<rparr>))"

subsection \<open>The accesses, over the exception routine they call\<close>

type_synonym 'h exc_routine = "int \<Rightarrow> 'h cpu \<Rightarrow> ('h, unit) out"

text \<open>The two fault sequences every access contains: capture, set the guard, take the
  exception, clear the guard, abort the instruction.\<close>

definition take_address_fault ::
  "'h exc_routine \<Rightarrow> u32 \<Rightarrow> bool \<Rightarrow> bool \<Rightarrow> 'h cpu \<Rightarrow> ('h, unit) out" where
  "take_address_fault exc raw_address is_write is_program s =
     (let s = capture_access_fault raw_address is_write is_program s;
          s = s\<lparr>in_address_error := True\<rparr>
      in andthen (exc 3 s) (\<lambda>_ s.
           let s = s\<lparr>in_address_error := False\<rparr> in abort_faulted_instruction s))"

definition take_bus_fault ::
  "'h exc_routine \<Rightarrow> u32 \<Rightarrow> bool \<Rightarrow> bool \<Rightarrow> 'h cpu \<Rightarrow> ('h, unit) out" where
  "take_bus_fault exc raw_address is_write is_program s =
     (let s = capture_access_fault raw_address is_write is_program s;
          s = s\<lparr>in_bus_error := True\<rparr>
      in andthen (exc 2 s) (\<lambda>_ s.
           let s = s\<lparr>in_bus_error := False\<rparr> in abort_faulted_instruction s))"

definition read_8_with ::
  "'h exc_routine \<Rightarrow> 'h host_callbacks \<Rightarrow> u32 \<Rightarrow> 'h cpu \<Rightarrow> ('h, u8) out" where
  "read_8_with exc env raw_address s =
     (let address = mask_address_24 raw_address;
          s = apply_wait_bus env address SIZE_BYTE False s;
          s = set_fc env False s
      in case read8_cb env of
           Some cb \<Rightarrow> (case cb s address of (v, s) \<Rightarrow> Ret v s)
         | None \<Rightarrow>
             (if is_valid_address s address then mem_load address s
              else if \<not> in_bus_error s
              then andthen (take_bus_fault exc raw_address False False s) (\<lambda>_ s. Ret 0 s)
              else Ret 0 s))"

definition read_16_with ::
  "'h exc_routine \<Rightarrow> 'h host_callbacks \<Rightarrow> u32 \<Rightarrow> 'h cpu \<Rightarrow> ('h, u16) out" where
  "read_16_with exc env raw_address s =
     (let address = mask_address_24 raw_address;
          s = apply_wait_bus env address SIZE_WORD False s;
          s = set_fc env False s
      in if address AND 1 \<noteq> 0 \<and> \<not> in_address_error s
         then andthen (take_address_fault exc raw_address False False s) (\<lambda>_ s. Ret 0 s)
         else case read16_cb env of
           Some cb \<Rightarrow> (case cb s address of (v, s) \<Rightarrow> Ret v s)
         | None \<Rightarrow>
             (if is_valid_address s address \<and> is_valid_address s (address + 1)
              then andthen (mem_load address s) (\<lambda>b0 s.
                   andthen (mem_load (address + 1) s) (\<lambda>b1 s.
                   Ret (push_bit 8 (ucast b0) OR ucast b1) s))
              else if \<not> in_bus_error s
              then andthen (take_bus_fault exc raw_address False False s) (\<lambda>_ s. Ret 0 s)
              else Ret 0 s))"

definition read_32_with ::
  "'h exc_routine \<Rightarrow> 'h host_callbacks \<Rightarrow> u32 \<Rightarrow> 'h cpu \<Rightarrow> ('h, u32) out" where
  "read_32_with exc env raw_address s =
     (let address = mask_address_24 raw_address;
          s = apply_wait_bus env address SIZE_LONG False s;
          s = set_fc env False s
      in if address AND 1 \<noteq> 0 \<and> \<not> in_address_error s
         then andthen (take_address_fault exc raw_address False False s) (\<lambda>_ s. Ret 0 s)
         else case read32_cb env of
           Some cb \<Rightarrow> (case cb s address of (v, s) \<Rightarrow> Ret v s)
         | None \<Rightarrow>
             (if is_valid_address s address \<and> is_valid_address s (address + 3)
              then andthen (mem_load address s) (\<lambda>b0 s.
                   andthen (mem_load (address + 1) s) (\<lambda>b1 s.
                   andthen (mem_load (address + 2) s) (\<lambda>b2 s.
                   andthen (mem_load (address + 3) s) (\<lambda>b3 s.
                   Ret (push_bit 24 (ucast b0) OR push_bit 16 (ucast b1) OR
                        push_bit 8 (ucast b2) OR ucast b3) s))))
              else if \<not> in_bus_error s
              then andthen (take_bus_fault exc raw_address False False s) (\<lambda>_ s. Ret 0 s)
              else Ret 0 s))"

definition write_8_with ::
  "'h exc_routine \<Rightarrow> 'h host_callbacks \<Rightarrow> u32 \<Rightarrow> u8 \<Rightarrow> 'h cpu \<Rightarrow> ('h, unit) out" where
  "write_8_with exc env raw_address v s =
     (let address = mask_address_24 raw_address;
          s = apply_wait_bus env address SIZE_BYTE True s;
          s = set_fc env False s
      in case write8_cb env of
           Some cb \<Rightarrow> Ret () (cb s address v)
         | None \<Rightarrow>
             (if address < memory_size s then mem_store address v s
              else if \<not> in_bus_error s then take_bus_fault exc raw_address True False s
              else Ret () s))"

definition write_16_with ::
  "'h exc_routine \<Rightarrow> 'h host_callbacks \<Rightarrow> u32 \<Rightarrow> u16 \<Rightarrow> 'h cpu \<Rightarrow> ('h, unit) out" where
  "write_16_with exc env raw_address v s =
     (let address = mask_address_24 raw_address;
          s = apply_wait_bus env address SIZE_WORD True s;
          s = set_fc env False s
      in if address AND 1 \<noteq> 0 \<and> \<not> in_address_error s
         then take_address_fault exc raw_address True False s
         else case write16_cb env of
           Some cb \<Rightarrow> Ret () (cb s address v)
         | None \<Rightarrow>
             (if is_valid_address s address \<and> is_valid_address s (address + 1)
              then andthen (mem_store address (ucast (drop_bit 8 v AND 0xFF)) s) (\<lambda>_ s.
                   mem_store (address + 1) (ucast (v AND 0xFF)) s)
              else if \<not> in_bus_error s then take_bus_fault exc raw_address True False s
              else Ret () s))"

definition write_32_with ::
  "'h exc_routine \<Rightarrow> 'h host_callbacks \<Rightarrow> u32 \<Rightarrow> u32 \<Rightarrow> 'h cpu \<Rightarrow> ('h, unit) out" where
  "write_32_with exc env raw_address v s =
     (let address = mask_address_24 raw_address;
          s = apply_wait_bus env address SIZE_LONG True s;
          s = set_fc env False s
      in if address AND 1 \<noteq> 0 \<and> \<not> in_address_error s
         then take_address_fault exc raw_address True False s
         else case write32_cb env of
           Some cb \<Rightarrow> Ret () (cb s address v)
         | None \<Rightarrow>
             (if is_valid_address s address \<and> is_valid_address s (address + 3)
              then andthen (mem_store address (ucast (drop_bit 24 v AND 0xFF)) s) (\<lambda>_ s.
                   andthen (mem_store (address + 1) (ucast (drop_bit 16 v AND 0xFF)) s) (\<lambda>_ s.
                   andthen (mem_store (address + 2) (ucast (drop_bit 8 v AND 0xFF)) s) (\<lambda>_ s.
                   mem_store (address + 3) (ucast (v AND 0xFF)) s)))
              else if \<not> in_bus_error s then take_bus_fault exc raw_address True False s
              else Ret () s))"

definition push_32_with ::
  "'h exc_routine \<Rightarrow> 'h host_callbacks \<Rightarrow> u32 \<Rightarrow> 'h cpu \<Rightarrow> ('h, unit) out" where
  "push_32_with exc env v s =
     (let s = set_a 7 (a_regs s 7 - 4) s in write_32_with exc env (a_regs s 7) v s)"

definition push_16_with ::
  "'h exc_routine \<Rightarrow> 'h host_callbacks \<Rightarrow> u16 \<Rightarrow> 'h cpu \<Rightarrow> ('h, unit) out" where
  "push_16_with exc env v s =
     (let s = set_a 7 (a_regs s 7 - 2) s in write_16_with exc env (a_regs s 7) v s)"

subsection \<open>Exception processing\<close>

text \<open>The frame writes: 14 bytes for bus and address errors, and otherwise the program
  counter and status register, with a format word below them on the 68010.\<close>

definition push_exception_frame ::
  "'h exc_routine \<Rightarrow> 'h host_callbacks \<Rightarrow> int \<Rightarrow> u32 \<Rightarrow> u16 \<Rightarrow> 'h cpu \<Rightarrow> ('h, unit) out" where
  "push_exception_frame exc env vector old_pc old_sr s =
     (if vector = 2 \<or> vector = 3
      then (let ir' = (if fault_valid s then fault_ir s else ir s);
                address' = (if fault_valid s then fault_address s else 0);
                ssw' = (if fault_valid s then fault_ssw s else 0)
            in andthen (push_32_with exc env old_pc s) (\<lambda>_ s.
               andthen (push_16_with exc env old_sr s) (\<lambda>_ s.
               andthen (push_16_with exc env ir' s) (\<lambda>_ s.
               andthen (push_32_with exc env address' s) (\<lambda>_ s.
               push_16_with exc env ssw' s)))))
      else andthen (if model s \<ge> M68K_MODEL_68010
                    then push_16_with exc env (word_of_int (vector * 4)) s
                    else Ret () s) (\<lambda>_ s.
           andthen (push_32_with exc env old_pc s) (\<lambda>_ s.
           push_16_with exc env old_sr s)))"

text \<open>From \<open>if (cpu->exception_thrown == 0)\<close> to the end of \<open>m68k_exception\<close>.\<close>

definition process_exception ::
  "'h exc_routine \<Rightarrow> 'h host_callbacks \<Rightarrow> int \<Rightarrow> 'h cpu \<Rightarrow> ('h, unit) out" where
  "process_exception exc env vector s =
     (let s = (if exception_thrown s = 0 then s\<lparr>exception_thrown := vector\<rparr> else s);
          s = s\<lparr>exception_depth := exception_depth s + 1\<rparr>;
          old_sr = sr s;
          old_pc = pc s;
          old_pc = (if vector = 4 \<or> vector = 8 \<or> vector = 10 \<or> vector = 11
                    then ppc s else old_pc);
          old_pc = (if (vector = 2 \<or> vector = 3) \<and> fault_pc_valid s
                    then fault_pc s else old_pc);
          s = m68k_set_sr ((sr s OR M68K_SR_S) AND NOT 0x8000) s
      in andthen (push_exception_frame exc env vector old_pc old_sr s) (\<lambda>_ s.
         let s = s\<lparr>fault_program_access := False\<rparr>;
             s = s\<lparr>fault_valid := False\<rparr>;
             s = s\<lparr>fault_pc_valid := False\<rparr>;
             s = s\<lparr>fault_bus_word_valid := False\<rparr>;
             s = s\<lparr>operand_program_space := False\<rparr>
         in andthen (read_32_with exc env (vbr s + word_of_int vector * 4) s) (\<lambda>vector_addr s.
            let s = m68k_set_pc env vector_addr s
            in Ret () (s\<lparr>exception_depth := exception_depth s - 1\<rparr>))))"

text \<open>The illegal-instruction callback runs first and may claim vector 4.\<close>

definition m68k_exception_body ::
  "'h exc_routine \<Rightarrow> 'h host_callbacks \<Rightarrow> int \<Rightarrow> 'h cpu \<Rightarrow> ('h, unit) out" where
  "m68k_exception_body exc env vector s =
     (if vector = 4
      then (case illg_cb env of
              None \<Rightarrow> process_exception exc env vector s
            | Some cb \<Rightarrow>
                (case cb s (ir s) of
                   (claimed, s) \<Rightarrow>
                     (if claimed \<noteq> 0 then Ret () s
                      else process_exception exc env vector s)))
      else process_exception exc env vector s)"

primrec m68k_exception_n :: "nat \<Rightarrow> 'h host_callbacks \<Rightarrow> 'h exc_routine" where
  "m68k_exception_n 0 env = (\<lambda>vector s. Stuck)"
| "m68k_exception_n (Suc n) env = m68k_exception_body (m68k_exception_n n env) env"

definition m68k_exception :: "'h host_callbacks \<Rightarrow> 'h exc_routine" where
  "m68k_exception env = m68k_exception_n 3 env"

subsection \<open>The public accesses and the stack\<close>

definition m68k_read_8 :: "'h host_callbacks \<Rightarrow> u32 \<Rightarrow> 'h cpu \<Rightarrow> ('h, u8) out" where
  "m68k_read_8 env = read_8_with (m68k_exception env) env"

definition m68k_read_16 :: "'h host_callbacks \<Rightarrow> u32 \<Rightarrow> 'h cpu \<Rightarrow> ('h, u16) out" where
  "m68k_read_16 env = read_16_with (m68k_exception env) env"

definition m68k_read_32 :: "'h host_callbacks \<Rightarrow> u32 \<Rightarrow> 'h cpu \<Rightarrow> ('h, u32) out" where
  "m68k_read_32 env = read_32_with (m68k_exception env) env"

definition m68k_write_8 :: "'h host_callbacks \<Rightarrow> u32 \<Rightarrow> u8 \<Rightarrow> 'h cpu \<Rightarrow> ('h, unit) out" where
  "m68k_write_8 env = write_8_with (m68k_exception env) env"

definition m68k_write_16 :: "'h host_callbacks \<Rightarrow> u32 \<Rightarrow> u16 \<Rightarrow> 'h cpu \<Rightarrow> ('h, unit) out" where
  "m68k_write_16 env = write_16_with (m68k_exception env) env"

definition m68k_write_32 :: "'h host_callbacks \<Rightarrow> u32 \<Rightarrow> u32 \<Rightarrow> 'h cpu \<Rightarrow> ('h, unit) out" where
  "m68k_write_32 env = write_32_with (m68k_exception env) env"

definition m68k_read_size ::
  "'h host_callbacks \<Rightarrow> u32 \<Rightarrow> M68kSize \<Rightarrow> 'h cpu \<Rightarrow> ('h, u32) out" where
  "m68k_read_size env address sz s =
     (case sz of
        SIZE_BYTE \<Rightarrow> andthen (m68k_read_8 env address s) (\<lambda>v s. Ret (ucast v) s)
      | SIZE_WORD \<Rightarrow> andthen (m68k_read_16 env address s) (\<lambda>v s. Ret (ucast v) s)
      | SIZE_LONG \<Rightarrow> m68k_read_32 env address s)"

definition m68k_write_size ::
  "'h host_callbacks \<Rightarrow> u32 \<Rightarrow> u32 \<Rightarrow> M68kSize \<Rightarrow> 'h cpu \<Rightarrow> ('h, unit) out" where
  "m68k_write_size env address v sz s =
     (case sz of
        SIZE_BYTE \<Rightarrow> m68k_write_8 env address (ucast v) s
      | SIZE_WORD \<Rightarrow> m68k_write_16 env address (ucast v) s
      | SIZE_LONG \<Rightarrow> m68k_write_32 env address v s)"

definition m68k_push_32 :: "'h host_callbacks \<Rightarrow> u32 \<Rightarrow> 'h cpu \<Rightarrow> ('h, unit) out" where
  "m68k_push_32 env = push_32_with (m68k_exception env) env"

definition m68k_push_16 :: "'h host_callbacks \<Rightarrow> u16 \<Rightarrow> 'h cpu \<Rightarrow> ('h, unit) out" where
  "m68k_push_16 env = push_16_with (m68k_exception env) env"

definition m68k_pop_32 :: "'h host_callbacks \<Rightarrow> 'h cpu \<Rightarrow> ('h, u32) out" where
  "m68k_pop_32 env s =
     andthen (m68k_read_32 env (a_regs s 7) s) (\<lambda>v s.
     let s = set_a 7 (a_regs s 7 + 4) s in Ret v s)"

definition m68k_pop_16 :: "'h host_callbacks \<Rightarrow> 'h cpu \<Rightarrow> ('h, u16) out" where
  "m68k_pop_16 env s =
     andthen (m68k_read_16 env (a_regs s 7) s) (\<lambda>v s.
     let s = set_a 7 (a_regs s 7 + 2) s in Ret v s)"

subsection \<open>Instruction fetch\<close>

definition m68k_fetch :: "'h host_callbacks \<Rightarrow> 'h cpu \<Rightarrow> ('h, u16) out" where
  "m68k_fetch env s =
     (let s = set_fc env True s;
          raw_fetch_addr = pc s;
          fetch_addr = mask_address_24 raw_fetch_addr;
          s = apply_wait_bus env fetch_addr SIZE_WORD False s
      in if fetch_addr AND 1 \<noteq> 0 \<and> \<not> in_address_error s
         then andthen (take_address_fault (m68k_exception env) raw_fetch_addr False True s)
                (\<lambda>_ s. Ret 0 s)
         else case read16_cb env of
           Some cb \<Rightarrow> (case cb s fetch_addr of (opcode, s) \<Rightarrow> Ret opcode (s\<lparr>pc := pc s + 2\<rparr>))
         | None \<Rightarrow>
             (if is_valid_address s fetch_addr \<and> is_valid_address s (fetch_addr + 1)
              then andthen (mem_load fetch_addr s) (\<lambda>b0 s.
                   andthen (mem_load (fetch_addr + 1) s) (\<lambda>b1 s.
                   Ret (push_bit 8 (ucast b0) OR ucast b1) (s\<lparr>pc := pc s + 2\<rparr>)))
              else if \<not> in_bus_error s
              then andthen (take_bus_fault (m68k_exception env) raw_fetch_addr False True s)
                     (\<lambda>_ s. Ret 0 s)
              else Ret 0 (s\<lparr>pc := pc s + 2\<rparr>)))"

definition fetch_extension :: "'h host_callbacks \<Rightarrow> 'h cpu \<Rightarrow> ('h, u32) out" where
  "fetch_extension env s = andthen (m68k_fetch env s) (\<lambda>w s. Ret (ucast w) s)"

text \<open>\<open>((u32)m68k_fetch(cpu) << 16) | m68k_fetch(cpu)\<close> and the same with named
  halves; the operands are fetched from left to right.\<close>

definition fetch_long :: "'h host_callbacks \<Rightarrow> 'h cpu \<Rightarrow> ('h, u32) out" where
  "fetch_long env s =
     andthen (fetch_extension env s) (\<lambda>high s.
     andthen (fetch_extension env s) (\<lambda>low s.
     Ret (push_bit 16 high OR low) s))"

text \<open>A read that costs nothing and cannot fault, but runs the host's read callback.\<close>

definition m68k_peek_word :: "'h host_callbacks \<Rightarrow> u32 \<Rightarrow> 'h cpu \<Rightarrow> u16 \<times> 'h cpu" where
  "m68k_peek_word env address s =
     (let address = address AND 0x00FFFFFF
      in case read16_cb env of
           Some cb \<Rightarrow> cb s address
         | None \<Rightarrow>
             (case memory s of
                None \<Rightarrow> (0, s)
              | Some m \<Rightarrow>
                  (if address + 1 < memory_size s
                   then (push_bit 8 (ucast (m address)) OR ucast (m (address + 1)), s)
                   else (0, s))))"

subsection \<open>Faults raised by instructions\<close>

definition m68k_raise_illegal_ea :: "'h host_callbacks \<Rightarrow> 'h cpu \<Rightarrow> ('h, unit) out" where
  "m68k_raise_illegal_ea env s =
     andthen (m68k_exception env 4 s) (\<lambda>_ s.
     if fault_trap_active s \<and> exception_depth s = 0 then Longjmp s else Ret () s)"

definition m68k_raise_odd_target_fault ::
  "'h host_callbacks \<Rightarrow> u32 \<Rightarrow> u32 \<Rightarrow> 'h cpu \<Rightarrow> ('h, unit) out" where
  "m68k_raise_odd_target_fault env target fpc s =
     (let s = spend 50 s;
          s = capture_access_fault target False True s;
          s = s\<lparr>fault_pc := fpc\<rparr>;
          s = s\<lparr>fault_pc_valid := True\<rparr>;
          s = s\<lparr>in_address_error := True\<rparr>
      in andthen (m68k_exception env 3 s) (\<lambda>_ s. Ret () (s\<lparr>in_address_error := False\<rparr>)))"

definition m68k_is_unmapped_target :: "'h host_callbacks \<Rightarrow> u32 \<Rightarrow> 'h cpu \<Rightarrow> bool" where
  "m68k_is_unmapped_target env target s =
     (if read16_cb env \<noteq> None then False
      else (let fetch_addr = mask_address_24 target
            in \<not> is_valid_address s fetch_addr \<or> \<not> is_valid_address s (fetch_addr + 1)))"

definition m68k_raise_bus_target_fault ::
  "'h host_callbacks \<Rightarrow> u32 \<Rightarrow> u32 \<Rightarrow> 'h cpu \<Rightarrow> ('h, unit) out" where
  "m68k_raise_bus_target_fault env target fpc s =
     (let s = spend 50 s;
          s = capture_access_fault target False True s;
          s = s\<lparr>fault_pc := fpc\<rparr>;
          s = s\<lparr>fault_pc_valid := True\<rparr>;
          s = s\<lparr>in_bus_error := True\<rparr>
      in andthen (m68k_exception env 2 s) (\<lambda>_ s. Ret () (s\<lparr>in_bus_error := False\<rparr>)))"

subsection \<open>Reset\<close>

definition m68k_reset :: "'h host_callbacks \<Rightarrow> 'h cpu \<Rightarrow> ('h, unit) out" where
  "m68k_reset env s =
     (let s = s\<lparr>d_regs := (\<lambda>i. if i < 8 then 0 else d_regs s i),
               a_regs := (\<lambda>i. if i < 8 then 0 else a_regs s i)\<rparr>;
          s = s\<lparr>sr := 0x2700, usp := 0, stopped := False, trace_pending := False,
               exception_thrown := 0, irq_level := 0, nmi_pending := False,
               in_address_error := False, in_bus_error := False,
               fault_program_access := False, fault_valid := False, group0_fault := False,
               fault_trap_active := False, exception_depth := 0, ppc := 0, ir := 0,
               vbr := 0\<rparr>
      in andthen (m68k_read_32 env 0x00000000 s) (\<lambda>v s.
         let s = set_a 7 v s
         in andthen (m68k_read_32 env 0x00000004 s) (\<lambda>v s. Ret () (s\<lparr>pc := v\<rparr>))))"

end
