(* ===== verification/M68k_Frame.thy ===== *)
theory M68k_Frame
  imports M68k_Bus
begin

section \<open>The frame of the bus: guards, trap and latches\<close>

text \<open>
  What every memory access and every exception leaves in place, for every host whose
  callbacks leave it in place (\<open>host_ok\<close>). The contract of the exception routine
  is the locale \<open>exc_contract\<close>: the accesses of the bus are its clients, and
  \<open>m68k_exception_n\<close> provides it, one activation resting on the next.
\<close>

subsection \<open>The frame every bus operation keeps\<close>

text \<open>
  \<open>ctl_of\<close> collects the fields that the fault machinery relies on. The invariant
  \<open>cpu_inv p w c s\<close> of a context says: its control fields are \<open>p\<close>; the
  exception depth is not negative; only implemented bits of the status register are
  set; the interrupt request level is one of 0 to 7; a null memory pointer comes with
  size 0; at most \<open>c\<close> cycles remain (\<open>None\<close> for no bound); and the transient
  fields are within the permissions \<open>w\<close>: only the operand latches in
  \<open>latches w\<close> may be set, \<open>exception_thrown\<close> is one of \<open>thrown w\<close>, and
  with \<open>group0_set w\<close> the group-0 latch is set.
\<close>

record ctl =
  c_ae :: bool
  c_be :: bool
  c_depth :: int
  c_trap :: bool
  c_size :: u32
  c_model :: M68kModel

definition ctl_of :: "'h cpu \<Rightarrow> ctl" where
  "ctl_of s = \<lparr>c_ae = in_address_error s, c_be = in_bus_error s,
     c_depth = exception_depth s, c_trap = fault_trap_active s,
     c_size = memory_size s, c_model = model s\<rparr>"

definition sr_ok :: "u16 \<Rightarrow> bool" where
  "sr_ok w = (w AND NOT 0xA71F = 0)"

definition within :: "int option \<Rightarrow> int \<Rightarrow> bool" where
  "within c n = (case c of None \<Rightarrow> True | Some b \<Rightarrow> n \<le> b)"

definition lower :: "int \<Rightarrow> int option \<Rightarrow> int option" where
  "lower n c = map_option (\<lambda>b. b - n) c"

datatype latch = Bus_word | Program_space

record perm =
  latches :: "latch set"
  thrown :: "int set"
  group0_set :: bool

definition perm_le :: "perm \<Rightarrow> perm \<Rightarrow> bool" where
  "perm_le w w' \<longleftrightarrow> latches w \<subseteq> latches w' \<and> thrown w \<subseteq> thrown w' \<and>
     (group0_set w' \<longrightarrow> group0_set w)"

text \<open>No latch set, any vector thrown; and no latch set, nothing thrown.\<close>

definition calm :: perm where
  "calm = \<lparr>latches = {}, thrown = UNIV, group0_set = False\<rparr>"

definition fresh :: perm where
  "fresh = \<lparr>latches = {}, thrown = {0}, group0_set = False\<rparr>"

definition cpu_inv :: "ctl \<Rightarrow> perm \<Rightarrow> int option \<Rightarrow> 'h cpu \<Rightarrow> bool" where
  "cpu_inv p w c s \<longleftrightarrow> ctl_of s = p \<and> 0 \<le> exception_depth s \<and> sr_ok (sr s) \<and>
     0 \<le> irq_level s \<and> irq_level s \<le> 7 \<and>
     (memory s = None \<longrightarrow> memory_size s = 0) \<and>
     (fault_bus_word_valid s \<longrightarrow> Bus_word \<in> latches w) \<and>
     (operand_program_space s \<longrightarrow> Program_space \<in> latches w) \<and>
     exception_thrown s \<in> thrown w \<and>
     (group0_set w \<longrightarrow> group0_fault s) \<and>
     within c (cycles_remaining s)"

text \<open>Where a \<open>longjmp\<close> may arrive: during an instruction, at depth 0, with the
  invariant in place and the latches clear.\<close>

definition jump_inv :: "ctl \<Rightarrow> int option \<Rightarrow> 'h cpu \<Rightarrow> bool" where
  "jump_inv p c s \<longleftrightarrow> c_trap p \<and> c_depth p = 0 \<and> cpu_inv p calm c s"

lemma within_None [simp]: "within None n"
  by (simp add: within_def)

lemma within_lower [simp]: "within (lower n c) (m - n) = within c m"
  by (cases c) (simp_all add: within_def lower_def)

lemma within_mono: "within c m \<Longrightarrow> n \<le> m \<Longrightarrow> within c n"
  by (cases c) (simp_all add: within_def)

lemma lower_0 [simp]: "lower 0 c = c"
  by (cases c) (simp_all add: lower_def)

lemma lower_lower [simp]: "lower n (lower m c) = lower (n + m) c"
  by (cases c) (simp_all add: lower_def)

text \<open>Fields the invariant does not look at.\<close>

lemma inv_upd [simp]:
  "cpu_inv p w c (s\<lparr>d_regs := x1\<rparr>) = cpu_inv p w c s"
  "cpu_inv p w c (s\<lparr>a_regs := x1\<rparr>) = cpu_inv p w c s"
  "cpu_inv p w c (s\<lparr>pc := x2\<rparr>) = cpu_inv p w c s"
  "cpu_inv p w c (s\<lparr>ppc := x2\<rparr>) = cpu_inv p w c s"
  "cpu_inv p w c (s\<lparr>ir := x3\<rparr>) = cpu_inv p w c s"
  "cpu_inv p w c (s\<lparr>nmi_pending := x6\<rparr>) = cpu_inv p w c s"
  "cpu_inv p w c (s\<lparr>usp := x2\<rparr>) = cpu_inv p w c s"
  "cpu_inv p w c (s\<lparr>ssp := x2\<rparr>) = cpu_inv p w c s"
  "cpu_inv p w c (s\<lparr>stopped := x6\<rparr>) = cpu_inv p w c s"
  "cpu_inv p w c (s\<lparr>trace_pending := x6\<rparr>) = cpu_inv p w c s"
  "cpu_inv p w c (s\<lparr>fault_address := x2\<rparr>) = cpu_inv p w c s"
  "cpu_inv p w c (s\<lparr>fault_pc := x2\<rparr>) = cpu_inv p w c s"
  "cpu_inv p w c (s\<lparr>fault_ir := x3\<rparr>) = cpu_inv p w c s"
  "cpu_inv p w c (s\<lparr>fault_ssw := x3\<rparr>) = cpu_inv p w c s"
  "cpu_inv p w c (s\<lparr>fault_program_access := x6\<rparr>) = cpu_inv p w c s"
  "cpu_inv p w c (s\<lparr>fault_valid := x6\<rparr>) = cpu_inv p w c s"
  "cpu_inv p w c (s\<lparr>fault_pc_valid := x6\<rparr>) = cpu_inv p w c s"
  "cpu_inv p w c (s\<lparr>fault_bus_word := x3\<rparr>) = cpu_inv p w c s"
  "cpu_inv p w c (s\<lparr>vbr := x2\<rparr>) = cpu_inv p w c s"
  "cpu_inv p w c (s\<lparr>sfc := x2\<rparr>) = cpu_inv p w c s"
  "cpu_inv p w c (s\<lparr>dfc := x2\<rparr>) = cpu_inv p w c s"
  "cpu_inv p w c (s\<lparr>target_cycles := x5\<rparr>) = cpu_inv p w c s"
  "cpu_inv p w c (s\<lparr>host := h\<rparr>) = cpu_inv p w c s"
  by (auto simp: cpu_inv_def ctl_of_def)

lemma inv_memory: "cpu_inv p w c s \<Longrightarrow> cpu_inv p w c (s\<lparr>memory := Some m\<rparr>)"
  by (auto simp: cpu_inv_def ctl_of_def)

lemma inv_spend [simp]:
  "cpu_inv p w c (s\<lparr>cycles_remaining := n\<rparr>) = (cpu_inv p w None s \<and> within c n)"
  by (auto simp: cpu_inv_def ctl_of_def)

lemma inv_sr: "cpu_inv p w c s \<Longrightarrow> sr_ok x \<Longrightarrow> cpu_inv p w c (s\<lparr>sr := x\<rparr>)"
  by (auto simp: cpu_inv_def ctl_of_def)

lemma inv_weaken: "cpu_inv p w c s \<Longrightarrow> perm_le w w' \<Longrightarrow> cpu_inv p w' c s"
  by (auto simp: cpu_inv_def perm_le_def)

lemma inv_calm: "cpu_inv p w c s \<Longrightarrow> latches w = {} \<Longrightarrow> cpu_inv p calm c s"
  by (erule inv_weaken) (simp add: perm_le_def calm_def)

lemma inv_irq: "cpu_inv p w c s \<Longrightarrow> 0 \<le> l \<Longrightarrow> l \<le> 7 \<Longrightarrow> cpu_inv p w c (s\<lparr>irq_level := l\<rparr>)"
  by (auto simp: cpu_inv_def ctl_of_def)

lemma inv_group0:
  "cpu_inv p w c s \<Longrightarrow> cpu_inv p (w\<lparr>group0_set := True\<rparr>) c (s\<lparr>group0_fault := True\<rparr>)"
  by (auto simp: cpu_inv_def ctl_of_def)

lemma inv_unbounded: "cpu_inv p w c s \<Longrightarrow> cpu_inv p w None s"
  by (auto simp: cpu_inv_def)

lemma inv_within: "cpu_inv p w c s \<Longrightarrow> within c (cycles_remaining s)"
  by (simp add: cpu_inv_def)

lemma inv_ctl: "cpu_inv p w c s \<Longrightarrow> ctl_of s = p"
  by (simp add: cpu_inv_def)

lemma inv_clear_latches:
  "cpu_inv p w c s \<Longrightarrow> cpu_inv p (w\<lparr>latches := {}\<rparr>) c
     (s\<lparr>fault_bus_word_valid := False\<rparr>\<lparr>operand_program_space := False\<rparr>)"
  by (simp add: cpu_inv_def ctl_of_def)

text \<open>The control fields of a state that satisfies the invariant.\<close>

lemma inv_fields:
  assumes "cpu_inv p w c s"
  shows "in_address_error s = c_ae p" "in_bus_error s = c_be p" "exception_depth s = c_depth p"
    "fault_trap_active s = c_trap p" "memory_size s = c_size p" "model s = c_model p"
    "0 \<le> c_depth p"
  using assms by (auto simp: cpu_inv_def ctl_of_def)

subsection \<open>The host's side of the contract\<close>

text \<open>
  \<open>frames t s s'\<close>: a callback that takes the context from \<open>s\<close> to \<open>s'\<close>
  leaves the control fields, the memory binding and \<open>exception_thrown\<close> as they are,
  keeps the status register and the interrupt level valid, sets no operand latch and
  does not clear the group-0 latch. With \<open>t\<close> it also adds no cycles to the
  timeslice. \<open>host_ok t env\<close> asks this of every installed callback.
\<close>

definition frames :: "bool \<Rightarrow> 'h cpu \<Rightarrow> 'h cpu \<Rightarrow> bool" where
  "frames t s s' \<longleftrightarrow> ctl_of s' = ctl_of s \<and> (memory s' = None \<longleftrightarrow> memory s = None) \<and>
     (sr_ok (sr s) \<longrightarrow> sr_ok (sr s')) \<and>
     (0 \<le> irq_level s \<and> irq_level s \<le> 7 \<longrightarrow> 0 \<le> irq_level s' \<and> irq_level s' \<le> 7) \<and>
     exception_thrown s' = exception_thrown s \<and> (group0_fault s \<longrightarrow> group0_fault s') \<and>
     (fault_bus_word_valid s' \<longrightarrow> fault_bus_word_valid s) \<and>
     (operand_program_space s' \<longrightarrow> operand_program_space s) \<and>
     (t \<longrightarrow> cycles_remaining s' \<le> cycles_remaining s)"

definition host_ok :: "bool \<Rightarrow> 'h host_callbacks \<Rightarrow> bool" where
  "host_ok t env \<longleftrightarrow>
     pred_option (\<lambda>cb. \<forall>s a z w. frames t s (snd (cb s a z w))) (wait_bus env) \<and>
     pred_option (\<lambda>cb. \<forall>s l. frames t s (snd (cb s l))) (int_ack env) \<and>
     pred_option (\<lambda>cb. \<forall>s f. frames t s (cb s f)) (fc_cb env) \<and>
     pred_option (\<lambda>cb. \<forall>s a. frames t s (cb s a)) (instr_hook_cb env) \<and>
     pred_option (\<lambda>cb. \<forall>s a. frames t s (cb s a)) (pc_changed_cb env) \<and>
     pred_option (\<lambda>cb. \<forall>s. frames t s (cb s)) (reset_cb env) \<and>
     pred_option (\<lambda>cb. \<forall>s. frames t s (snd (cb s))) (tas_cb env) \<and>
     pred_option (\<lambda>cb. \<forall>s i. frames t s (snd (cb s i))) (illg_cb env) \<and>
     pred_option (\<lambda>cb. \<forall>s a. frames t s (snd (cb s a))) (read8_cb env) \<and>
     pred_option (\<lambda>cb. \<forall>s a. frames t s (snd (cb s a))) (read16_cb env) \<and>
     pred_option (\<lambda>cb. \<forall>s a. frames t s (snd (cb s a))) (read32_cb env) \<and>
     pred_option (\<lambda>cb. \<forall>s a v. frames t s (cb s a v)) (write8_cb env) \<and>
     pred_option (\<lambda>cb. \<forall>s a v. frames t s (cb s a v)) (write16_cb env) \<and>
     pred_option (\<lambda>cb. \<forall>s a v. frames t s (cb s a v)) (write32_cb env)"

lemma host_ok_no_callbacks: "host_ok t no_callbacks"
  by (simp add: host_ok_def no_callbacks_def option.pred_inject)

text \<open>A bound is tracked only when the host is thrifty.\<close>

definition bound_ok :: "bool \<Rightarrow> int option \<Rightarrow> bool" where
  "bound_ok t c \<longleftrightarrow> t \<or> c = None"

lemma bound_ok_None [simp]: "bound_ok t None"
  by (simp add: bound_ok_def)

lemma bound_ok_lower [simp]: "bound_ok t (lower n c) = bound_ok t c"
  by (simp add: bound_ok_def lower_def)

lemma inv_frames:
  assumes i: "cpu_inv p w c s" and f: "frames t s s'" and b: "bound_ok t c"
  shows "cpu_inv p w c s'"
proof -
  have e: "ctl_of s' = ctl_of s" and p: "ctl_of s = p"
    using i f by (simp_all add: cpu_inv_def frames_def)
  from e have k: "memory_size s' = memory_size s" "exception_depth s' = exception_depth s"
    by (simp_all add: ctl_of_def)
  have c: "within c (cycles_remaining s')"
    using i f b by (auto simp: cpu_inv_def frames_def bound_ok_def intro: within_mono)
  show ?thesis
    using i f k c e p unfolding cpu_inv_def frames_def by simp
qed

text \<open>Each callback, applied in a state that satisfies the invariant.\<close>

lemma host_inv:
  assumes "host_ok t env" and "cpu_inv p w c s" and "bound_ok t c"
  shows "wait_bus env = Some cb1 \<Longrightarrow> cpu_inv p w c (snd (cb1 s a z wr))"
    and "int_ack env = Some cb2 \<Longrightarrow> cpu_inv p w c (snd (cb2 s l))"
    and "fc_cb env = Some cb3 \<Longrightarrow> cpu_inv p w c (cb3 s f)"
    and "instr_hook_cb env = Some cb4 \<Longrightarrow> cpu_inv p w c (cb4 s a)"
    and "pc_changed_cb env = Some cb5 \<Longrightarrow> cpu_inv p w c (cb5 s a)"
    and "reset_cb env = Some cb6 \<Longrightarrow> cpu_inv p w c (cb6 s)"
    and "tas_cb env = Some cb7 \<Longrightarrow> cpu_inv p w c (snd (cb7 s))"
    and "illg_cb env = Some cb8 \<Longrightarrow> cpu_inv p w c (snd (cb8 s i))"
    and "read8_cb env = Some cb9 \<Longrightarrow> cpu_inv p w c (snd (cb9 s a))"
    and "read16_cb env = Some cb10 \<Longrightarrow> cpu_inv p w c (snd (cb10 s a))"
    and "read32_cb env = Some cb11 \<Longrightarrow> cpu_inv p w c (snd (cb11 s a))"
    and "write8_cb env = Some cb12 \<Longrightarrow> cpu_inv p w c (cb12 s a v8)"
    and "write16_cb env = Some cb13 \<Longrightarrow> cpu_inv p w c (cb13 s a v16)"
    and "write32_cb env = Some cb14 \<Longrightarrow> cpu_inv p w c (cb14 s a v32)"
  using assms(1) by - (rule inv_frames [OF assms(2) _ assms(3)], simp add: host_ok_def option.pred_inject)+

lemma inv_set_fc:
  assumes "host_ok t env" and "bound_ok t c" and "cpu_inv p w c s"
  shows "cpu_inv p w c (set_fc env b s)"
  using host_inv(3) [OF assms(1,3,2)] assms(3) by (simp add: set_fc_def split: option.split)

lemma inv_apply_wait_bus:
  assumes "host_ok t env" and "bound_ok t c" and "cpu_inv p w c s"
  shows "cpu_inv p w c (apply_wait_bus env a z wr s)"
proof (cases "wait_bus env")
  case None
  then show ?thesis using assms by (simp add: apply_wait_bus_def)
next
  case (Some cb)
  obtain n s' where r: "cb s a z wr = (n, s')" by fastforce
  have i: "cpu_inv p w c s'"
    using host_inv(1) [OF assms(1,3,2) Some, of a z wr] r by simp
  show ?thesis
    using Some r i within_mono [OF inv_within [OF i]] inv_unbounded [OF i]
    by (simp add: apply_wait_bus_def)
qed

lemma inv_set_pc:
  assumes "host_ok t env" and "bound_ok t c" and "cpu_inv p w c s"
  shows "cpu_inv p w c (m68k_set_pc env v s)"
  using host_inv(5) [OF assms(1) _ assms(2), of p w "s\<lparr>pc := v\<rparr>"] assms(3)
  by (simp add: m68k_set_pc_def Let_def split: option.split)

lemma inv_capture:
  "cpu_inv p w c s \<Longrightarrow> cpu_inv p (w\<lparr>group0_set := True\<rparr>) c (capture_access_fault a wr pr s)"
  by (simp add: capture_access_fault_def Let_def inv_group0)

lemma sr_ok_and_mask [simp]: "sr_ok (w AND 0xA71F)"
proof -
  have "(w AND 0xA71F) AND NOT 0xA71F = w AND (0xA71F AND NOT 0xA71F)"
    by (simp only: and.assoc)
  then show ?thesis by (simp add: sr_ok_def)
qed

lemma inv_set_sr: "cpu_inv p w c s \<Longrightarrow> cpu_inv p w c (m68k_set_sr x s)"
  by (auto simp: m68k_set_sr_def Let_def intro: inv_sr)


text \<open>The assignments to the guards and the depth move the invariant to other
  control fields.\<close>

lemma inv_set_be: "cpu_inv p w c s \<Longrightarrow> cpu_inv (p\<lparr>c_be := b\<rparr>) w c (s\<lparr>in_bus_error := b\<rparr>)"
  by (auto simp: cpu_inv_def ctl_of_def)

lemma inv_set_ae: "cpu_inv p w c s \<Longrightarrow> cpu_inv (p\<lparr>c_ae := b\<rparr>) w c (s\<lparr>in_address_error := b\<rparr>)"
  by (auto simp: cpu_inv_def ctl_of_def)

lemma inv_set_depth:
  "cpu_inv p w c s \<Longrightarrow> 0 \<le> d \<Longrightarrow> cpu_inv (p\<lparr>c_depth := d\<rparr>) w c (s\<lparr>exception_depth := d\<rparr>)"
  by (auto simp: cpu_inv_def ctl_of_def)

lemma ctl_restore:
  "c_be p = b \<Longrightarrow> p\<lparr>c_be := b'\<rparr>\<lparr>c_be := b\<rparr> = p"
  "c_ae p = b \<Longrightarrow> p\<lparr>c_ae := b'\<rparr>\<lparr>c_ae := b\<rparr> = p"
  "c_depth p = d \<Longrightarrow> p\<lparr>c_depth := d'\<rparr>\<lparr>c_depth := d\<rparr> = p"
  by (cases p; simp)+

lemma mem_load_keeps:
  assumes "cpu_inv p w c s" and "c_size p \<noteq> 0"
  shows "keeps (cpu_inv p w c) E (mem_load a s)"
  using assms inv_fields(5) [OF assms(1)] by (auto simp: mem_load_def cpu_inv_def split: option.split)

lemma mem_store_keeps:
  assumes "cpu_inv p w c s" and "c_size p \<noteq> 0"
  shows "keeps (cpu_inv p w c) E (mem_store a v s)"
  using assms inv_memory [OF assms(1)] inv_fields(5) [OF assms(1)]
  by (auto simp: mem_store_def cpu_inv_def split: option.split)

subsection \<open>The contract of the exception routine\<close>

text \<open>
  The accesses call \<open>exc\<close> on a fault, with one more guard set than they were called
  with. The contract asks, for the control fields in \<open>adm\<close>, that it returns (no
  jump, not stuck), restores the control fields, clears the operand latches and records
  the vector if none was recorded: \<open>after\<close> says how the permissions change. Vector
  4 may be claimed by the host before anything happens.
\<close>

definition record_vector :: "int \<Rightarrow> int set \<Rightarrow> int set" where
  "record_vector v T = (if 0 \<in> T \<and> T \<noteq> UNIV then insert v (T - {0}) else T)"

definition after :: "'h host_callbacks \<Rightarrow> int \<Rightarrow> perm \<Rightarrow> perm" where
  "after env v w =
     (if v = 4 \<and> illg_cb env \<noteq> None then w\<lparr>thrown := insert 4 (thrown w)\<rparr>
      else w\<lparr>thrown := record_vector v (thrown w), latches := {}\<rparr>)"

lemma inv_record:
  "cpu_inv p w c s \<Longrightarrow> cpu_inv p (w\<lparr>thrown := record_vector v (thrown w)\<rparr>) c
     (if exception_thrown s = 0 then s\<lparr>exception_thrown := v\<rparr> else s)"
  by (auto simp: cpu_inv_def ctl_of_def record_vector_def)

text \<open>An access that faults while nothing was thrown must not return: the instruction
  is aborted, unless any vector is permitted anyway.\<close>

definition steady :: "ctl \<Rightarrow> perm \<Rightarrow> bool" where
  "steady p w \<longleftrightarrow> (0 \<in> thrown w \<longrightarrow> c_trap p \<and> c_depth p = 0 \<or> thrown w = UNIV)"

definition callable :: "(ctl \<Rightarrow> bool) \<Rightarrow> ctl \<Rightarrow> bool" where
  "callable adm p \<longleftrightarrow>
     (\<not> c_ae p \<longrightarrow> adm (p\<lparr>c_ae := True\<rparr>)) \<and> (\<not> c_be p \<longrightarrow> adm (p\<lparr>c_be := True\<rparr>))"

lemma steady_upd [simp]:
  "steady (p\<lparr>c_be := b\<rparr>) w = steady p w" "steady (p\<lparr>c_ae := b\<rparr>) w = steady p w"
  "steady p (w\<lparr>group0_set := b\<rparr>) = steady p w" "steady p (w\<lparr>latches := L\<rparr>) = steady p w"
  by (simp_all add: steady_def)

lemma abort_keeps:
  assumes i: "cpu_inv p (after env v (w\<lparr>group0_set := True\<rparr>)) c s" and "v \<noteq> 4" and "steady p w"
  shows "keeps (cpu_inv p w c) (jump_inv p c) (abort_faulted_instruction s)"
proof -
  have g: "group0_fault s"
    using i assms(2) by (simp add: cpu_inv_def after_def)
  have calm: "cpu_inv p calm c s"
    by (rule inv_calm [OF i]) (simp add: after_def assms(2))
  have "cpu_inv p w c s" if "\<not> (c_trap p \<and> c_depth p = 0)"
    using that assms(2,3)
    by (intro inv_weaken [OF i]) (auto simp: perm_le_def after_def record_vector_def steady_def)
  then show ?thesis
    using g calm inv_fields [OF i] by (auto simp: abort_faulted_instruction_def jump_inv_def)
qed

locale exc_contract =
  fixes exc :: "'h exc_routine" and env :: "'h host_callbacks"
    and t :: bool and adm :: "ctl \<Rightarrow> bool"
  assumes host: "host_ok t env"
    and exc_post: "adm p \<Longrightarrow> cpu_inv p w c s \<Longrightarrow> bound_ok t c \<Longrightarrow>
      (v = 0 \<Longrightarrow> thrown w = UNIV) \<Longrightarrow>
      post (\<lambda>_. cpu_inv p (after env v w) c) (\<lambda>_. False) (exc v s)"
begin

lemma take_bus_fault_keeps:
  assumes "cpu_inv p w c s" and "callable adm p" and "\<not> c_be p" and "bound_ok t c" and "steady p w"
  shows "keeps (cpu_inv p w c) (jump_inv p c) (take_bus_fault exc a wr pr s)"
proof -
  let ?s = "(capture_access_fault a wr pr s)\<lparr>in_bus_error := True\<rparr>"
  let ?w = "w\<lparr>group0_set := True\<rparr>"
  have "cpu_inv (p\<lparr>c_be := True\<rparr>) ?w c ?s"
    using assms(1) by (intro inv_set_be inv_capture)
  then have r: "post (\<lambda>_. cpu_inv (p\<lparr>c_be := True\<rparr>) (after env 2 ?w) c) (\<lambda>_. False) (exc 2 ?s)"
    using assms by (intro exc_post) (simp_all add: callable_def)
  have "keeps (cpu_inv p w c) (jump_inv p c)
      (abort_faulted_instruction (s'\<lparr>in_bus_error := False\<rparr>))"
    if "cpu_inv (p\<lparr>c_be := True\<rparr>) (after env 2 ?w) c s'" for s'
    using inv_set_be [OF that, of False] assms(3,5)
    by (intro abort_keeps [where v=2 and env=env]) (simp_all add: ctl_restore)
  then show ?thesis
    unfolding take_bus_fault_def Let_def keeps_def post_andthen_iff
    by (intro post_mono [OF r]) auto
qed

lemma take_address_fault_keeps:
  assumes "cpu_inv p w c s" and "callable adm p" and "\<not> c_ae p" and "bound_ok t c" and "steady p w"
  shows "keeps (cpu_inv p w c) (jump_inv p c) (take_address_fault exc a wr pr s)"
proof -
  let ?s = "(capture_access_fault a wr pr s)\<lparr>in_address_error := True\<rparr>"
  let ?w = "w\<lparr>group0_set := True\<rparr>"
  have "cpu_inv (p\<lparr>c_ae := True\<rparr>) ?w c ?s"
    using assms(1) by (intro inv_set_ae inv_capture)
  then have r: "post (\<lambda>_. cpu_inv (p\<lparr>c_ae := True\<rparr>) (after env 3 ?w) c) (\<lambda>_. False) (exc 3 ?s)"
    using assms by (intro exc_post) (simp_all add: callable_def)
  have "keeps (cpu_inv p w c) (jump_inv p c)
      (abort_faulted_instruction (s'\<lparr>in_address_error := False\<rparr>))"
    if "cpu_inv (p\<lparr>c_ae := True\<rparr>) (after env 3 ?w) c s'" for s'
    using inv_set_ae [OF that, of False] assms(3,5)
    by (intro abort_keeps [where v=3 and env=env]) (simp_all add: ctl_restore)
  then show ?thesis
    unfolding take_address_fault_def Let_def keeps_def post_andthen_iff
    by (intro post_mono [OF r]) auto
qed

text \<open>An access starts with the wait states and the function code.\<close>

lemma bus_start:
  assumes "cpu_inv p w c s" and "bound_ok t c"
  shows "cpu_inv p w c (set_fc env b (apply_wait_bus env a z wr s))"
    and "cpu_inv p w c (apply_wait_bus env a z wr (set_fc env b s))"
  using assms host by (simp_all add: inv_set_fc inv_apply_wait_bus)

lemma valid_nonzero: "is_valid_address s a \<Longrightarrow> cpu_inv p w c s \<Longrightarrow> c_size p \<noteq> 0"
  using inv_fields(5) by (fastforce simp: is_valid_address_def)

lemma callback_inv:
  assumes "cpu_inv p w c s" and "bound_ok t c"
  shows "illg_cb env = Some cb8 \<Longrightarrow> cb8 s i = (n, s') \<Longrightarrow> cpu_inv p w c s'"
    and "read8_cb env = Some cb9 \<Longrightarrow> cb9 s a = (v8, s') \<Longrightarrow> cpu_inv p w c s'"
    and "read16_cb env = Some cb10 \<Longrightarrow> cb10 s a = (v16, s') \<Longrightarrow> cpu_inv p w c s'"
    and "read32_cb env = Some cb11 \<Longrightarrow> cb11 s a = (v32, s') \<Longrightarrow> cpu_inv p w c s'"
    and "write8_cb env = Some cb12 \<Longrightarrow> cpu_inv p w c (cb12 s a v8)"
    and "write16_cb env = Some cb13 \<Longrightarrow> cpu_inv p w c (cb13 s a v16)"
    and "write32_cb env = Some cb14 \<Longrightarrow> cpu_inv p w c (cb14 s a v32)"
  using host_inv [OF host assms] by (metis snd_conv)+

lemmas access_intros = keeps_andthen take_bus_fault_keeps take_address_fault_keeps
  mem_load_keeps mem_store_keeps keeps_if

lemma read_8_with_keeps:
  assumes "cpu_inv p w c s" and "callable adm p" and "bound_ok t c" and "steady p w"
  shows "keeps (cpu_inv p w c) (jump_inv p c) (read_8_with exc env a s)"
proof -
  have i: "cpu_inv p w c (set_fc env False (apply_wait_bus env (mask_address_24 a) SIZE_BYTE False s))"
    using assms by (simp add: bus_start)
  show ?thesis
    unfolding read_8_with_def Let_def
    using i assms(2,3,4) callback_inv [OF i assms(3)]
    by (auto simp: inv_fields split: option.split prod.split dest: valid_nonzero
        intro!: access_intros)
qed

lemma read_16_with_keeps:
  assumes "cpu_inv p w c s" and "callable adm p" and "bound_ok t c" and "steady p w"
  shows "keeps (cpu_inv p w c) (jump_inv p c) (read_16_with exc env a s)"
proof -
  have i: "cpu_inv p w c (set_fc env False (apply_wait_bus env (mask_address_24 a) SIZE_WORD False s))"
    using assms by (simp add: bus_start)
  show ?thesis
    unfolding read_16_with_def Let_def
    using i assms(2,3,4) callback_inv [OF i assms(3)]
    by (auto simp: inv_fields split: option.split prod.split dest: valid_nonzero
        intro!: access_intros)
qed

lemma read_32_with_keeps:
  assumes "cpu_inv p w c s" and "callable adm p" and "bound_ok t c" and "steady p w"
  shows "keeps (cpu_inv p w c) (jump_inv p c) (read_32_with exc env a s)"
proof -
  have i: "cpu_inv p w c (set_fc env False (apply_wait_bus env (mask_address_24 a) SIZE_LONG False s))"
    using assms by (simp add: bus_start)
  show ?thesis
    unfolding read_32_with_def Let_def
    using i assms(2,3,4) callback_inv [OF i assms(3)]
    by (auto simp: inv_fields split: option.split prod.split dest: valid_nonzero
        intro!: access_intros)
qed

lemma write_8_with_keeps:
  assumes "cpu_inv p w c s" and "callable adm p" and "bound_ok t c" and "steady p w"
  shows "keeps (cpu_inv p w c) (jump_inv p c) (write_8_with exc env a v s)"
proof -
  have i: "cpu_inv p w c (set_fc env False (apply_wait_bus env (mask_address_24 a) SIZE_BYTE True s))"
    using assms by (simp add: bus_start)
  show ?thesis
    unfolding write_8_with_def Let_def is_valid_address_def [symmetric]
    using i assms(2,3,4) callback_inv [OF i assms(3)]
    by (auto simp: inv_fields split: option.split prod.split dest: valid_nonzero
        intro!: access_intros)
qed

lemma write_16_with_keeps:
  assumes "cpu_inv p w c s" and "callable adm p" and "bound_ok t c" and "steady p w"
  shows "keeps (cpu_inv p w c) (jump_inv p c) (write_16_with exc env a v s)"
proof -
  have i: "cpu_inv p w c (set_fc env False (apply_wait_bus env (mask_address_24 a) SIZE_WORD True s))"
    using assms by (simp add: bus_start)
  show ?thesis
    unfolding write_16_with_def Let_def
    using i assms(2,3,4) callback_inv [OF i assms(3)]
    by (auto simp: inv_fields split: option.split prod.split dest: valid_nonzero
        intro!: access_intros)
qed

lemma write_32_with_keeps:
  assumes "cpu_inv p w c s" and "callable adm p" and "bound_ok t c" and "steady p w"
  shows "keeps (cpu_inv p w c) (jump_inv p c) (write_32_with exc env a v s)"
proof -
  have i: "cpu_inv p w c (set_fc env False (apply_wait_bus env (mask_address_24 a) SIZE_LONG True s))"
    using assms by (simp add: bus_start)
  show ?thesis
    unfolding write_32_with_def Let_def
    using i assms(2,3,4) callback_inv [OF i assms(3)]
    by (auto simp: inv_fields split: option.split prod.split dest: valid_nonzero
        intro!: access_intros)
qed

lemma push_32_with_keeps:
  assumes "cpu_inv p w c s" and "callable adm p" and "bound_ok t c" and "steady p w"
  shows "keeps (cpu_inv p w c) (jump_inv p c) (push_32_with exc env v s)"
  using assms by (simp add: push_32_with_def Let_def write_32_with_keeps)

lemma push_16_with_keeps:
  assumes "cpu_inv p w c s" and "callable adm p" and "bound_ok t c" and "steady p w"
  shows "keeps (cpu_inv p w c) (jump_inv p c) (push_16_with exc env v s)"
  using assms by (simp add: push_16_with_def Let_def write_16_with_keeps)

lemma push_exception_frame_keeps:
  assumes "cpu_inv p w c s" and "callable adm p" and "bound_ok t c" and "steady p w"
  shows "keeps (cpu_inv p w c) (jump_inv p c) (push_exception_frame exc env v pc' sr' s)"
  unfolding push_exception_frame_def Let_def
  using assms by (auto intro!: keeps_andthen push_32_with_keeps push_16_with_keeps)

text \<open>One activation: the depth is positive while the frame is written and the vector
  read, so nothing can jump; the latches are cleared; the guards come back.\<close>

lemma process_exception_post:
  assumes i: "cpu_inv p w c s" and call: "callable adm (p\<lparr>c_depth := c_depth p + 1\<rparr>)"
    and b: "bound_ok t c" and v0: "v = 0 \<Longrightarrow> thrown w = UNIV"
  shows "post (\<lambda>_. cpu_inv p (w\<lparr>thrown := record_vector v (thrown w), latches := {}\<rparr>) c)
    (\<lambda>_. False) (process_exception exc env v s)"
proof -
  let ?p = "p\<lparr>c_depth := c_depth p + 1\<rparr>"
  let ?w = "w\<lparr>thrown := record_vector v (thrown w)\<rparr>"
  let ?W = "w\<lparr>thrown := record_vector v (thrown w), latches := {}\<rparr>"
  let ?E = "jump_inv ?p c"
  have d: "0 \<le> c_depth p" "exception_depth s = c_depth p"
    using inv_fields [OF i] by simp_all
  then have noE: "\<not> ?E s'" for s' by (simp add: jump_inv_def)
  have st: "steady ?p ?w" "steady ?p ?W"
    using v0 by (auto simp: steady_def record_vector_def)
  define s1 where "s1 = (let s = (if exception_thrown s = 0 then s\<lparr>exception_thrown := v\<rparr> else s);
       s = s\<lparr>exception_depth := exception_depth s + 1\<rparr>
     in m68k_set_sr ((sr s OR M68K_SR_S) AND NOT 0x8000) s)"
  have "cpu_inv p ?w c (if exception_thrown s = 0 then s\<lparr>exception_thrown := v\<rparr> else s)"
    using i by (rule inv_record)
  from inv_set_depth [OF this, of "c_depth p + 1"]
  have s1: "cpu_inv ?p ?w c s1"
    using d unfolding s1_def Let_def
    by (intro inv_set_sr) (cases "exception_thrown s = 0", simp_all)
  have fin: "post (\<lambda>_. cpu_inv p ?W c) ?E
      (Ret () ((m68k_set_pc env a s2)\<lparr>exception_depth :=
         exception_depth (m68k_set_pc env a s2) - 1\<rparr>))"
    if "cpu_inv ?p ?W c s2" for a s2
  proof -
    have k: "cpu_inv ?p ?W c (m68k_set_pc env a s2)"
      using inv_set_pc [OF host b that] .
    have "exception_depth (m68k_set_pc env a s2) = c_depth p + 1"
      using inv_fields(3) [OF k] by simp
    then show ?thesis
      using inv_set_depth [OF k, of "c_depth p"] d by (simp add: ctl_restore)
  qed
  have vec: "post (\<lambda>_. cpu_inv p ?W c) ?E
      (andthen (read_32_with exc env a s2) (\<lambda>vector_addr s.
        Ret () ((m68k_set_pc env vector_addr s)\<lparr>exception_depth :=
           exception_depth (m68k_set_pc env vector_addr s) - 1\<rparr>)))"
    if "cpu_inv ?p ?W c s2" for a s2
    unfolding post_andthen_iff
    using read_32_with_keeps [OF that call b st(2), of a, unfolded keeps_def]
    by (rule post_mono) (simp_all only: fin)
  have clear: "cpu_inv ?p ?W c
      (s2\<lparr>fault_program_access := False\<rparr>\<lparr>fault_valid := False\<rparr>\<lparr>fault_pc_valid := False\<rparr>
         \<lparr>fault_bus_word_valid := False\<rparr>\<lparr>operand_program_space := False\<rparr>)"
    if "cpu_inv ?p ?w c s2" for s2
    using inv_clear_latches [of ?p ?w c "s2\<lparr>fault_program_access := False\<rparr>
        \<lparr>fault_valid := False\<rparr>\<lparr>fault_pc_valid := False\<rparr>"] that by simp
  have "post (\<lambda>_. cpu_inv p ?W c) ?E (process_exception exc env v s)"
    unfolding process_exception_def Let_def post_andthen_iff
    by (rule post_mono [OF push_exception_frame_keeps [OF s1 [unfolded s1_def Let_def] call b
          st(1), unfolded keeps_def]])
       (rule vec [unfolded post_andthen_iff], erule clear)
  then show ?thesis by (rule post_mono) (simp_all add: noE)
qed

lemma exception_body_post:
  assumes i: "cpu_inv p w c s" and call: "callable adm (p\<lparr>c_depth := c_depth p + 1\<rparr>)"
    and b: "bound_ok t c" and v0: "v = 0 \<Longrightarrow> thrown w = UNIV"
  shows "post (\<lambda>_. cpu_inv p (after env v w) c) (\<lambda>_. False) (m68k_exception_body exc env v s)"
proof -
  have le: "perm_le (w\<lparr>thrown := record_vector v (thrown w), latches := {}\<rparr>) (after env v w)"
    and le': "v = 4 \<Longrightarrow> illg_cb env = Some cb \<Longrightarrow> perm_le w (after env v w)" for cb
    by (auto simp: perm_le_def after_def record_vector_def)
  have r: "post (\<lambda>_. cpu_inv p (after env v w) c) (\<lambda>_. False) (process_exception exc env v s')"
    if "cpu_inv p w c s'" for s'
    by (rule post_mono [OF process_exception_post [OF that call b v0]])
       (auto elim: inv_weaken [OF _ le])
  have claim: "cpu_inv p (after env v w) c s'"
    if "v = 4" "illg_cb env = Some cb" "cb s (ir s) = (n, s')" for cb n s'
    using inv_weaken [OF callback_inv(1) [OF i b that(2,3)] le'] that by blast
  show ?thesis
    using i r callback_inv(1) [OF i b] claim
    by (auto simp: m68k_exception_body_def split: option.split prod.split)
qed

end

subsection \<open>The exception routine provides it\<close>

text \<open>Every nested activation needs a guard that was clear: \<open>free_guards\<close> counts them.\<close>

definition free_guards :: "ctl \<Rightarrow> nat" where
  "free_guards p = (if c_ae p then 0 else 1) + (if c_be p then 0 else 1)"

lemma exception_n_contract:
  assumes "host_ok t env"
  shows "exc_contract (m68k_exception_n n env) env t (\<lambda>p. free_guards p < n)"
proof (induction n)
  case 0
  show ?case using assms by unfold_locales simp_all
next
  case (Suc n)
  have "post (\<lambda>_. cpu_inv p (after env v w) c) (\<lambda>_. False)
      (m68k_exception_body (m68k_exception_n n env) env v s)"
    if "free_guards p < Suc n" and "cpu_inv p w c s" and "bound_ok t c"
      and "v = 0 \<Longrightarrow> thrown w = UNIV"
    for p w c s v
    using exc_contract.exception_body_post [OF Suc.IH that(2) _ that(3,4)] that(1)
    by (simp add: callable_def free_guards_def split: if_splits)
  then show ?case using assms by unfold_locales simp_all
qed

lemma m68k_exception_contract:
  assumes "host_ok t env"
  shows "exc_contract (m68k_exception env) env t (\<lambda>_. True)"
proof -
  have "exc_contract (m68k_exception env) env t (\<lambda>p. free_guards p < 3)"
    unfolding m68k_exception_def by (rule exception_n_contract [OF assms])
  moreover have "free_guards p < 3" for p
    by (simp add: free_guards_def)
  ultimately show ?thesis by simp
qed

lemma callable_True [simp]: "callable (\<lambda>_. True) p"
  by (simp add: callable_def)

interpretation plain_exc: exc_contract "m68k_exception no_callbacks" no_callbacks True "\<lambda>_. True"
  by (rule m68k_exception_contract [OF host_ok_no_callbacks])

subsection \<open>More nested activations change nothing\<close>

text \<open>The flat order: an outcome is refined only where it is \<open>Stuck\<close>. An
  activation over a refined routine is refined, so \<open>m68k_exception_n\<close> grows with
  the number of activations, and where it is not \<open>Stuck\<close> it is already final.\<close>

definition less_stuck :: "('s, 'a) outcome \<Rightarrow> ('s, 'a) outcome \<Rightarrow> bool" where
  "less_stuck r r' \<longleftrightarrow> r = Stuck \<or> r = r'"

lemma less_stuck_refl [simp]: "less_stuck r r"
  and less_stuck_Stuck [simp]: "less_stuck Stuck r"
  by (simp_all add: less_stuck_def)

lemma less_stuck_andthen [post_intros]:
  "less_stuck r r' \<Longrightarrow> (\<And>v s. less_stuck (f v s) (f' v s)) \<Longrightarrow>
   less_stuck (andthen r f) (andthen r' f')"
  unfolding less_stuck_def by (cases r) (auto, metis)

lemma less_stuck_if [post_intros]:
  "(b \<Longrightarrow> less_stuck r r') \<Longrightarrow> (\<not> b \<Longrightarrow> less_stuck q q') \<Longrightarrow>
   less_stuck (if b then r else q) (if b then r' else q')"
  by simp

lemma less_stuck_trans: "less_stuck r r' \<Longrightarrow> less_stuck r' r'' \<Longrightarrow> less_stuck r r''"
  by (auto simp: less_stuck_def)

locale exc_refinement =
  fixes exc exc' :: "'h exc_routine" and env :: "'h host_callbacks"
  assumes refined: "less_stuck (exc v s) (exc' v s)"
begin

lemmas refine_intros = less_stuck_andthen less_stuck_if refined less_stuck_refl

lemma take_fault_refined:
  "less_stuck (take_address_fault exc a w b s) (take_address_fault exc' a w b s)"
  "less_stuck (take_bus_fault exc a w b s) (take_bus_fault exc' a w b s)"
  unfolding take_address_fault_def take_bus_fault_def Let_def by (intro refine_intros)+

lemma read_32_refined: "less_stuck (read_32_with exc env a s) (read_32_with exc' env a s)"
  unfolding read_32_with_def Let_def
  by (auto split: option.split prod.split intro!: refine_intros take_fault_refined)

lemma write_refined:
  "less_stuck (write_32_with exc env a v s) (write_32_with exc' env a v s)"
  "less_stuck (write_16_with exc env a v' s) (write_16_with exc' env a v' s)"
  unfolding write_32_with_def write_16_with_def Let_def
  by (auto split: option.split intro!: refine_intros take_fault_refined)

lemma push_refined:
  "less_stuck (push_32_with exc env v s) (push_32_with exc' env v s)"
  "less_stuck (push_16_with exc env v' s) (push_16_with exc' env v' s)"
  by (simp_all add: push_32_with_def push_16_with_def Let_def write_refined)

lemma process_exception_refined:
  "less_stuck (process_exception exc env v s) (process_exception exc' env v s)"
  unfolding process_exception_def push_exception_frame_def Let_def
  by (intro less_stuck_andthen less_stuck_if push_refined read_32_refined less_stuck_refl)

lemma exception_body_refined:
  "less_stuck (m68k_exception_body exc env v s) (m68k_exception_body exc' env v s)"
  by (simp add: m68k_exception_body_def process_exception_refined split: option.split prod.split)

end

lemma exception_n_Suc_refined:
  "less_stuck (m68k_exception_n n env v s) (m68k_exception_n (Suc n) env v s)"
proof (induction n arbitrary: v s)
  case (Suc n)
  then have "exc_refinement (m68k_exception_n n env) (m68k_exception_n (Suc n) env)"
    by unfold_locales
  from exc_refinement.exception_body_refined [OF this] show ?case by simp
qed simp

interpretation deeper: exc_refinement "m68k_exception_n n env" "m68k_exception_n (Suc n) env" env
  for n env
  by unfold_locales (rule exception_n_Suc_refined)

lemma exception_n_refined:
  "less_stuck (m68k_exception_n n env v s) (m68k_exception_n (n + k) env v s)"
proof (induction k)
  case (Suc k)
  then show ?case
    using less_stuck_trans [OF Suc deeper.refined [of "n + k" env v s]] by simp
qed simp

subsection \<open>A CPU with well-behaved callbacks\<close>

text \<open>The public accesses and the exception routine as the instruction handlers call
  them: every handler lemma below is proved in this locale.\<close>

locale machine =
  fixes env :: "'h host_callbacks" and t :: bool
  assumes callbacks_ok: "host_ok t env"
begin

sublocale exc_contract "m68k_exception env" env t "\<lambda>_. True"
  by (rule m68k_exception_contract [OF callbacks_ok])

lemma exception_returns:
  "cpu_inv p w c s \<Longrightarrow> bound_ok t c \<Longrightarrow> (v = 0 \<Longrightarrow> thrown w = UNIV) \<Longrightarrow>
   post (\<lambda>_. cpu_inv p (after env v w) c) (\<lambda>_. False) (m68k_exception env v s)"
  by (rule exc_post) simp_all

lemma exception_keeps:
  assumes "cpu_inv p w c s" and "bound_ok t c" and "v = 0 \<Longrightarrow> thrown w = UNIV"
    and "perm_le (after env v w) w'"
  shows "keeps (cpu_inv p w' c) E (m68k_exception env v s)"
  unfolding keeps_def
  by (rule post_mono [OF exception_returns [OF assms(1,2,3)]])
     (auto elim: inv_weaken [OF _ assms(4)])

lemma read_keeps:
  assumes "cpu_inv p w c s" and "bound_ok t c" and "steady p w"
  shows "keeps (cpu_inv p w c) (jump_inv p c) (m68k_read_8 env a s)"
    and "keeps (cpu_inv p w c) (jump_inv p c) (m68k_read_16 env a s)"
    and "keeps (cpu_inv p w c) (jump_inv p c) (m68k_read_32 env a s)"
    and "keeps (cpu_inv p w c) (jump_inv p c) (m68k_read_size env a sz s)"
  using assms
  by (auto simp: m68k_read_size_def m68k_read_8_def m68k_read_16_def m68k_read_32_def
      intro!: keeps_andthen read_8_with_keeps read_16_with_keeps read_32_with_keeps
      split: M68kSize.split)

lemma write_keeps:
  assumes "cpu_inv p w c s" and "bound_ok t c" and "steady p w"
  shows "keeps (cpu_inv p w c) (jump_inv p c) (m68k_write_8 env a v8 s)"
    and "keeps (cpu_inv p w c) (jump_inv p c) (m68k_write_16 env a v16 s)"
    and "keeps (cpu_inv p w c) (jump_inv p c) (m68k_write_32 env a v32 s)"
    and "keeps (cpu_inv p w c) (jump_inv p c) (m68k_write_size env a v32 sz s)"
  using assms
  by (auto simp: m68k_write_size_def m68k_write_8_def m68k_write_16_def m68k_write_32_def
      intro!: write_8_with_keeps write_16_with_keeps write_32_with_keeps split: M68kSize.split)

lemma stack_keeps:
  assumes "cpu_inv p w c s" and "bound_ok t c" and "steady p w"
  shows "keeps (cpu_inv p w c) (jump_inv p c) (m68k_push_32 env v32 s)"
    and "keeps (cpu_inv p w c) (jump_inv p c) (m68k_push_16 env v16 s)"
    and "keeps (cpu_inv p w c) (jump_inv p c) (m68k_pop_32 env s)"
    and "keeps (cpu_inv p w c) (jump_inv p c) (m68k_pop_16 env s)"
  using assms
  by (auto simp: m68k_push_32_def m68k_push_16_def m68k_pop_32_def m68k_pop_16_def
      intro!: keeps_andthen push_32_with_keeps push_16_with_keeps read_keeps)

lemma fetch_keeps:
  assumes "cpu_inv p w c s" and "bound_ok t c" and "steady p w"
  shows "keeps (cpu_inv p w c) (jump_inv p c) (m68k_fetch env s)"
proof -
  have i: "cpu_inv p w c (apply_wait_bus env (mask_address_24 (pc (set_fc env True s)))
      SIZE_WORD False (set_fc env True s))"
    using assms by (simp add: bus_start)
  show ?thesis
    unfolding m68k_fetch_def Let_def
    using i assms(2,3) callback_inv [OF i assms(2)]
    by (auto simp: inv_fields split: option.split prod.split dest: valid_nonzero
        intro!: access_intros)
qed

lemma fetch_extension_keeps:
  assumes "cpu_inv p w c s" and "bound_ok t c" and "steady p w"
  shows "keeps (cpu_inv p w c) (jump_inv p c) (fetch_extension env s)"
    and "keeps (cpu_inv p w c) (jump_inv p c) (fetch_long env s)"
  using assms by (auto simp: fetch_long_def fetch_extension_def intro!: keeps_andthen fetch_keeps)

lemma peek_word_inv:
  assumes "cpu_inv p w c s" and "bound_ok t c"
  shows "cpu_inv p w c (snd (m68k_peek_word env a s))"
  using assms(1) host_inv(10) [OF callbacks_ok assms]
  by (auto simp: m68k_peek_word_def Let_def split: option.split)

text \<open>During an instruction an invalid effective address never returns.\<close>

lemma raise_illegal_ea_jumps:
  assumes i: "cpu_inv p w c s" and "bound_ok t c" and "latches w = {}"
    and "c_trap p" and "c_depth p = 0"
  shows "post (\<lambda>_ _. False) (jump_inv p c) (m68k_raise_illegal_ea env s)"
proof -
  have k: "post (\<lambda>_ _. False) (jump_inv p c)
      (if fault_trap_active s' \<and> exception_depth s' = 0 then Longjmp s' else Ret () s')"
    if "cpu_inv p (after env 4 w) c s'" for s'
    using inv_fields [OF that] inv_calm [OF that] assms(3,4,5)
    by (simp add: jump_inv_def after_def)
  have r: "post (\<lambda>_. cpu_inv p (after env 4 w) c) (\<lambda>_. False) (m68k_exception env 4 s)"
    using assms(1,2) by (intro exception_returns) simp_all
  show ?thesis
    unfolding m68k_raise_illegal_ea_def post_andthen_iff
    by (rule post_mono [OF r k]) simp_all
qed

lemma raise_target_fault_keeps:
  assumes i: "cpu_inv p w (lower 50 c) (spend 50 s)" and "\<not> c_ae p" and "\<not> c_be p"
    and "bound_ok t c"
  shows "keeps (cpu_inv p (after env 3 (w\<lparr>group0_set := True\<rparr>)) (lower 50 c)) E
      (m68k_raise_odd_target_fault env a f s)"
    and "keeps (cpu_inv p (after env 2 (w\<lparr>group0_set := True\<rparr>)) (lower 50 c)) E
      (m68k_raise_bus_target_fault env a f s)"
proof -
  let ?w = "w\<lparr>group0_set := True\<rparr>"
  let ?s = "(capture_access_fault a False True (spend 50 s))\<lparr>fault_pc := f\<rparr>\<lparr>fault_pc_valid := True\<rparr>"
  have i: "cpu_inv p ?w (lower 50 c) ?s" and b: "bound_ok t (lower 50 c)"
    using inv_capture [OF i] assms(4) by simp_all
  show "keeps (cpu_inv p (after env 3 ?w) (lower 50 c)) E (m68k_raise_odd_target_fault env a f s)"
    unfolding m68k_raise_odd_target_fault_def Let_def keeps_def post_andthen_iff
    by (rule post_mono [OF exception_returns [OF inv_set_ae [OF i, of True] b, of 3]])
       (use assms(2) inv_set_ae [where b=False] in \<open>fastforce simp: ctl_restore\<close>)+
  show "keeps (cpu_inv p (after env 2 ?w) (lower 50 c)) E (m68k_raise_bus_target_fault env a f s)"
    unfolding m68k_raise_bus_target_fault_def Let_def keeps_def post_andthen_iff
    by (rule post_mono [OF exception_returns [OF inv_set_be [OF i, of True] b, of 2]])
       (use assms(3) inv_set_be [where b=False] in \<open>fastforce simp: ctl_restore\<close>)+
qed

end

interpretation bare: machine no_callbacks t for t
  by unfold_locales (rule host_ok_no_callbacks)

subsection \<open>How handlers move the invariant\<close>

declare inv_spend [simp del]

lemma inv_spend_ge: "cpu_inv p w c s \<Longrightarrow> k \<le> n \<Longrightarrow> cpu_inv p w (lower k c) (spend n s)"
  by (cases c) (auto simp: cpu_inv_def ctl_of_def within_def lower_def)

lemma inv_cycles:
  "cpu_inv p w c s \<Longrightarrow> n \<le> cycles_remaining s \<Longrightarrow> cpu_inv p w c (s\<lparr>cycles_remaining := n\<rparr>)"
  by (cases c) (auto simp: cpu_inv_def ctl_of_def within_def)

lemma inv_refund:
  "cpu_inv p w c s \<Longrightarrow> cpu_inv p w (lower (- n) c) (s\<lparr>cycles_remaining := cycles_remaining s + n\<rparr>)"
  by (cases c) (auto simp: cpu_inv_def ctl_of_def within_def lower_def)

lemma within_raise: "within (lower n c) m \<Longrightarrow> 0 \<le> n \<Longrightarrow> within c m"
  by (cases c) (simp_all add: within_def lower_def)

lemma inv_raise: "cpu_inv p w (lower n c) s \<Longrightarrow> 0 \<le> n \<Longrightarrow> cpu_inv p w c s"
  by (auto simp: cpu_inv_def intro: within_raise)

lemma jump_inv_raise: "jump_inv p (lower n c) s \<Longrightarrow> 0 \<le> n \<Longrightarrow> jump_inv p c s"
  by (auto simp: jump_inv_def intro: inv_raise)

lemma inv_program_space:
  "cpu_inv p w c s \<Longrightarrow>
   cpu_inv p (w\<lparr>latches := insert Program_space (latches w)\<rparr>) c (s\<lparr>operand_program_space := b\<rparr>)"
  "cpu_inv p (w\<lparr>latches := insert Program_space L\<rparr>) c s \<Longrightarrow>
   cpu_inv p (w\<lparr>latches := L\<rparr>) c (s\<lparr>operand_program_space := False\<rparr>)"
  by (auto simp: cpu_inv_def ctl_of_def)

lemma inv_bus_word:
  "cpu_inv p w c s \<Longrightarrow>
   cpu_inv p (w\<lparr>latches := insert Bus_word (latches w)\<rparr>) c (s\<lparr>fault_bus_word_valid := b\<rparr>)"
  "cpu_inv p (w\<lparr>latches := insert Bus_word L\<rparr>) c s \<Longrightarrow>
   cpu_inv p (w\<lparr>latches := L\<rparr>) c (s\<lparr>fault_bus_word_valid := False\<rparr>)"
  by (auto simp: cpu_inv_def ctl_of_def)

lemma sr_ok_or [simp]: "sr_ok (a OR b) = (sr_ok a \<and> sr_ok b)"
  by (simp only: sr_ok_def bit.conj_disj_distrib2 or_eq_0_iff)

lemma sr_ok_and [simp]: "sr_ok a \<Longrightarrow> sr_ok (a AND b)" "sr_ok b \<Longrightarrow> sr_ok (a AND b)"
proof -
  have "(a AND b) AND NOT 0xA71F = (a AND NOT 0xA71F) AND b"
    and "(a AND b) AND NOT 0xA71F = a AND (b AND NOT 0xA71F)"
    by (simp_all only: ac_simps)
  then show "sr_ok a \<Longrightarrow> sr_ok (a AND b)" "sr_ok b \<Longrightarrow> sr_ok (a AND b)"
    unfolding sr_ok_def by simp_all
qed

lemma sr_ok_xor [simp]: "sr_ok a \<Longrightarrow> sr_ok b \<Longrightarrow> sr_ok (a XOR b)"
  by (simp add: sr_ok_def bit.conj_xor_distrib2)

lemma sr_ok_bits [simp]:
  "sr_ok 0" "sr_ok 0x1F" "sr_ok M68K_SR_C" "sr_ok M68K_SR_V" "sr_ok M68K_SR_Z" "sr_ok M68K_SR_N"
  "sr_ok M68K_SR_X" "sr_ok M68K_SR_S"
  by (simp_all add: sr_ok_def sr_bit_defs)

lemma sr_ok_ccr [simp]: "sr_ok (ucast ((x::u32) AND 31))"
  by (simp add: unsigned_and_eq)

lemma inv_sr_upd: "cpu_inv p w c s \<Longrightarrow> (sr_ok (sr s) \<Longrightarrow> sr_ok x) \<Longrightarrow> cpu_inv p w c (s\<lparr>sr := x\<rparr>)"
  by (rule inv_sr) (auto simp: cpu_inv_def)

lemma inv_sr_clear: "cpu_inv p w c s \<Longrightarrow> cpu_inv p w c (sr_clear m s)"
  by (simp add: sr_clear_def inv_sr_upd)

lemma inv_sr_set_if: "cpu_inv p w c s \<Longrightarrow> sr_ok m \<Longrightarrow> cpu_inv p w c (sr_set_if b m s)"
  by (simp add: sr_set_if_def inv_sr_upd)

definition running :: "ctl \<Rightarrow> bool" where
  "running p \<longleftrightarrow> c_trap p \<and> c_depth p = 0 \<and> \<not> c_ae p \<and> \<not> c_be p"

definition quiet :: perm where
  "quiet = \<lparr>latches = {}, thrown = UNIV - {6}, group0_set = False\<rparr>"

lemma running_steady [simp]: "running p \<Longrightarrow> steady p w"
  by (simp add: running_def steady_def)

lemma zero_not_UNIV [simp]: "{0::int} \<noteq> UNIV"
  by (metis UNIV_I singletonD zero_neq_one)

lemma latches_fresh [simp]: "latches fresh = {}"
  by (simp add: fresh_def)

lemma fresh_latches [simp]: "fresh\<lparr>latches := {}\<rparr> = fresh"
  by (simp add: fresh_def)

lemma inv_refunded:
  "cpu_inv p w c s \<Longrightarrow> n \<le> cycles_remaining s + r \<Longrightarrow>
   cpu_inv p w (lower (- r) c) (s\<lparr>cycles_remaining := n\<rparr>)"
  "cpu_inv p w (lower (- r) c) s \<Longrightarrow> n \<le> cycles_remaining s - r \<Longrightarrow>
   cpu_inv p w c (s\<lparr>cycles_remaining := n\<rparr>)"
  by (cases c; auto simp: cpu_inv_def ctl_of_def within_def lower_def)+

lemma inv_bound: "cpu_inv p w (lower n c) s \<Longrightarrow> m \<le> n \<Longrightarrow> cpu_inv p w (lower m c) s"
  using inv_raise [of p w "n - m" "lower m c" s] by simp

lemma inv_set_trap:
  "cpu_inv p w c s \<Longrightarrow> cpu_inv (p\<lparr>c_trap := b\<rparr>) w c (s\<lparr>fault_trap_active := b\<rparr>)"
  by (auto simp: cpu_inv_def ctl_of_def)

lemma after_calm: "perm_le (after env v (calm\<lparr>group0_set := b\<rparr>)) calm" "perm_le (after env v calm) calm"
  by (auto simp: perm_le_def after_def calm_def)

lemma sr_ok_level:
  assumes "0 \<le> l" and "l \<le> 7"
  shows "sr_ok (push_bit 8 (word_of_int l))"
proof -
  have "l \<in> {0, 1, 2, 3, 4, 5, 6, 7}" using assms by auto
  then show ?thesis by (auto simp: sr_ok_def)
qed

subsection \<open>Exception processing is total\<close>

text \<open>C3: \<open>m68k_exception\<close> always returns: it never leaves by \<open>longjmp\<close> and never
  nests without bound. It restores the two re-entry guards, the exception depth and the
  trap, keeps the status register valid, and three nested activations are enough: allowing
  more changes nothing. This holds in every state between memory accesses of an instruction: a
  status register without unimplemented bits, an interrupt level from 0 to 7, the operand
  latches of a bus fault clear, a size of 0 when no memory is bound and a depth that is not
  negative; the guards and the depth may be as they are. It holds for every host whose callbacks
  leave the control fields alone.\<close>

theorem m68k_exception_total:
  assumes "host_ok t env" and "cpu_inv (ctl_of s) calm None s"
  shows "\<exists>s'. m68k_exception env v s = Ret () s' \<and> ctl_of s' = ctl_of s \<and> sr_ok (sr s') \<and>
    (\<forall>k. m68k_exception_n (3 + k) env v s = m68k_exception env v s)"
proof -
  have "post (\<lambda>_. cpu_inv (ctl_of s) (after env v calm) None) (\<lambda>_. False) (m68k_exception env v s)"
    using assms by (intro machine.exception_returns machine.intro) (simp_all add: calm_def)
  then obtain s' where r: "m68k_exception env v s = Ret () s'"
    and i: "cpu_inv (ctl_of s) (after env v calm) None s'"
    by (cases "m68k_exception env v s") auto
  have "m68k_exception_n (3 + k) env v s = m68k_exception env v s" for k
    using exception_n_refined [of 3 env v s k] r by (simp add: less_stuck_def m68k_exception_def)
  then show ?thesis using r i by (auto simp: cpu_inv_def)
qed

lemma m68k_init_inv: "cpu_inv (ctl_of (m68k_init (Some m) n h)) calm None (m68k_init (Some m) n h)"
  by (simp add: cpu_inv_def m68k_init_def calm_def sr_ok_def)

lemma m68k_exception_total_witness:
  "\<exists>s'. m68k_exception no_callbacks 4 (m68k_init (Some (\<lambda>_. 0)) 0x1000 ()) = Ret () s' \<and>
     ctl_of s' = ctl_of (m68k_init (Some (\<lambda>_. 0)) 0x1000 ()) \<and> sr_ok (sr s') \<and>
     (\<forall>k. m68k_exception_n (3 + k) no_callbacks 4 (m68k_init (Some (\<lambda>_. 0)) 0x1000 ()) =
          m68k_exception no_callbacks 4 (m68k_init (Some (\<lambda>_. 0)) 0x1000 ()))"
  by (rule m68k_exception_total [OF host_ok_no_callbacks [of True] m68k_init_inv])

end
