(* ===== verification/M68k_Memory.thy ===== *)
theory M68k_Memory
  imports M68k_Bus
begin

section \<open>Accesses to bound memory\<close>

text \<open>
  What the accesses of \<open>src/m68k/m68k.c\<close> do when no host callback takes part
  (\<open>plain_bus\<close>) and the operand is even and inside the bound memory
  (\<open>in_ram\<close>): big-endian reads and writes of the buffer. A field of a given width
  in memory is the locale \<open>store_field\<close>, two fields that do not overlap are
  \<open>two_fields\<close>; the word and long accesses of the code are instances, and the
  round trips of the stack instructions and of exception processing rest on their laws.
\<close>

subsection \<open>Fields of a memory image\<close>

definition span :: "u32 \<Rightarrow> nat \<Rightarrow> u32 set" where
  "span a n = (\<lambda>i. a + of_nat i) ` {..<n}"

lemma in_span:
  assumes "n \<le> 2 ^ 32"
  shows "x \<in> span a n \<longleftrightarrow> unat (x - a) < n"
proof
  assume "x \<in> span a n"
  then obtain i where "x = a + of_nat i" "i < n" by (auto simp: span_def)
  then show "unat (x - a) < n"
    using assms by (simp add: unat_of_nat take_bit_nat_eq_self)
next
  assume "unat (x - a) < n"
  then show "x \<in> span a n"
    unfolding span_def by (intro image_eqI [of _ _ "unat (x - a)"]) simp_all
qed

lemma span_within: "d + n \<le> k \<Longrightarrow> span (a + of_nat d) n \<subseteq> span a k"
proof
  fix x assume "d + n \<le> k" "x \<in> span (a + of_nat d) n"
  then obtain i where "x = a + of_nat (d + i)" "d + i < k" by (auto simp: span_def)
  then show "x \<in> span a k" unfolding span_def by blast
qed

lemma below_span: "x < a \<Longrightarrow> unat a + n \<le> 2 ^ 32 \<Longrightarrow> x \<notin> span a n"
proof
  assume "x < a" "unat a + n \<le> 2 ^ 32" "x \<in> span a n"
  then obtain i where i: "x = a + of_nat i" "i < n" by (auto simp: span_def)
  then have "unat x = unat a + i"
    using \<open>unat a + n \<le> 2 ^ 32\<close> by (simp add: unat_word_ariths unat_of_nat)
  then show False using \<open>x < a\<close> by (simp add: word_less_nat_alt)
qed

locale store_field =
  fixes get :: "(u32 \<Rightarrow> u8) \<Rightarrow> u32 \<Rightarrow> 'v"
    and put :: "(u32 \<Rightarrow> u8) \<Rightarrow> u32 \<Rightarrow> 'v \<Rightarrow> u32 \<Rightarrow> u8"
    and width :: nat
  assumes get_put [simp]: "get (put m a v) a = v"
    and put_outside: "x \<notin> span a width \<Longrightarrow> put m a v x = m x"
    and get_local: "(\<And>x. x \<in> span a width \<Longrightarrow> m x = m' x) \<Longrightarrow> get m a = get m' a"
    and put_get: "put m a (get m a) = m"
    and put_put: "put (put m a v) a w = put m a w"
begin

lemma put_same: "get m a = v \<Longrightarrow> put m a v = m"
  using put_get by blast

lemma put_inject: "(put m a v = put m a w) = (v = w)"
  by (metis get_put)

end

locale two_fields = f: store_field get put n + g: store_field get' put' k
  for get :: "(u32 \<Rightarrow> u8) \<Rightarrow> u32 \<Rightarrow> 'v" and put n
    and get' :: "(u32 \<Rightarrow> u8) \<Rightarrow> u32 \<Rightarrow> 'w" and put' k
begin

lemma independent: "span a n \<inter> span b k = {} \<Longrightarrow> get (put' m b w) a = get m a"
  by (rule f.get_local) (auto intro: g.put_outside)

lemma both: "span a n \<inter> span b k = {} \<Longrightarrow> get (put' (put m a v) b w) a = v"
  by (simp add: independent)

end

definition get16 :: "(u32 \<Rightarrow> u8) \<Rightarrow> u32 \<Rightarrow> u16" where
  "get16 m a = push_bit 8 (ucast (m a)) OR ucast (m (a + 1))"

definition put16 :: "(u32 \<Rightarrow> u8) \<Rightarrow> u32 \<Rightarrow> u16 \<Rightarrow> u32 \<Rightarrow> u8" where
  "put16 m a v = m(a := ucast (drop_bit 8 v), a + 1 := ucast v)"

definition get32 :: "(u32 \<Rightarrow> u8) \<Rightarrow> u32 \<Rightarrow> u32" where
  "get32 m a = push_bit 24 (ucast (m a)) OR push_bit 16 (ucast (m (a + 1))) OR
     push_bit 8 (ucast (m (a + 2))) OR ucast (m (a + 3))"

definition put32 :: "(u32 \<Rightarrow> u8) \<Rightarrow> u32 \<Rightarrow> u32 \<Rightarrow> u32 \<Rightarrow> u8" where
  "put32 m a v = m(a := ucast (drop_bit 24 v), a + 1 := ucast (drop_bit 16 v),
     a + 2 := ucast (drop_bit 8 v), a + 3 := ucast v)"

lemma span_2: "span a 2 = {a, a + 1}"
  by (auto simp: span_def lessThan_Suc numeral_2_eq_2)

lemma span_4: "span a 4 = {a, a + 1, a + 2, a + 3}"
  by (auto simp: span_def lessThan_Suc numeral_eq_Suc)

lemma byte_eqI: "(\<And>i. i < 8 \<Longrightarrow> bit v i = bit w i) \<Longrightarrow> v = (w :: u8)"
  by (rule bit_word_eqI) simp

lemma byte_and: "ucast ((w :: 'a::len word) AND 0xFF) = (ucast w :: u8)"
proof -
  have "(0xFF :: 'a word) = mask 8" by (simp add: mask_eq_exp_minus_1)
  then have "w AND 0xFF = w AND mask 8" by simp
  then show ?thesis
    by (simp only:) (rule byte_eqI, auto simp: bit_simps dest: bit_imp_le_length)
qed

lemma no_high_bit [simp]: "8 \<le> n \<Longrightarrow> \<not> bit (x :: u8) n"
  by (auto dest: bit_imp_le_length)

lemma join_16: "push_bit 8 (ucast (ucast (drop_bit 8 v) :: u8)) OR ucast (ucast v :: u8) = (v :: u16)"
proof (rule bit_word_eqI, goal_cases)
  case (1 n)
  then show ?case
    by (cases "n < 8") (auto simp: bit_simps)
qed

lemma join_32:
  "push_bit 24 (ucast (ucast (drop_bit 24 v) :: u8)) OR
   push_bit 16 (ucast (ucast (drop_bit 16 v) :: u8)) OR
   push_bit 8 (ucast (ucast (drop_bit 8 v) :: u8)) OR ucast (ucast v :: u8) = (v :: u32)"
proof (rule bit_word_eqI, goal_cases)
  case (1 n)
  then show ?case
    by (cases "n < 8"; cases "n < 16"; cases "n < 24") (auto simp: bit_simps)
qed

lemma split_16:
  "ucast (drop_bit 8 (push_bit 8 (ucast (x :: u8)) OR ucast y :: u16)) = x"
  "ucast (push_bit 8 (ucast (x :: u8)) OR ucast y :: u16) = (y :: u8)"
  by (rule byte_eqI; simp add: bit_simps)+

lemma split_32:
  "ucast (drop_bit 24 (push_bit 24 (ucast (x :: u8)) OR push_bit 16 (ucast (y :: u8)) OR
     push_bit 8 (ucast (z :: u8)) OR ucast (w :: u8) :: u32)) = x"
  "ucast (drop_bit 16 (push_bit 24 (ucast (x :: u8)) OR push_bit 16 (ucast (y :: u8)) OR
     push_bit 8 (ucast (z :: u8)) OR ucast (w :: u8) :: u32)) = y"
  "ucast (drop_bit 8 (push_bit 24 (ucast (x :: u8)) OR push_bit 16 (ucast (y :: u8)) OR
     push_bit 8 (ucast (z :: u8)) OR ucast (w :: u8) :: u32)) = z"
  "ucast (push_bit 24 (ucast (x :: u8)) OR push_bit 16 (ucast (y :: u8)) OR
     push_bit 8 (ucast (z :: u8)) OR ucast (w :: u8) :: u32) = w"
  by (rule byte_eqI; simp add: bit_simps)+

interpretation be16: store_field get16 put16 2
proof
  fix m m' :: "u32 \<Rightarrow> u8" and a x :: u32 and v w :: u16
  show "get16 (put16 m a v) a = v"
    by (simp add: get16_def put16_def join_16)
  show "x \<notin> span a 2 \<Longrightarrow> put16 m a v x = m x"
    by (simp add: span_2 put16_def)
  show "(\<And>x. x \<in> span a 2 \<Longrightarrow> m x = m' x) \<Longrightarrow> get16 m a = get16 m' a"
    by (simp add: span_2 get16_def)
  show "put16 m a (get16 m a) = m"
    unfolding get16_def put16_def split_16 by simp
  show "put16 (put16 m a v) a w = put16 m a w"
    by (auto simp: put16_def fun_eq_iff)
qed

interpretation be32: store_field get32 put32 4
proof
  fix m m' :: "u32 \<Rightarrow> u8" and a x :: u32 and v w :: u32
  show "get32 (put32 m a v) a = v"
    by (simp add: get32_def put32_def join_32)
  show "x \<notin> span a 4 \<Longrightarrow> put32 m a v x = m x"
    by (simp add: span_4 put32_def)
  show "(\<And>x. x \<in> span a 4 \<Longrightarrow> m x = m' x) \<Longrightarrow> get32 m a = get32 m' a"
    by (simp add: span_4 get32_def)
  show "put32 m a (get32 m a) = m"
    unfolding get32_def put32_def split_32 by simp
  show "put32 (put32 m a v) a w = put32 m a w"
    by (auto simp: put32_def fun_eq_iff)
qed

interpretation be16_16: two_fields get16 put16 2 get16 put16 2 by unfold_locales

interpretation be16_32: two_fields get16 put16 2 get32 put32 4 by unfold_locales

interpretation be32_16: two_fields get32 put32 4 get16 put16 2 by unfold_locales

interpretation be32_32: two_fields get32 put32 4 get32 put32 4 by unfold_locales

lemma span_disjoint:
  assumes "n \<le> d" and "d + k \<le> 2 ^ 32"
  shows "span a n \<inter> span (a + of_nat d) k = {}" and "span (a + of_nat d) k \<inter> span a n = {}"
proof -
  have "of_nat i \<noteq> (of_nat (d + j) :: u32)" if "i < n" "j < k" for i j
  proof
    assume e: "of_nat i = (of_nat (d + j) :: u32)"
    have "unat (of_nat i :: u32) = i" "unat (of_nat (d + j) :: u32) = d + j"
      using that assms by (simp_all add: unat_of_nat take_bit_nat_eq_self del: of_nat_add)
    then show False using e that assms by simp
  qed
  then show "span a n \<inter> span (a + of_nat d) k = {}"
    by (auto simp: span_def add.assoc)
  then show "span (a + of_nat d) k \<inter> span a n = {}" by blast
qed

subsection \<open>Accesses without a host\<close>

definition plain_bus :: "'h host_callbacks \<Rightarrow> bool" where
  "plain_bus env \<longleftrightarrow> wait_bus env = None \<and> fc_cb env = None \<and> read8_cb env = None \<and>
     read16_cb env = None \<and> read32_cb env = None \<and> write8_cb env = None \<and>
     write16_cb env = None \<and> write32_cb env = None"

text \<open>The \<open>n\<close> bytes from \<open>a\<close> lie in the bound memory and do not cross the end of the
  24-bit address space.\<close>

definition in_ram :: "'h cpu \<Rightarrow> u32 \<Rightarrow> nat \<Rightarrow> bool" where
  "in_ram s a n \<longleftrightarrow> memory s \<noteq> None \<and> unat (mask_address_24 a) + n \<le> unat (memory_size s) \<and>
     unat (mask_address_24 a) + n \<le> 2 ^ 24"

definition ram :: "'h cpu \<Rightarrow> u32 \<Rightarrow> u8" where
  "ram s = the (memory s)"

lemma plain_bus_no_callbacks [simp]: "plain_bus no_callbacks"
  by (simp add: plain_bus_def no_callbacks_def)

lemma mask_24: "mask_address_24 a = take_bit 24 a"
  by (simp add: mask_address_24_def take_bit_eq_mask mask_eq_exp_minus_1)

lemma mask_24_unat: "unat (mask_address_24 a) = unat a mod 2 ^ 24"
  unfolding mask_24 unsigned_take_bit_eq by (simp add: take_bit_eq_mod)

lemma mask_24_odd [simp]: "mask_address_24 a AND 1 = a AND 1"
  by (simp add: mask_address_24_def and.assoc)

lemma mask_24_idem [simp]: "mask_address_24 (mask_address_24 a) = mask_address_24 a"
  by (simp add: mask_24)

lemma mask_24_add:
  assumes "unat (mask_address_24 a) + i < 2 ^ 24"
  shows "mask_address_24 (a + of_nat i) = mask_address_24 a + of_nat i"
proof -
  have "unat (mask_address_24 (a + of_nat i)) = (unat a mod 2 ^ 24 + i) mod 2 ^ 24"
    by (simp add: mask_24_unat unat_word_ariths unat_of_nat mod_simps mod_mod_cancel)
  also have "\<dots> = unat (mask_address_24 a) + i"
    using assms by (simp add: mask_24_unat)
  also have "\<dots> = unat (mask_address_24 a + of_nat i)"
    using assms by (simp add: unat_word_ariths unat_of_nat)
  finally show ?thesis by (simp add: word_unat_eq_iff)
qed

lemma in_ram_valid:
  assumes "in_ram s a n" and "i < n"
  shows "is_valid_address s (mask_address_24 a + of_nat i)"
proof -
  have b: "unat (mask_address_24 a) + i < 2 ^ 24" and c: "unat (mask_address_24 a) + i < unat (memory_size s)"
    using assms by (simp_all add: in_ram_def)
  have "unat (mask_address_24 a + of_nat i) = unat (mask_address_24 a) + i"
    using b by (simp add: unat_word_ariths unat_of_nat)
  then show ?thesis using c by (simp add: is_valid_address_def word_less_nat_alt)
qed

lemma plain_start [simp]:
  "plain_bus env \<Longrightarrow> apply_wait_bus env a sz w s = s" "plain_bus env \<Longrightarrow> set_fc env b s = s"
  by (simp_all add: plain_bus_def apply_wait_bus_def set_fc_def)

lemma in_ram_less: "in_ram s a n \<Longrightarrow> k \<le> n \<Longrightarrow> in_ram s a k"
  by (simp add: in_ram_def)

lemma in_ram_add:
  assumes "in_ram s a n" and "d + k \<le> n" and "0 < k"
  shows "in_ram s (a + of_nat d) k"
proof -
  have "mask_address_24 (a + of_nat d) = mask_address_24 a + of_nat d"
    using assms by (intro mask_24_add) (simp add: in_ram_def)
  moreover have "unat (mask_address_24 a + of_nat d) = unat (mask_address_24 a) + d"
    using assms by (simp add: in_ram_def unat_word_ariths unat_of_nat)
  ultimately show ?thesis using assms by (simp add: in_ram_def)
qed

lemma in_ram_upd [simp]:
  "in_ram (s\<lparr>memory := Some m\<rparr>) a n =
     (unat (mask_address_24 a) + n \<le> unat (memory_size s) \<and> unat (mask_address_24 a) + n \<le> 2 ^ 24)"
  "in_ram (s\<lparr>d_regs := x1\<rparr>) a n = in_ram s a n"
  "in_ram (s\<lparr>a_regs := x1\<rparr>) a n = in_ram s a n"
  "in_ram (s\<lparr>pc := x2\<rparr>) a n = in_ram s a n"
  "in_ram (s\<lparr>sr := x3\<rparr>) a n = in_ram s a n"
  "in_ram (s\<lparr>usp := x2\<rparr>) a n = in_ram s a n"
  "in_ram (s\<lparr>ssp := x2\<rparr>) a n = in_ram s a n"
  "in_ram (s\<lparr>cycles_remaining := x5\<rparr>) a n = in_ram s a n"
  "in_ram (s\<lparr>exception_thrown := x5\<rparr>) a n = in_ram s a n"
  "in_ram (s\<lparr>exception_depth := x5\<rparr>) a n = in_ram s a n"
  "in_ram (s\<lparr>fault_program_access := x6\<rparr>) a n = in_ram s a n"
  "in_ram (s\<lparr>fault_valid := x6\<rparr>) a n = in_ram s a n"
  "in_ram (s\<lparr>fault_pc_valid := x6\<rparr>) a n = in_ram s a n"
  "in_ram (s\<lparr>fault_bus_word_valid := x6\<rparr>) a n = in_ram s a n"
  "in_ram (s\<lparr>operand_program_space := x6\<rparr>) a n = in_ram s a n"
  "in_ram (s\<lparr>fault_pc := x2\<rparr>) a n = in_ram s a n"
  by (simp_all add: in_ram_def)

lemma ram_upd [simp]:
  "ram (s\<lparr>memory := Some m\<rparr>) = m"
  "ram (s\<lparr>d_regs := x1\<rparr>) = ram s" "ram (s\<lparr>a_regs := x1\<rparr>) = ram s"
  "ram (s\<lparr>pc := x2\<rparr>) = ram s" "ram (s\<lparr>sr := x3\<rparr>) = ram s"
  "ram (s\<lparr>usp := x2\<rparr>) = ram s" "ram (s\<lparr>ssp := x2\<rparr>) = ram s"
  "ram (s\<lparr>cycles_remaining := x5\<rparr>) = ram s"
  "ram (s\<lparr>exception_thrown := x5\<rparr>) = ram s" "ram (s\<lparr>exception_depth := x5\<rparr>) = ram s"
  "ram (s\<lparr>fault_program_access := x6\<rparr>) = ram s"
  "ram (s\<lparr>fault_valid := x6\<rparr>) = ram s"
  "ram (s\<lparr>fault_pc_valid := x6\<rparr>) = ram s"
  "ram (s\<lparr>fault_bus_word_valid := x6\<rparr>) = ram s"
  "ram (s\<lparr>operand_program_space := x6\<rparr>) = ram s"
  "ram (s\<lparr>fault_pc := x2\<rparr>) = ram s"
  by (simp_all add: ram_def)

abbreviation poke16 :: "u32 \<Rightarrow> u16 \<Rightarrow> 'h cpu \<Rightarrow> 'h cpu" where
  "poke16 a v s \<equiv> s\<lparr>memory := Some (put16 (ram s) (mask_address_24 a) v)\<rparr>"

abbreviation poke32 :: "u32 \<Rightarrow> u32 \<Rightarrow> 'h cpu \<Rightarrow> 'h cpu" where
  "poke32 a v s \<equiv> s\<lparr>memory := Some (put32 (ram s) (mask_address_24 a) v)\<rparr>"

lemma access_8_plain:
  assumes "plain_bus env" and "in_ram s a 1"
  shows "read_8_with exc env a s = Ret (ram s (mask_address_24 a)) s"
    and "write_8_with exc env a v s = Ret () (s\<lparr>memory := Some ((ram s)(mask_address_24 a := v))\<rparr>)"
  using in_ram_valid [OF assms(2), of 0] assms
  by (auto simp: read_8_with_def write_8_with_def Let_def plain_bus_def mem_load_def mem_store_def
      ram_def in_ram_def is_valid_address_def)

lemma access_16_plain:
  assumes "plain_bus env" and "in_ram s a 2" and "a AND 1 = 0"
  shows "read_16_with exc env a s = Ret (get16 (ram s) (mask_address_24 a)) s"
    and "write_16_with exc env a w s = Ret () (poke16 a w s)"
proof -
  let ?b = "mask_address_24 a"
  note v = in_ram_valid [OF assms(2), of 0] in_ram_valid [OF assms(2), of 1]
  obtain m where m: "memory s = Some m" using assms(2) by (auto simp: in_ram_def)
  have c: "ucast (w AND 0xFF) = (ucast w :: u8)" "ucast (drop_bit 8 w AND 0xFF) = (ucast (drop_bit 8 w) :: u8)"
    by (simp_all add: byte_and)
  show "read_16_with exc env a s = Ret (get16 (ram s) ?b) s"
    "write_16_with exc env a w s = Ret () (poke16 a w s)"
    using v assms m
    by (simp_all add: read_16_with_def write_16_with_def Let_def plain_bus_def mem_load_def
        mem_store_def ram_def get16_def put16_def c)
qed

lemma access_32_plain:
  assumes "plain_bus env" and "in_ram s a 4" and "a AND 1 = 0"
  shows "read_32_with exc env a s = Ret (get32 (ram s) (mask_address_24 a)) s"
    and "write_32_with exc env a l s = Ret () (poke32 a l s)"
proof -
  let ?b = "mask_address_24 a"
  note v = in_ram_valid [OF assms(2), of 0] in_ram_valid [OF assms(2), of 3]
  obtain m where m: "memory s = Some m" using assms(2) by (auto simp: in_ram_def)
  have c: "ucast (l AND 0xFF) = (ucast l :: u8)"
    "ucast (drop_bit 8 l AND 0xFF) = (ucast (drop_bit 8 l) :: u8)"
    "ucast (drop_bit 16 l AND 0xFF) = (ucast (drop_bit 16 l) :: u8)"
    "ucast (drop_bit 24 l AND 0xFF) = (ucast (drop_bit 24 l) :: u8)"
    by (simp_all add: byte_and)
  show "read_32_with exc env a s = Ret (get32 (ram s) ?b) s"
    "write_32_with exc env a l s = Ret () (poke32 a l s)"
    using v assms m
    by (simp_all add: read_32_with_def write_32_with_def Let_def plain_bus_def mem_load_def
        mem_store_def ram_def get32_def put32_def c)
qed

lemmas plain_accesses = access_8_plain access_16_plain access_32_plain

lemma even_word: "((a :: 'a::len word) AND 1 = 0) = even a"
  by (simp add: and_one_eq even_iff_mod_2_eq_zero)

lemma stack_cell:
  assumes "in_ram s (sp - of_nat n) n" and "k \<le> n" and "0 < j" and "j \<le> k"
  shows "in_ram s (sp - of_nat k) j"
  using in_ram_add [OF assms(1), of "n - k" j] assms(2-4) by (simp add: of_nat_diff)

lemma push_plain:
  assumes "plain_bus env" and "even (a_regs s 7)"
  shows "in_ram s (a_regs s 7 - 2) 2 \<Longrightarrow> push_16_with exc env w s =
      Ret () (poke16 (a_regs s 7 - 2) w (set_a 7 (a_regs s 7 - 2) s))"
    and "in_ram s (a_regs s 7 - 4) 4 \<Longrightarrow> push_32_with exc env l s =
      Ret () (poke32 (a_regs s 7 - 4) l (set_a 7 (a_regs s 7 - 4) s))"
  using assms
  by (simp_all add: push_16_with_def push_32_with_def Let_def plain_accesses even_word)

subsection \<open>Exception frames\<close>

text \<open>The stack pointer an exception pushes on, the program counter it pushes, the memory
  with the six-byte frame, and the status register its handler starts with.\<close>

definition entry_sp :: "'h cpu \<Rightarrow> u32" where
  "entry_sp s = (if sr s AND M68K_SR_S \<noteq> 0 then a_regs s 7 else ssp s)"

definition pushed_pc :: "int \<Rightarrow> 'h cpu \<Rightarrow> u32" where
  "pushed_pc v s = (if v = 4 \<or> v = 8 \<or> v = 10 \<or> v = 11 then ppc s else pc s)"

definition frame_ram :: "int \<Rightarrow> 'h cpu \<Rightarrow> u32 \<Rightarrow> u8" where
  "frame_ram v s = put16 (put32 (ram s) (mask_address_24 (entry_sp s - 4)) (pushed_pc v s))
     (mask_address_24 (entry_sp s - 6)) (sr s)"

definition handler_sr :: "u16 \<Rightarrow> u16" where
  "handler_sr w = ((w OR M68K_SR_S) AND NOT 0x8000) AND 0xA71F"

lemma handler_supervisor [simp]: "handler_sr w AND M68K_SR_S = M68K_SR_S" "M68K_SR_S \<noteq> 0"
proof -
  have "NOT 0x8000 AND (0xA71F AND M68K_SR_S) = M68K_SR_S"
    by (simp add: M68K_SR_S_def)
  moreover have "(w OR M68K_SR_S) AND M68K_SR_S = M68K_SR_S"
    by (rule bit_word_eqI) (auto simp: bit_simps)
  ultimately show "handler_sr w AND M68K_SR_S = M68K_SR_S"
    by (simp only: handler_sr_def and.assoc)
qed (simp add: M68K_SR_S_def)

lemma enter_supervisor:
  "m68k_set_sr ((sr s OR M68K_SR_S) AND NOT 0x8000) s =
     s\<lparr>sr := handler_sr (sr s), a_regs := (a_regs s)(7 := entry_sp s),
       usp := (if sr s AND M68K_SR_S \<noteq> 0 then usp s else a_regs s 7)\<rparr>"
  unfolding m68k_set_sr_def Let_def handler_sr_def [symmetric] by (auto simp: entry_sp_def)

lemma process_exception_plain:
  assumes "plain_bus env" and "pc_changed_cb env = None" and "model s = M68K_MODEL_68000"
    and "v \<noteq> 2" "v \<noteq> 3"
    and "even (entry_sp s)" and "in_ram s (entry_sp s - 6) 6"
    and "even (vbr s)" and "in_ram s (vbr s + word_of_int v * 4) 4"
  shows "process_exception exc env v s = Ret ()
    (s\<lparr>exception_thrown := (if exception_thrown s = 0 then v else exception_thrown s),
       sr := handler_sr (sr s), a_regs := (a_regs s)(7 := entry_sp s - 6),
       usp := (if sr s AND M68K_SR_S \<noteq> 0 then usp s else a_regs s 7),
       memory := Some (frame_ram v s),
       fault_program_access := False, fault_valid := False, fault_pc_valid := False,
       fault_bus_word_valid := False, operand_program_space := False,
       pc := get32 (frame_ram v s) (mask_address_24 (vbr s + word_of_int v * 4))\<rparr>)"
proof -
  define s0 where "s0 = (if exception_thrown s = 0 then s\<lparr>exception_thrown := v\<rparr> else s)"
  define s1 where "s1 = s0\<lparr>exception_depth := exception_depth s0 + 1\<rparr>"
  define s2 where "s2 = s1\<lparr>sr := handler_sr (sr s), a_regs := (a_regs s)(7 := entry_sp s),
       usp := (if sr s AND M68K_SR_S \<noteq> 0 then usp s else a_regs s 7)\<rparr>"
  have c: "in_ram s (entry_sp s - 4) 4" "in_ram s (entry_sp s - 6) 2"
    using stack_cell [of s "entry_sp s" 6 4 4] stack_cell [of s "entry_sp s" 6 6 2] assms(7) by simp_all
  have "m68k_set_sr ((sr s1 OR M68K_SR_S) AND NOT 0x8000) s1 = s2"
    unfolding enter_supervisor by (simp add: s2_def s1_def s0_def entry_sp_def)
  moreover have sr1: "sr s1 = sr s" by (simp add: s1_def s0_def)
  ultimately have s2: "m68k_set_sr ((sr s OR M68K_SR_S) AND NOT 0x8000) s1 = s2" by simp
  have push: "push_exception_frame exc env v (pushed_pc v s) (sr s) s2 = Ret ()
      (s2\<lparr>a_regs := (a_regs s)(7 := entry_sp s - 6), memory := Some (frame_ram v s)\<rparr>)"
    using assms c
    by (simp add: push_exception_frame_def s2_def s1_def s0_def push_plain frame_ram_def in_ram_def ram_def)
  have vec: "read_32_with exc env (vbr s + word_of_int v * 4) s' =
      Ret (get32 (frame_ram v s) (mask_address_24 (vbr s + word_of_int v * 4))) s'"
    if "memory s' = Some (frame_ram v s)" "memory_size s' = memory_size s" for s'
    using that assms even_word [of "vbr s + word_of_int v * 4"]
    by (subst plain_accesses(5)) (auto simp: in_ram_def ram_def)
  have old: "sr s1 = sr s" "(if (v = 2 \<or> v = 3) \<and> fault_pc_valid s1 then fault_pc s1
      else if v = 4 \<or> v = 8 \<or> v = 10 \<or> v = 11 then ppc s1 else pc s1) = pushed_pc v s"
    using assms(4,5) by (simp_all add: pushed_pc_def s1_def s0_def)
  have fin: "(s2\<lparr>a_regs := (a_regs s)(7 := entry_sp s - 6), memory := Some (frame_ram v s)\<rparr>
      \<lparr>fault_program_access := False\<rparr>\<lparr>fault_valid := False\<rparr>\<lparr>fault_pc_valid := False\<rparr>
      \<lparr>fault_bus_word_valid := False\<rparr>\<lparr>operand_program_space := False\<rparr>\<lparr>pc := a\<rparr>
      \<lparr>exception_depth := exception_depth s\<rparr>) =
    s\<lparr>exception_thrown := (if exception_thrown s = 0 then v else exception_thrown s),
       sr := handler_sr (sr s), a_regs := (a_regs s)(7 := entry_sp s - 6),
       usp := (if sr s AND M68K_SR_S \<noteq> 0 then usp s else a_regs s 7),
       memory := Some (frame_ram v s),
       fault_program_access := False, fault_valid := False, fault_pc_valid := False,
       fault_bus_word_valid := False, operand_program_space := False, pc := a\<rparr>" for a
    by (cases s) (simp add: s2_def s1_def s0_def)
  have depth: "exception_depth s2 = exception_depth s + 1" "vbr s2 = vbr s" "memory_size s2 = memory_size s"
    by (simp_all add: s2_def s1_def s0_def)
  show ?thesis
    unfolding process_exception_def Let_def s0_def [symmetric] s1_def [symmetric] s2 old
      push [unfolded old] andthen.simps
    using assms(2) by (simp add: vec depth m68k_set_pc_def fin)
qed

lemma handler_sr_bits:
  "handler_sr w AND 0x8000 = 0" "handler_sr w AND 0x071F = w AND 0x071F"
proof -
  have "NOT 0x8000 AND (0xA71F AND 0x8000) = (0 :: u16)" "NOT 0x8000 AND (0xA71F AND 0x071F) = (0x071F :: u16)"
    by simp_all
  then show "handler_sr w AND 0x8000 = 0" "handler_sr w AND 0x071F = w AND 0x071F"
    by (simp_all only: handler_sr_def and.assoc and_zero_eq)
       (simp add: M68K_SR_S_def bit.conj_disj_distrib2)
qed

lemma frame_spans:
  "unat (mask_address_24 (sp - 6)) + 6 \<le> 2 ^ 24 \<Longrightarrow> mask_address_24 (sp - 4) = mask_address_24 (sp - 6) + 2"
  using mask_24_add [of "sp - 6" 2] by simp

lemma frame_ram_fields:
  assumes "in_ram s (entry_sp s - 6) 6"
  shows "get16 (frame_ram v s) (mask_address_24 (entry_sp s - 6)) = sr s"
    and "get32 (frame_ram v s) (mask_address_24 (entry_sp s - 4)) = pushed_pc v s"
    and "x \<notin> span (mask_address_24 (entry_sp s - 6)) 6 \<Longrightarrow> frame_ram v s x = ram s x"
proof -
  have e: "mask_address_24 (entry_sp s - 4) = mask_address_24 (entry_sp s - 6) + of_nat 2"
    using assms by (simp add: frame_spans in_ram_def)
  show "get16 (frame_ram v s) (mask_address_24 (entry_sp s - 6)) = sr s"
    by (simp add: frame_ram_def)
  show "get32 (frame_ram v s) (mask_address_24 (entry_sp s - 4)) = pushed_pc v s"
    using span_disjoint(2) [of 2 2 4 "mask_address_24 (entry_sp s - 6)"] e
    by (simp add: frame_ram_def be32_16.independent)
  have "span a 2 \<subseteq> span a 6" "span (a + of_nat 2) 4 \<subseteq> span a 6" for a
    using span_within [of 0 2 6 a] span_within [of 2 4 6 a] by simp_all
  then show "x \<notin> span (mask_address_24 (entry_sp s - 6)) 6 \<Longrightarrow> frame_ram v s x = ram s x"
    unfolding frame_ram_def e by (subst be16.put_outside, blast, subst be32.put_outside) blast+
qed

lemma m68k_exception_plain:
  assumes "plain_bus env" and "pc_changed_cb env = None" and "model s = M68K_MODEL_68000"
    and "v \<noteq> 2" "v \<noteq> 3" and "v = 4 \<longrightarrow> illg_cb env = None"
    and "even (entry_sp s)" and "in_ram s (entry_sp s - 6) 6"
    and "even (vbr s)" and "in_ram s (vbr s + word_of_int v * 4) 4"
  shows "m68k_exception env v s = Ret ()
    (s\<lparr>exception_thrown := (if exception_thrown s = 0 then v else exception_thrown s),
       sr := handler_sr (sr s), a_regs := (a_regs s)(7 := entry_sp s - 6),
       usp := (if sr s AND M68K_SR_S \<noteq> 0 then usp s else a_regs s 7),
       memory := Some (frame_ram v s),
       fault_program_access := False, fault_valid := False, fault_pc_valid := False,
       fault_bus_word_valid := False, operand_program_space := False,
       pc := get32 (frame_ram v s) (mask_address_24 (vbr s + word_of_int v * 4))\<rparr>)"
proof -
  have "m68k_exception env v s = process_exception (m68k_exception_n 2 env) env v s"
    using assms(6) by (cases "v = 4") (simp_all add: m68k_exception_def numeral_3_eq_3 m68k_exception_body_def
        numeral_2_eq_2)
  then show ?thesis
    by (simp only: process_exception_plain [OF assms(1-5,7-10)])
qed

text \<open>C4: Exception processing of a 68000, for every vector with a six-byte frame: the status
  register and the program counter (the address of the instruction for an illegal
  instruction, a privilege violation and the line emulators) go on the supervisor stack, no
  other byte of memory changes, the program counter comes from the vector table, the handler
  starts in supervisor mode with the trace bit off and the interrupt mask and condition
  codes as they were, and a user stack pointer is saved.\<close>

theorem m68k_exception_frame:
  assumes "plain_bus env" and "pc_changed_cb env = None" and "model s = M68K_MODEL_68000"
    and "v \<noteq> 2" "v \<noteq> 3" and "v = 4 \<longrightarrow> illg_cb env = None"
    and "even (entry_sp s)" and "in_ram s (entry_sp s - 6) 6"
    and "even (vbr s)" and "in_ram s (vbr s + word_of_int v * 4) 4"
  shows "\<exists>s'. m68k_exception env v s = Ret () s' \<and>
    get16 (ram s') (mask_address_24 (entry_sp s - 6)) = sr s \<and>
    get32 (ram s') (mask_address_24 (entry_sp s - 4)) =
      (if v = 4 \<or> v = 8 \<or> v = 10 \<or> v = 11 then ppc s else pc s) \<and>
    (\<forall>x. x \<notin> span (mask_address_24 (entry_sp s - 6)) 6 \<longrightarrow> ram s' x = ram s x) \<and>
    pc s' = get32 (ram s') (mask_address_24 (vbr s + word_of_int v * 4)) \<and>
    sr s' AND M68K_SR_S \<noteq> 0 \<and> sr s' AND 0x8000 = 0 \<and> sr s' AND 0x071F = sr s AND 0x071F \<and>
    a_regs s' = (a_regs s)(7 := entry_sp s - 6) \<and> d_regs s' = d_regs s \<and>
    (sr s AND M68K_SR_S = 0 \<longrightarrow> usp s' = a_regs s 7) \<and>
    exception_depth s' = exception_depth s"
  using frame_ram_fields [OF assms(8), where v = v]
  unfolding m68k_exception_plain [OF assms] pushed_pc_def outcome.inject
  by (simp add: handler_sr_bits)

text \<open>A program with a trap vector: vector 32 points at 0x400, the stack is at 0x1000.\<close>

definition trap_state :: "unit cpu" where
  "trap_state = (m68k_init (Some ((\<lambda>_. 0)(0x82 := 4))) 0x1000 ())\<lparr>pc := 0x200, ssp := 0x1000,
     a_regs := (\<lambda>_. 0x800)\<rparr>"

lemma trap_state_fields [simp]:
  "a_regs trap_state = (\<lambda>_. 0x800)" "d_regs trap_state = (\<lambda>_. 0)" "pc trap_state = 0x200"
  "ppc trap_state = 0" "vbr trap_state = 0" "sr trap_state = 0" "memory_size trap_state = 0x1000"
  "exception_thrown trap_state = 0" "model trap_state = M68K_MODEL_68000"
  by (simp_all add: trap_state_def m68k_init_def)

lemma in_trap_state: "a \<le> 0xFFF \<Longrightarrow> unat a + n \<le> 0x1000 \<Longrightarrow> in_ram trap_state a n"
proof -
  assume a: "a \<le> 0xFFF" "unat a + n \<le> 0x1000"
  have "unat a \<le> 0xFFF" using a(1) by (simp add: word_le_nat_alt)
  then have "unat (mask_address_24 a) = unat a" by (simp add: mask_24_unat)
  moreover have "memory trap_state \<noteq> None" by (simp add: trap_state_def m68k_init_def)
  ultimately show ?thesis using a(2) by (simp add: in_ram_def)
qed

lemma trap_state_ok:
  "even (entry_sp trap_state)" "in_ram trap_state (entry_sp trap_state - 6) 6"
  "even (vbr trap_state)" "in_ram trap_state (vbr trap_state + word_of_int 32 * 4) 4"
  "model trap_state = M68K_MODEL_68000" "sr trap_state = 0" "entry_sp trap_state = 0x1000"
  by (simp_all add: trap_state_def m68k_init_def entry_sp_def in_ram_def mask_address_24_def)

lemma m68k_exception_frame_witness:
  "\<exists>s'. m68k_exception no_callbacks 32 trap_state = Ret () s' \<and>
     get32 (ram s') 0xFFC = 0x200 \<and> a_regs s' 7 = 0xFFA \<and> usp s' = 0x800 \<and> pc s' = 0x400"
proof -
  have p: "pc_changed_cb no_callbacks = None" by (simp add: no_callbacks_def)
  obtain s' where s': "m68k_exception no_callbacks 32 trap_state = Ret () s'"
      "get32 (ram s') (mask_address_24 (entry_sp trap_state - 4)) = pc trap_state"
      "\<forall>x. x \<notin> span (mask_address_24 (entry_sp trap_state - 6)) 6 \<longrightarrow> ram s' x = ram trap_state x"
      "pc s' = get32 (ram s') (mask_address_24 (vbr trap_state + word_of_int 32 * 4))"
      "a_regs s' = (a_regs trap_state)(7 := entry_sp trap_state - 6)"
      "usp s' = a_regs trap_state 7"
    using m68k_exception_frame [OF plain_bus_no_callbacks p trap_state_ok(5) _ _ _ trap_state_ok(1-4)]
      trap_state_ok(6) by auto
  have "get32 (ram s') 0x80 = get32 (ram trap_state) 0x80"
    by (intro be32.get_local s'(3) [rule_format])
      (auto simp: trap_state_ok span_4 mask_address_24_def below_span)
  then show ?thesis
    using s'(1,2,4-6) by (simp add: trap_state_ok mask_address_24_def)
      (simp add: trap_state_def m68k_init_def get32_def ram_def)
qed

subsection \<open>The stack instructions' accesses\<close>

lemma pop_plain:
  assumes "plain_bus env" and "even (a_regs s 7)"
  shows "in_ram s (a_regs s 7) 2 \<Longrightarrow> m68k_pop_16 env s =
      Ret (get16 (ram s) (mask_address_24 (a_regs s 7))) (set_a 7 (a_regs s 7 + 2) s)"
    and "in_ram s (a_regs s 7) 4 \<Longrightarrow> m68k_pop_32 env s =
      Ret (get32 (ram s) (mask_address_24 (a_regs s 7))) (set_a 7 (a_regs s 7 + 4) s)"
  using assms
  by (simp_all add: m68k_pop_16_def m68k_pop_32_def m68k_read_16_def m68k_read_32_def Let_def
      plain_accesses even_word)

lemma fetch_plain:
  assumes "plain_bus env" and "even (pc s)" and "in_ram s (pc s) 2"
  shows "m68k_fetch env s = Ret (get16 (ram s) (mask_address_24 (pc s))) (s\<lparr>pc := pc s + 2\<rparr>)"
  using assms in_ram_valid [OF assms(3), of 0] in_ram_valid [OF assms(3), of 1] even_word [of "pc s"]
  by (auto simp: m68k_fetch_def Let_def plain_bus_def set_fc_def apply_wait_bus_def mem_load_def
      ram_def in_ram_def get16_def)

text \<open>C7: What is written is read back: for every operand size, a write inside the bound memory
  at an even address (any address for a byte) followed by a read of the same size returns
  the value that was written, cut to the operand size.\<close>

theorem m68k_write_read:
  assumes "plain_bus env" and "in_ram s a (unat (size_bytes sz))" and "sz \<noteq> SIZE_BYTE \<longrightarrow> even a"
  shows "\<exists>s'. andthen (m68k_write_size env a v sz s) (\<lambda>_. m68k_read_size env a sz) =
    Ret (v AND value_mask sz) s' \<and> m68k_write_size env a v sz s = Ret () s' \<and>
    (\<forall>x. x \<notin> span (mask_address_24 a) (unat (size_bytes sz)) \<longrightarrow> ram s' x = ram s x)"
proof (cases sz)
  case SIZE_BYTE
  then show ?thesis
    using assms
    by (simp add: m68k_read_size_def m68k_write_size_def m68k_read_8_def m68k_write_8_def
        plain_accesses cast_u8 span_def in_ram_def)
next
  case SIZE_WORD
  then show ?thesis
    using assms
    by (simp add: m68k_read_size_def m68k_write_size_def m68k_read_16_def m68k_write_16_def
        plain_accesses even_word cast_u16 be16.put_outside in_ram_def)
next
  case SIZE_LONG
  then show ?thesis
    using assms
    by (simp add: m68k_read_size_def m68k_write_size_def m68k_read_32_def m68k_write_32_def
        plain_accesses even_word be32.put_outside in_ram_def)
qed

lemma m68k_write_read_witness:
  "\<exists>s'. andthen (m68k_write_size no_callbacks 0x400 0x12345678 SIZE_WORD trap_state)
      (\<lambda>_. m68k_read_size no_callbacks 0x400 SIZE_WORD) = Ret 0x5678 s'"
proof -
  have "in_ram trap_state 0x400 (unat (size_bytes SIZE_WORD))"
    by (rule in_trap_state) simp_all
  from m68k_write_read [OF plain_bus_no_callbacks this, where v = "0x12345678"] show ?thesis by auto
qed

end
