(* ===== verification/M68k_EA.thy ===== *)
theory M68k_EA
  imports M68k_Frame M68k_Memory
begin

section \<open>Effective addresses\<close>

text \<open>
  Effective-address resolution: \<open>M68kEA\<close> and the cycle tables of
  \<open>src/m68k/m68k_internal.h\<close>, and \<open>m68k_calc_ea\<close> and its variants of
  \<open>src/m68k/m68k.c\<close>. Resolution is the part of every instruction that can fault: an
  operand read or an extension fetch may leave by \<open>longjmp\<close>, and an invalid
  mode-7 encoding raises the illegal-instruction exception. The lemmas of the second
  half show that it keeps the invariant of M68k_Frame and never adds cycles; the locale
  \<open>instruction\<close> collects what a handler may assume of it.
\<close>

record M68kEA =
  ea_value :: u32
  address :: u32
  is_reg :: bool
  reg_num :: nat
  is_addr :: bool

text \<open>\<open>M68kEA ea = {0}\<close>\<close>

definition zero_ea :: M68kEA where
  "zero_ea = \<lparr>ea_value = 0, address = 0, is_reg = False, reg_num = 0, is_addr = False\<rparr>"

subsection \<open>Cycle tables\<close>

definition m68k_ea_cycle_table :: "(int \<times> int) list" where
  "m68k_ea_cycle_table =
     [(0, 0), (0, 0), (4, 8), (4, 8), (6, 10), (8, 12),
      (10, 14), (8, 12), (12, 16), (8, 12), (10, 14), (4, 8)]"

definition m68k_ea_cycles :: "nat \<Rightarrow> nat \<Rightarrow> M68kSize \<Rightarrow> int" where
  "m68k_ea_cycles mode reg sz =
     (let entry = (\<lambda>idx. if sz = SIZE_LONG then snd (m68k_ea_cycle_table ! idx)
                         else fst (m68k_ea_cycle_table ! idx))
      in if mode \<le> 6 then entry mode
         else if reg = 0 then entry 7
         else if reg = 1 then entry 8
         else if reg = 2 then entry 9
         else if reg = 3 then entry 10
         else if reg = 4 then entry 11
         else 0)"

definition lea_ea_cycles :: "int list" where
  "lea_ea_cycles = [4, 8, 12, 8, 12, 8, 12]"

definition jmp_ea_cycles :: "int list" where
  "jmp_ea_cycles = [8, 10, 14, 10, 12, 10, 14]"

definition m68k_control_ea_cycles :: "nat \<Rightarrow> nat \<Rightarrow> bool \<Rightarrow> int" where
  "m68k_control_ea_cycles mode reg is_jmp =
     (let entry = (\<lambda>idx. if is_jmp then jmp_ea_cycles ! idx else lea_ea_cycles ! idx)
      in if mode = 2 then entry 0
         else if mode = 5 then entry 1
         else if mode = 6 then entry 2
         else if mode = 7
         then (if reg = 0 then entry 3
               else if reg = 1 then entry 4
               else if reg = 2 then entry 5
               else if reg = 3 then entry 6
               else 0)
         else 0)"

definition m68k_movem_ea_cycles :: "nat \<Rightarrow> nat \<Rightarrow> bool \<Rightarrow> int" where
  "m68k_movem_ea_cycles mode reg mem_to_reg =
     (if mode = 2 then (if mem_to_reg then 12 else 8)
      else if mode = 3 then 12
      else if mode = 4 then 8
      else if mode = 5 then (if mem_to_reg then 16 else 12)
      else if mode = 6 then (if mem_to_reg then 18 else 14)
      else if mode = 7
      then (if reg = 0 then (if mem_to_reg then 16 else 12)
            else if reg = 1 then (if mem_to_reg then 20 else 16)
            else if reg = 2 then 16
            else if reg = 3 then 18
            else 0)
      else 0)"

subsection \<open>Resolution\<close>

text \<open>The program counter a group-0 frame gets when the operand access faults.\<close>

definition set_fault_pc :: "nat \<Rightarrow> nat \<Rightarrow> M68kSize \<Rightarrow> 'h cpu \<Rightarrow> 'h cpu" where
  "set_fault_pc mode reg sz s =
     (let latch = (\<lambda>offset. s\<lparr>fault_pc := pc s + offset\<rparr>\<lparr>fault_pc_valid := True\<rparr>)
      in if mode = 2 \<or> mode = 3 \<or> mode = 5 \<or> mode = 6 then latch 0
         else if mode = 4 then latch (if sz = SIZE_LONG then 0 else 2)
         else if mode = 7
         then (if reg = 1 then latch 4
               else if reg = 0 then latch 2
               else if reg = 2 \<or> reg = 3 then latch 0
               else s)
         else s)"

text \<open>The index register of a brief extension word, the sum of its two
  displacements (modes 6 and 7.3).\<close>

definition index_value :: "u16 \<Rightarrow> 'h cpu \<Rightarrow> u32" where
  "index_value ext s =
     (let disp8 = sext8 (ext AND 0xFF);
          xn_reg_num = bits ext 12 0x7;
          xn_is_addr = (bits ext 15 0x1 \<noteq> 0);
          xn_is_long = (bits ext 11 0x1 \<noteq> 0);
          xn_val = (if xn_is_addr then a_regs s xn_reg_num else d_regs s xn_reg_num);
          xn_val = (if \<not> xn_is_long then sext16 (xn_val AND 0xFFFF) else xn_val)
      in xn_val + disp8)"

text \<open>The operand read that ends most modes, if the value is asked for.\<close>

definition finish_ea ::
  "'h host_callbacks \<Rightarrow> u32 \<Rightarrow> M68kSize \<Rightarrow> bool \<Rightarrow> 'h cpu \<Rightarrow> ('h, M68kEA) out" where
  "finish_ea env addr sz fetch_value s =
     (if fetch_value
      then andthen (m68k_read_size env addr sz s) (\<lambda>v s.
           Ret (zero_ea\<lparr>address := addr, ea_value := v\<rparr>) s)
      else Ret (zero_ea\<lparr>address := addr\<rparr>) s)"

text \<open>The same for a PC-relative operand, which is read from program space.\<close>

definition finish_pc_relative ::
  "'h host_callbacks \<Rightarrow> u32 \<Rightarrow> M68kSize \<Rightarrow> bool \<Rightarrow> 'h cpu \<Rightarrow> ('h, M68kEA) out" where
  "finish_pc_relative env addr sz fetch_value s =
     (if fetch_value
      then andthen (m68k_read_size env addr sz (s\<lparr>operand_program_space := True\<rparr>)) (\<lambda>v s.
           Ret (zero_ea\<lparr>address := addr, ea_value := v\<rparr>) (s\<lparr>operand_program_space := False\<rparr>))
      else Ret (zero_ea\<lparr>address := addr\<rparr>) s)"

definition calc_ea_mode7 ::
  "'h host_callbacks \<Rightarrow> nat \<Rightarrow> M68kSize \<Rightarrow> bool \<Rightarrow> 'h cpu \<Rightarrow> ('h, M68kEA) out" where
  "calc_ea_mode7 env reg sz fetch_value s =
     (if reg = 0
      then andthen (fetch_extension env s) (\<lambda>w s. finish_ea env (sext16 w) sz fetch_value s)
      else if reg = 1
      then andthen (fetch_extension env s) (\<lambda>high s.
           andthen (fetch_extension env s) (\<lambda>low s.
           finish_ea env (push_bit 16 high OR low) sz fetch_value s))
      else if reg = 4
      then (if sz = SIZE_LONG
            then andthen (fetch_extension env s) (\<lambda>high s.
                 andthen (fetch_extension env s) (\<lambda>low s.
                 Ret (zero_ea\<lparr>ea_value := push_bit 16 high OR low, is_reg := True\<rparr>) s))
            else andthen (fetch_extension env s) (\<lambda>w s.
                 let w = (if sz = SIZE_BYTE then w AND 0xFF else w)
                 in Ret (zero_ea\<lparr>ea_value := w, is_reg := True\<rparr>) s))
      else if reg = 2
      then andthen (fetch_extension env s) (\<lambda>w s.
           finish_pc_relative env ((pc s - 2) + sext16 w) sz fetch_value s)
      else if reg = 3
      then andthen (fetch_extension env s) (\<lambda>w s.
           finish_pc_relative env ((pc s - 2) + index_value (ucast w) s) sz fetch_value s)
      else andthen (m68k_raise_illegal_ea env s) (\<lambda>_ s. Ret zero_ea s))"

text \<open>The register step of \<open>(An)+\<close> and \<open>-(An)\<close>: the byte step of the
  stack pointer is 2.\<close>

definition ea_step :: "M68kSize \<Rightarrow> nat \<Rightarrow> u32" where
  "ea_step sz reg = (if sz = SIZE_BYTE \<and> reg = 7 then 2 else size_bytes sz)"

definition m68k_calc_ea_ex ::
  "'h host_callbacks \<Rightarrow> nat \<Rightarrow> nat \<Rightarrow> M68kSize \<Rightarrow> bool \<Rightarrow> 'h cpu \<Rightarrow> ('h, M68kEA) out" where
  "m68k_calc_ea_ex env mode reg sz fetch_value s =
     (let s = set_fault_pc mode reg sz s
      in if mode = 0
      then Ret (zero_ea\<lparr>is_reg := True, reg_num := reg, is_addr := False,
                        ea_value := d_regs s reg\<rparr>) s
      else if mode = 1
      then Ret (zero_ea\<lparr>is_reg := True, reg_num := reg, is_addr := True,
                        ea_value := a_regs s reg\<rparr>) s
      else if mode = 2
      then finish_ea env (a_regs s reg) sz fetch_value s
      else if mode = 3
      then (let addr = a_regs s reg
            in if fetch_value \<and> sz = SIZE_LONG
               then andthen (m68k_read_size env addr sz s) (\<lambda>v s.
                    Ret (zero_ea\<lparr>address := addr, ea_value := v\<rparr>)
                      (set_a reg (a_regs s reg + size_bytes sz) s))
               else (let s = set_a reg (a_regs s reg + ea_step sz reg) s
                     in finish_ea env addr sz fetch_value s))
      else if mode = 4
      then (let s = set_a reg (a_regs s reg - ea_step sz reg) s
            in finish_ea env (a_regs s reg) sz fetch_value s)
      else if mode = 5
      then andthen (fetch_extension env s) (\<lambda>w s.
           finish_ea env (a_regs s reg + sext16 w) sz fetch_value s)
      else if mode = 7
      then calc_ea_mode7 env reg sz fetch_value s
      else if mode = 6
      then andthen (fetch_extension env s) (\<lambda>w s.
           finish_ea env (a_regs s reg + index_value (ucast w) s) sz fetch_value s)
      else Ret zero_ea s)"

definition m68k_calc_ea ::
  "'h host_callbacks \<Rightarrow> nat \<Rightarrow> nat \<Rightarrow> M68kSize \<Rightarrow> 'h cpu \<Rightarrow> ('h, M68kEA) out" where
  "m68k_calc_ea env mode reg sz s =
     (let full = m68k_ea_cycles mode reg sz;
          pre = (if sz = SIZE_LONG then m68k_ea_cycles mode reg SIZE_WORD else full);
          s = spend pre s
      in andthen (m68k_calc_ea_ex env mode reg sz True s) (\<lambda>ea s.
         Ret ea (spend (full - pre) s)))"

definition m68k_calc_ea_addr ::
  "'h host_callbacks \<Rightarrow> nat \<Rightarrow> nat \<Rightarrow> M68kSize \<Rightarrow> 'h cpu \<Rightarrow> ('h, M68kEA) out" where
  "m68k_calc_ea_addr env mode reg sz s =
     m68k_calc_ea_ex env mode reg sz False (spend (m68k_ea_cycles mode reg sz) s)"

definition m68k_calc_ea_ctl ::
  "'h host_callbacks \<Rightarrow> nat \<Rightarrow> nat \<Rightarrow> bool \<Rightarrow> 'h cpu \<Rightarrow> ('h, M68kEA) out" where
  "m68k_calc_ea_ctl env mode reg is_jmp s =
     (if mode < 2 \<or> mode = 3 \<or> mode = 4 \<or> (mode = 7 \<and> reg > 3)
      then andthen (m68k_raise_illegal_ea env s) (\<lambda>_ s. Ret zero_ea s)
      else m68k_calc_ea_ex env mode reg SIZE_LONG False
             (spend (m68k_control_ea_cycles mode reg is_jmp) s))"

definition m68k_calc_ea_addr_nocost ::
  "'h host_callbacks \<Rightarrow> nat \<Rightarrow> nat \<Rightarrow> M68kSize \<Rightarrow> 'h cpu \<Rightarrow> ('h, M68kEA) out" where
  "m68k_calc_ea_addr_nocost env mode reg sz s = m68k_calc_ea_ex env mode reg sz False s"

lemma ea_cycles_nonneg: "0 \<le> m68k_ea_cycles m r sz"
  by (auto simp: m68k_ea_cycles_def m68k_ea_cycle_table_def nth_Cons' Let_def)

lemma ea_cycles_word_le: "m68k_ea_cycles m r SIZE_WORD \<le> m68k_ea_cycles m r SIZE_LONG"
  by (auto simp: m68k_ea_cycles_def m68k_ea_cycle_table_def nth_Cons' Let_def)

lemma control_ea_cycles_ge:
  "\<not> (m < 2 \<or> m = 3 \<or> m = 4 \<or> m = 7 \<and> r > 3) \<Longrightarrow> m \<le> 7 \<Longrightarrow> 4 \<le> m68k_control_ea_cycles m r j"
proof -
  assume a: "\<not> (m < 2 \<or> m = 3 \<or> m = 4 \<or> m = 7 \<and> r > 3)" "m \<le> 7"
  have "m = 2 \<or> m = 5 \<or> m = 6 \<or> m = 7 \<and> (r = 0 \<or> r = 1 \<or> r = 2 \<or> r = 3)"
    using a by presburger
  then consider "m = 2" | "m = 5" | "m = 6" | "m = 7" "r = 0" | "m = 7" "r = 1"
    | "m = 7" "r = 2" | "m = 7" "r = 3"
    by blast
  then show ?thesis
    by cases (simp_all add: m68k_control_ea_cycles_def jmp_ea_cycles_def lea_ea_cycles_def)
qed

subsection \<open>Safety of an instruction\<close>

text \<open>The handlers run with the trap armed, at exception depth 0 and with both guards
  clear. Each handler has a lemma in this locale: from a state in which nothing has been
  thrown yet, it returns with the invariant, or jumps to the trap with it.\<close>

locale instruction = machine env t for env :: "'h host_callbacks" and t :: bool +
  fixes p :: ctl
  assumes running: "running p"
begin

lemma st: "steady p w" by (simp add: running)

lemma finish_ea_keeps:
  assumes "cpu_inv p w c s" and bound: "bound_ok t c"
  shows "keeps (cpu_inv p w c) (jump_inv p c) (finish_ea env a sz b s)"
  using assms by (auto simp: finish_ea_def intro!: keeps_andthen read_keeps bound st)

lemma finish_pc_relative_keeps:
  assumes "cpu_inv p w c s" and bound: "bound_ok t c"
  shows "keeps (cpu_inv p w c) (jump_inv p c) (finish_pc_relative env a sz b s)"
proof -
  let ?w = "w\<lparr>latches := insert Program_space (latches w)\<rparr>"
  have "keeps (cpu_inv p w c) (jump_inv p c)
      (andthen (m68k_read_size env a sz (s\<lparr>operand_program_space := True\<rparr>)) (\<lambda>v s.
         Ret (zero_ea\<lparr>address := a, ea_value := v\<rparr>) (s\<lparr>operand_program_space := False\<rparr>)))"
    using inv_program_space(1) [OF assms(1)] inv_program_space(2) [where w=w and L="latches w"]
    by (intro keeps_bind [OF read_keeps(4) [of p ?w c]]) (simp_all add: bound st)
  then show ?thesis
    using assms by (simp add: finish_pc_relative_def)
qed

lemma calc_ea_mode7_keeps:
  assumes "cpu_inv p w c s" and "latches w = {}" and bound: "bound_ok t c"
  shows "keeps (cpu_inv p w c) (jump_inv p c) (calc_ea_mode7 env r sz b s)"
proof -
  have i: "keeps (cpu_inv p w c) (jump_inv p c) (andthen (m68k_raise_illegal_ea env s) (\<lambda>_ s. Ret zero_ea s))"
    using raise_illegal_ea_jumps [OF assms(1) bound assms(2)] running
    by (cases "m68k_raise_illegal_ea env s") (simp_all add: running_def)
  show ?thesis
    unfolding calc_ea_mode7_def
    using assms i
    by (auto intro!: keeps_andthen fetch_extension_keeps bound st finish_ea_keeps
        finish_pc_relative_keeps simp: Let_def)
qed

lemma inv_set_fault_pc [simp]: "cpu_inv p w c (set_fault_pc m r sz s) = cpu_inv p w c s"
  by (simp add: set_fault_pc_def Let_def)

lemma calc_ea_ex_keeps:
  assumes "cpu_inv p w c s" and "latches w = {}" and bound: "bound_ok t c"
  shows "keeps (cpu_inv p w c) (jump_inv p c) (m68k_calc_ea_ex env m r sz b s)"
  unfolding m68k_calc_ea_ex_def Let_def
  using assms
  by (auto intro!: keeps_andthen fetch_extension_keeps bound st finish_ea_keeps read_keeps
      calc_ea_mode7_keeps)

lemma calc_ea_keeps:
  assumes "cpu_inv p w c s" and "latches w = {}" and bound: "bound_ok t c"
  shows "keeps (cpu_inv p w c) (jump_inv p c) (m68k_calc_ea env m r sz s)"
    and "keeps (cpu_inv p w c) (jump_inv p c) (m68k_calc_ea_addr env m r sz s)"
    and "keeps (cpu_inv p w c) (jump_inv p c) (m68k_calc_ea_addr_nocost env m r sz s)"
  unfolding m68k_calc_ea_def m68k_calc_ea_addr_def m68k_calc_ea_addr_nocost_def Let_def
  using assms
  by (auto intro!: keeps_andthen calc_ea_ex_keeps inv_cycles ea_cycles_nonneg
      simp: ea_cycles_word_le)

lemma calc_ea_ctl_keeps:
  assumes i: "cpu_inv p w c s" and l: "latches w = {}" and bound: "bound_ok t c" and "m \<le> 7"
  shows "keeps (cpu_inv p w (lower 4 c)) (jump_inv p c) (m68k_calc_ea_ctl env m r j s)"
proof (cases "m < 2 \<or> m = 3 \<or> m = 4 \<or> m = 7 \<and> r > 3")
  case True
  then show ?thesis
    using raise_illegal_ea_jumps [OF i bound l] running
    by (cases "m68k_raise_illegal_ea env s") (auto simp: running_def m68k_calc_ea_ctl_def)
next
  case False
  then have n: "4 \<le> m68k_control_ea_cycles m r j"
    using \<open>m \<le> 7\<close> by (rule control_ea_cycles_ge)
  have "cpu_inv p w (lower 4 c) (spend (m68k_control_ea_cycles m r j) s)"
    by (rule inv_spend_ge [OF i n])
  then have "keeps (cpu_inv p w (lower 4 c)) (jump_inv p (lower 4 c))
      (m68k_calc_ea_ex env m r SIZE_LONG False (spend (m68k_control_ea_cycles m r j) s))"
    by (intro calc_ea_ex_keeps) (simp_all add: l bound)
  then have "keeps (cpu_inv p w (lower 4 c)) (jump_inv p c)
      (m68k_calc_ea_ex env m r SIZE_LONG False (spend (m68k_control_ea_cycles m r j) s))"
    by (rule keeps_mono) (auto intro: jump_inv_raise [where n = 4])
  then show ?thesis using False by (auto simp: m68k_calc_ea_ctl_def)
qed

text \<open>How handlers end.\<close>

lemma fresh_quiet: "cpu_inv p fresh c s \<Longrightarrow> cpu_inv p quiet c s"
  by (auto elim: inv_weaken simp: perm_le_def fresh_def quiet_def)

lemma fresh_exception:
  assumes "cpu_inv p fresh c s" and "bound_ok t c" and "v \<noteq> 0" and "v \<noteq> 6"
  shows "keeps (cpu_inv p quiet c) E (m68k_exception env v s)"
  using assms
  by (intro exception_keeps [OF assms(1)])
     (auto simp: perm_le_def after_def record_vector_def fresh_def quiet_def)

lemma keeps_quiet:
  "keeps (cpu_inv p fresh c) E r \<Longrightarrow> keeps (cpu_inv p quiet c) E r"
  by (erule keeps_mono) (auto elim: inv_weaken simp: perm_le_def fresh_def quiet_def)

text \<open>Handlers that the dispatch charges nothing for pay themselves, unless they end in
  an exception that the end of the step charges for. An illegal instruction that the
  host claims costs nothing.\<close>

definition paid :: "int option \<Rightarrow> 'h cpu \<Rightarrow> bool" where
  "paid c s \<longleftrightarrow> cpu_inv p quiet (lower 4 c) s \<or>
     cpu_inv p (quiet\<lparr>thrown := {4, 5}\<rparr>) c s \<or>
     illg_cb env \<noteq> None \<and> cpu_inv p quiet c s"

lemma paid_spend:
  "cpu_inv p fresh c s \<Longrightarrow> n \<le> cycles_remaining s - 4 \<Longrightarrow> paid c (s\<lparr>cycles_remaining := n\<rparr>)"
  using inv_spend_ge [of p fresh c s 4 "cycles_remaining s - n"]
  by (simp add: paid_def fresh_quiet)

lemma paid_exception:
  assumes "cpu_inv p fresh c s" and "bound_ok t c" and "v = 4 \<or> v = 5"
  shows "keeps (paid c) E (m68k_exception env v s)"
proof -
  have r: "post (\<lambda>_. cpu_inv p (after env v fresh) c) (\<lambda>_. False) (m68k_exception env v s)"
    using assms by (intro exception_returns) auto
  have "paid c s'" if "cpu_inv p (after env v fresh) c s'" for s'
  proof (cases "v = 4 \<and> illg_cb env \<noteq> None")
    case True
    then have "perm_le (after env v fresh) quiet"
      by (auto simp: perm_le_def after_def fresh_def quiet_def)
    then show ?thesis
      using True inv_weaken [OF that] by (simp add: paid_def)
  next
    case False
    then have "perm_le (after env v fresh) (quiet\<lparr>thrown := {4, 5}\<rparr>)"
      using assms(3) by (auto simp: perm_le_def after_def fresh_def quiet_def record_vector_def)
    then show ?thesis
      using inv_weaken [OF that] by (simp add: paid_def)
  qed
  then show ?thesis
    unfolding keeps_def by (intro post_mono [OF r]) auto
qed

lemma paid_pure:
  "paid c s \<Longrightarrow> (\<And>w c. cpu_inv p w c s \<Longrightarrow> cpu_inv p w c s') \<Longrightarrow> paid c s'"
  unfolding paid_def by blast

lemma paid_lower: "cpu_inv p fresh (lower 4 c) s \<Longrightarrow> paid c s"
  by (simp add: paid_def fresh_quiet)

lemma paid_quiet: "paid c s \<Longrightarrow> cpu_inv p quiet c s"
proof -
  have "perm_le (quiet\<lparr>thrown := {4, 5}\<rparr>) quiet"
    by (simp add: perm_le_def quiet_def)
  then show "paid c s \<Longrightarrow> cpu_inv p quiet c s"
    unfolding paid_def using inv_raise [of p quiet 4 c s] inv_weaken by fastforce
qed

lemma paid_upd [simp]:
  "paid c (s\<lparr>d_regs := x1\<rparr>) = paid c s" "paid c (s\<lparr>a_regs := x1\<rparr>) = paid c s"
  "paid c (s\<lparr>pc := x2\<rparr>) = paid c s"
  by (simp_all add: paid_def)

lemma keeps_jump:
  "keeps I (jump_inv p (lower n c)) r \<Longrightarrow> 0 \<le> n \<Longrightarrow> keeps I (jump_inv p c) r"
  by (erule keeps_mono) (auto intro: jump_inv_raise)

text \<open>A target fault costs 50 cycles by itself.\<close>

lemma target_fault_keeps:
  assumes "cpu_inv p fresh c s" and "bound_ok t c"
  shows "keeps (cpu_inv p quiet (lower 4 c)) E (m68k_raise_odd_target_fault env a f s)"
    and "keeps (cpu_inv p quiet (lower 4 c)) E (m68k_raise_bus_target_fault env a f s)"
proof -
  let ?w = "fresh\<lparr>group0_set := True\<rparr>"
  have le: "perm_le (after env 3 ?w) quiet" "perm_le (after env 2 ?w) quiet"
    by (auto simp: perm_le_def after_def record_vector_def fresh_def quiet_def)
  have l: "cpu_inv p quiet (lower 4 c) s'" if "cpu_inv p w' (lower 50 c) s'" "perm_le w' quiet"
    for w' s'
    using inv_weaken [OF that] inv_raise [of p quiet 46 "lower 4 c" s'] by simp
  note r = raise_target_fault_keeps [OF inv_spend_ge [OF assms(1), of 50 50]]
  show "keeps (cpu_inv p quiet (lower 4 c)) E (m68k_raise_odd_target_fault env a f s)"
    "keeps (cpu_inv p quiet (lower 4 c)) E (m68k_raise_bus_target_fault env a f s)"
    using running assms(2)
    by (auto simp: running_def intro!: keeps_mono [OF r(1)] keeps_mono [OF r(2)] l le)
qed

lemma paid_quiet_lower: "cpu_inv p quiet (lower 4 c) s \<Longrightarrow> paid c s"
  by (simp add: paid_def)

lemma target_fault_paid:
  assumes "cpu_inv p fresh c s" and "bound_ok t c"
  shows "keeps (paid c) E (m68k_raise_odd_target_fault env a f s)"
    and "keeps (paid c) E (m68k_raise_bus_target_fault env a f s)"
    and "0 \<le> n \<Longrightarrow> keeps (paid c) E (andthen (m68k_raise_odd_target_fault env a f s)
        (\<lambda>_ s. Ret () (spend n s)))"
    and "0 \<le> n \<Longrightarrow> keeps (paid c) E (andthen (m68k_raise_bus_target_fault env a f s)
        (\<lambda>_ s. Ret () (spend n s)))"
proof -
  note k = target_fault_keeps [OF assms]
  show "keeps (paid c) E (m68k_raise_odd_target_fault env a f s)"
    "keeps (paid c) E (m68k_raise_bus_target_fault env a f s)"
    by (rule keeps_mono [OF k(1)] keeps_mono [OF k(2)]; simp add: paid_quiet_lower)+
  show "0 \<le> n \<Longrightarrow> keeps (paid c) E (andthen (m68k_raise_odd_target_fault env a f s)
        (\<lambda>_ s. Ret () (spend n s)))"
    by (rule keeps_bind [OF k(1)]) (simp add: paid_quiet_lower inv_cycles)
  show "0 \<le> n \<Longrightarrow> keeps (paid c) E (andthen (m68k_raise_bus_target_fault env a f s)
        (\<lambda>_ s. Ret () (spend n s)))"
    by (rule keeps_bind [OF k(2)]) (simp add: paid_quiet_lower inv_cycles)
qed

lemma paid_set_pc: "paid c s \<Longrightarrow> bound_ok t c \<Longrightarrow> paid c (m68k_set_pc env a s)"
  unfolding paid_def using inv_set_pc [OF callbacks_ok] by (metis bound_ok_lower)

end

interpretation bare_instruction: instruction no_callbacks t
  "\<lparr>c_ae = False, c_be = False, c_depth = 0, c_trap = True, c_size = n, c_model = m\<rparr>"
  for t n m
  by unfold_locales (simp add: running_def)

end
