(* ===== verification/M68k_Flags.thy ===== *)
theory M68k_Flags
  imports M68k_EA
begin

section \<open>Condition codes\<close>

text \<open>
  The condition-code updates of \<open>src/m68k/m68k.c\<close> (\<open>update_flags_add\<close>,
  \<open>update_flags_sub\<close>, \<open>update_flags_cmp\<close>, \<open>update_flags_logic\<close>) and the
  sixteen conditions of \<open>src/m68k/ops_control.c\<close> (\<open>m68k_check_condition\<close>), with
  the pieces every handler shares: the size code of an opcode and the write-back of a
  result to a register or to memory. The lemmas say what the flags mean: carry and
  overflow of the operands read as unsigned and as signed numbers of the operand size,
  and the conditions after a comparison as the comparisons of those numbers.
\<close>

subsection \<open>Flag updates\<close>

definition update_flags_add :: "u32 \<Rightarrow> u32 \<Rightarrow> u32 \<Rightarrow> M68kSize \<Rightarrow> 'h cpu \<Rightarrow> 'h cpu" where
  "update_flags_add src dest result sz s =
     (let s = sr_clear (M68K_SR_N OR M68K_SR_Z OR M68K_SR_V OR M68K_SR_C OR M68K_SR_X) s;
          msb = msb_mask sz;
          s = sr_set_if (result AND msb \<noteq> 0) M68K_SR_N s;
          mask = value_mask sz;
          s = sr_set_if (result AND mask = 0) M68K_SR_Z s;
          sm = (src AND msb \<noteq> 0);
          dm = (dest AND msb \<noteq> 0);
          rm = (result AND msb \<noteq> 0);
          s = sr_set_if ((sm \<and> dm \<and> \<not> rm) \<or> (\<not> sm \<and> \<not> dm \<and> rm)) M68K_SR_V s
      in if (sm \<and> dm) \<or> (\<not> rm \<and> dm) \<or> (sm \<and> \<not> rm)
         then (let s = s\<lparr>sr := sr s OR M68K_SR_C\<rparr> in s\<lparr>sr := sr s OR M68K_SR_X\<rparr>)
         else s)"

definition update_flags_sub :: "u32 \<Rightarrow> u32 \<Rightarrow> u32 \<Rightarrow> M68kSize \<Rightarrow> 'h cpu \<Rightarrow> 'h cpu" where
  "update_flags_sub src dest result sz s =
     (let s = sr_clear (M68K_SR_N OR M68K_SR_Z OR M68K_SR_V OR M68K_SR_C OR M68K_SR_X) s;
          msb = msb_mask sz;
          mask = value_mask sz;
          s = sr_set_if (result AND msb \<noteq> 0) M68K_SR_N s;
          s = sr_set_if (result AND mask = 0) M68K_SR_Z s;
          sm = (src AND msb \<noteq> 0);
          dm = (dest AND msb \<noteq> 0);
          rm = (result AND msb \<noteq> 0);
          s = sr_set_if ((\<not> sm \<and> dm \<and> \<not> rm) \<or> (sm \<and> \<not> dm \<and> rm)) M68K_SR_V s
      in if (sm \<and> \<not> dm) \<or> (rm \<and> \<not> dm) \<or> (sm \<and> rm)
         then (let s = s\<lparr>sr := sr s OR M68K_SR_C\<rparr> in s\<lparr>sr := sr s OR M68K_SR_X\<rparr>)
         else s)"

definition update_flags_cmp :: "u32 \<Rightarrow> u32 \<Rightarrow> u32 \<Rightarrow> M68kSize \<Rightarrow> 'h cpu \<Rightarrow> 'h cpu" where
  "update_flags_cmp src dest result sz s =
     (let s = sr_clear (M68K_SR_N OR M68K_SR_Z OR M68K_SR_V OR M68K_SR_C) s;
          msb = msb_mask sz;
          mask = value_mask sz;
          s = sr_set_if (result AND msb \<noteq> 0) M68K_SR_N s;
          s = sr_set_if (result AND mask = 0) M68K_SR_Z s;
          sm = (src AND msb \<noteq> 0);
          dm = (dest AND msb \<noteq> 0);
          rm = (result AND msb \<noteq> 0);
          s = sr_set_if ((\<not> sm \<and> dm \<and> \<not> rm) \<or> (sm \<and> \<not> dm \<and> rm)) M68K_SR_V s
      in sr_set_if ((sm \<and> \<not> dm) \<or> (rm \<and> \<not> dm) \<or> (sm \<and> rm)) M68K_SR_C s)"

definition update_flags_logic :: "u32 \<Rightarrow> M68kSize \<Rightarrow> 'h cpu \<Rightarrow> 'h cpu" where
  "update_flags_logic result sz s =
     (let s = sr_clear (M68K_SR_N OR M68K_SR_Z OR M68K_SR_V OR M68K_SR_C) s;
          s = sr_set_if (result AND msb_mask sz \<noteq> 0) M68K_SR_N s
      in sr_set_if (result AND value_mask sz = 0) M68K_SR_Z s)"

subsection \<open>Conditions\<close>

definition m68k_check_condition :: "nat \<Rightarrow> 'h cpu \<Rightarrow> bool" where
  "m68k_check_condition condition s =
     (let c = sr_flag M68K_SR_C s;
          v = sr_flag M68K_SR_V s;
          z = sr_flag M68K_SR_Z s;
          n = sr_flag M68K_SR_N s
      in if condition = 0 then True
         else if condition = 1 then False
         else if condition = 2 then \<not> c \<and> \<not> z
         else if condition = 3 then c \<or> z
         else if condition = 4 then \<not> c
         else if condition = 5 then c
         else if condition = 6 then \<not> z
         else if condition = 7 then z
         else if condition = 8 then \<not> v
         else if condition = 9 then v
         else if condition = 10 then \<not> n
         else if condition = 11 then n
         else if condition = 12 then (n \<and> v) \<or> (\<not> n \<and> \<not> v)
         else if condition = 13 then (n \<and> \<not> v) \<or> (\<not> n \<and> v)
         else if condition = 14 then (n \<and> v \<and> \<not> z) \<or> (\<not> n \<and> \<not> v \<and> \<not> z)
         else if condition = 15 then z \<or> (n \<and> \<not> v) \<or> (\<not> n \<and> v)
         else False)"

subsection \<open>Size codes and write-back\<close>

text \<open>The two-bit size code of most opcodes; code 3 makes the handlers return.\<close>

definition size_code :: "nat \<Rightarrow> M68kSize option" where
  "size_code size_bits =
     (if size_bits = 0 then Some SIZE_BYTE
      else if size_bits = 1 then Some SIZE_WORD
      else if size_bits = 2 then Some SIZE_LONG
      else None)"

text \<open>\<open>(old & ~mask) | (result & mask)\<close> for the mask of the operand size.\<close>

definition merge_size :: "M68kSize \<Rightarrow> u32 \<Rightarrow> u32 \<Rightarrow> u32" where
  "merge_size sz old result = (old AND NOT (value_mask sz)) OR (result AND value_mask sz)"

text \<open>The write-back \<open>if (ea.is_reg && !ea.is_addr) ... else m68k_write_size(...)\<close>.\<close>

definition write_back ::
  "'h host_callbacks \<Rightarrow> M68kEA \<Rightarrow> u32 \<Rightarrow> M68kSize \<Rightarrow> 'h cpu \<Rightarrow> ('h, unit) out" where
  "write_back env ea result sz s =
     (if is_reg ea \<and> \<not> is_addr ea
      then Ret () (set_d (reg_num ea) (merge_size sz (d_regs s (reg_num ea)) result) s)
      else m68k_write_size env (address ea) result sz s)"

text \<open>The two guards that open most handlers: data-alterable destinations, and sources
  other than an address register.\<close>

definition not_data_alterable :: "nat \<Rightarrow> nat \<Rightarrow> bool" where
  "not_data_alterable mode reg = (mode = 1 \<or> (mode = 7 \<and> reg > 1))"

definition not_data_source :: "nat \<Rightarrow> nat \<Rightarrow> bool" where
  "not_data_source mode reg = (mode = 1 \<or> (mode = 7 \<and> reg > 4))"

text \<open>The immediate operand of ADDI and its relatives.\<close>

definition fetch_immediate :: "'h host_callbacks \<Rightarrow> M68kSize \<Rightarrow> 'h cpu \<Rightarrow> ('h, u32) out" where
  "fetch_immediate env sz s =
     (if sz = SIZE_BYTE then andthen (m68k_fetch env s) (\<lambda>w s. Ret (ucast (w AND 0xFF)) s)
      else if sz = SIZE_WORD then andthen (m68k_fetch env s) (\<lambda>w s. Ret (ucast w) s)
      else fetch_long env s)"

lemma inv_flags:
  assumes "cpu_inv p w c s"
  shows "cpu_inv p w c (update_flags_add a b r sz s)"
    and "cpu_inv p w c (update_flags_sub a b r sz s)"
    and "cpu_inv p w c (update_flags_cmp a b r sz s)"
    and "cpu_inv p w c (update_flags_logic r sz s)"
  using assms
  unfolding update_flags_add_def update_flags_sub_def update_flags_cmp_def
    update_flags_logic_def Let_def
  by (auto intro!: inv_sr_clear inv_sr_set_if inv_sr_upd)

subsection \<open>Safety\<close>

context instruction begin

lemma paid_flags: "paid c s \<Longrightarrow> paid c (update_flags_logic r sz s)"
  by (erule paid_pure) (rule inv_flags)

lemmas paid_intros = paid_spend paid_exception paid_flags

lemma write_back_keeps:
  assumes "cpu_inv p w c s" and bound: "bound_ok t c"
  shows "keeps (cpu_inv p w c) (jump_inv p c) (write_back env ea r sz s)"
  using assms by (auto simp: write_back_def intro!: write_keeps st)

lemma fetch_immediate_keeps:
  assumes "cpu_inv p w c s" and bound: "bound_ok t c"
  shows "keeps (cpu_inv p w c) (jump_inv p c) (fetch_immediate env sz s)"
  using assms
  by (auto simp: fetch_immediate_def intro!: keeps_andthen fetch_keeps fetch_extension_keeps st)

text \<open>Up to their last call handlers stay in a state in which nothing was thrown.\<close>

lemma keeps_bind_fresh:
  "keeps (cpu_inv p fresh c) (jump_inv p c) r \<Longrightarrow>
   (\<And>v s. cpu_inv p fresh c s \<Longrightarrow> keeps J (jump_inv p c) (f v s)) \<Longrightarrow>
   keeps J (jump_inv p c) (andthen r f)"
  by (rule keeps_bind)

lemmas handler_intros = fresh_quiet fresh_exception keeps_bind_fresh calc_ea_keeps
  write_back_keeps fetch_immediate_keeps fetch_keeps read_keeps write_keeps stack_keeps
  inv_flags inv_cycles inv_sr_clear inv_sr_set_if inv_sr_upd st

end

lemma sint_cases:
  fixes w :: "'a::len word"
  shows "sint w = (if sint w < 0 then uint w - 2 ^ LENGTH('a) else uint w)"
    and "sint w < 0 \<longleftrightarrow> 2 ^ (LENGTH('a) - 1) \<le> uint w"
proof -
  let ?n = "LENGTH('a) - 1"
  have n: "Suc ?n = LENGTH('a)" by simp
  have "signed_take_bit ?n (uint w) =
      take_bit LENGTH('a) (uint w) - 2 ^ LENGTH('a) * of_bool (bit (uint w) ?n)"
    using signed_take_bit_eq_take_bit_minus [of ?n "uint w"] by (simp only: n)
  then have e: "sint w = uint w - 2 ^ LENGTH('a) * of_bool (bit w ?n)"
    by (simp add: sint_uint bit_uint_iff take_bit_int_eq_self)
  have b: "bit w ?n \<longleftrightarrow> sint w < 0"
    using bit_last_iff [of w] by simp
  show "sint w = (if sint w < 0 then uint w - 2 ^ LENGTH('a) else uint w)"
    using e b by auto
  have p: "(2::int) ^ LENGTH('a) = 2 * 2 ^ ?n" using n by (metis power_Suc)
  have u: "0 \<le> uint w" "uint w < 2 ^ LENGTH('a)" by simp_all
  have g: "- (2 ^ ?n) \<le> sint w" "sint w < 2 ^ ?n"
    using sint_ge [of w] sint_less [of w] by simp_all
  show "sint w < 0 \<longleftrightarrow> 2 ^ ?n \<le> uint w"
    using e b p u g by (cases "bit w ?n") auto
qed

text \<open>The two carry formulas of the code, on numbers below \<open>2 M\<close> whose sign bit is their
  comparison with \<open>M\<close>.\<close>

lemma carry_int:
  fixes A B C M :: int
  assumes "0 \<le> A" "A < 2 * M" "0 \<le> B" "B < 2 * M" "C = 0 \<or> C = 1"
  defines "R \<equiv> (if 2 * M \<le> A + B + C then A + B + C - 2 * M else A + B + C)"
  shows "2 * M \<le> A + B + C \<longleftrightarrow>
      (M \<le> A \<and> M \<le> B) \<or> (\<not> M \<le> R \<and> M \<le> B) \<or> (M \<le> A \<and> \<not> M \<le> R)"
    and "A' = (if M \<le> A then A - 2 * M else A) \<Longrightarrow> B' = (if M \<le> B then B - 2 * M else B) \<Longrightarrow>
      (A' + B' + C < - M \<or> M \<le> A' + B' + C) \<longleftrightarrow>
      (M \<le> A \<and> M \<le> B \<and> \<not> M \<le> R) \<or> (\<not> M \<le> A \<and> \<not> M \<le> B \<and> M \<le> R)"
    and "R = (A + B + C) mod (2 * M)"
proof -
  show "2 * M \<le> A + B + C \<longleftrightarrow>
      (M \<le> A \<and> M \<le> B) \<or> (\<not> M \<le> R \<and> M \<le> B) \<or> (M \<le> A \<and> \<not> M \<le> R)"
    using assms by auto
  show "A' = (if M \<le> A then A - 2 * M else A) \<Longrightarrow> B' = (if M \<le> B then B - 2 * M else B) \<Longrightarrow>
      (A' + B' + C < - M \<or> M \<le> A' + B' + C) \<longleftrightarrow>
      (M \<le> A \<and> M \<le> B \<and> \<not> M \<le> R) \<or> (\<not> M \<le> A \<and> \<not> M \<le> B \<and> M \<le> R)"
    using assms by auto
  have "(A + B + C) mod (2 * M) = R mod (2 * M)"
    using mod_add_self2 [of "A + B + C - 2 * M" "2 * M"] by (simp add: R_def)
  also have "\<dots> = R" using assms by (intro mod_pos_pos_trivial) auto
  finally show "R = (A + B + C) mod (2 * M)" by simp
qed

lemma borrow_int:
  fixes A B C M :: int
  assumes "0 \<le> A" "A < 2 * M" "0 \<le> B" "B < 2 * M" "C = 0 \<or> C = 1"
  defines "R \<equiv> (if B - A - C < 0 then B - A - C + 2 * M else B - A - C)"
  shows "B < A + C \<longleftrightarrow>
      (M \<le> A \<and> \<not> M \<le> B) \<or> (M \<le> R \<and> \<not> M \<le> B) \<or> (M \<le> A \<and> M \<le> R)"
    and "A' = (if M \<le> A then A - 2 * M else A) \<Longrightarrow> B' = (if M \<le> B then B - 2 * M else B) \<Longrightarrow>
      (B' - A' - C < - M \<or> M \<le> B' - A' - C) \<longleftrightarrow>
      (\<not> M \<le> A \<and> M \<le> B \<and> \<not> M \<le> R) \<or> (M \<le> A \<and> \<not> M \<le> B \<and> M \<le> R)"
    and "R = (B - A - C) mod (2 * M)"
    and "A' = (if M \<le> A then A - 2 * M else A) \<Longrightarrow> B' = (if M \<le> B then B - 2 * M else B) \<Longrightarrow>
      (M \<le> R \<longleftrightarrow> (\<not> M \<le> A \<and> M \<le> B \<and> \<not> M \<le> R) \<or> (M \<le> A \<and> \<not> M \<le> B \<and> M \<le> R)) \<longleftrightarrow>
      A' + C \<le> B'"
proof -
  show "A' = (if M \<le> A then A - 2 * M else A) \<Longrightarrow> B' = (if M \<le> B then B - 2 * M else B) \<Longrightarrow>
      (M \<le> R \<longleftrightarrow> (\<not> M \<le> A \<and> M \<le> B \<and> \<not> M \<le> R) \<or> (M \<le> A \<and> \<not> M \<le> B \<and> M \<le> R)) \<longleftrightarrow>
      A' + C \<le> B'"
    using assms by auto
  show "B < A + C \<longleftrightarrow>
      (M \<le> A \<and> \<not> M \<le> B) \<or> (M \<le> R \<and> \<not> M \<le> B) \<or> (M \<le> A \<and> M \<le> R)"
    using assms by auto
  show "A' = (if M \<le> A then A - 2 * M else A) \<Longrightarrow> B' = (if M \<le> B then B - 2 * M else B) \<Longrightarrow>
      (B' - A' - C < - M \<or> M \<le> B' - A' - C) \<longleftrightarrow>
      (\<not> M \<le> A \<and> M \<le> B \<and> \<not> M \<le> R) \<or> (M \<le> A \<and> \<not> M \<le> B \<and> M \<le> R)"
    using assms by auto
  have "(B - A - C) mod (2 * M) = R mod (2 * M)"
    using mod_add_self2 [of "B - A - C" "2 * M"] by (simp add: R_def)
  also have "\<dots> = R" using assms by (intro mod_pos_pos_trivial) auto
  finally show "R = (B - A - C) mod (2 * M)" by simp
qed

lemma word_half: "(2::int) ^ LENGTH('a::len) = 2 * 2 ^ (LENGTH('a) - 1)"
  by (metis One_nat_def Suc_pred len_gt_0 power_Suc)

lemma sint_half:
  fixes w :: "'a::len word"
  shows "sint w < 0 \<longleftrightarrow> 2 ^ (LENGTH('a) - 1) \<le> uint w"
    and "sint w = (if 2 ^ (LENGTH('a) - 1) \<le> uint w then uint w - 2 * 2 ^ (LENGTH('a) - 1) else uint w)"
  using sint_cases [of w] by (simp_all add: word_half)

lemma uint_below: "uint (w :: 'a::len word) < 2 * 2 ^ (LENGTH('a) - 1)"
  using uint_lt2p [of w] by (simp only: word_half)

lemma add_word_flags:
  fixes a b :: "'a::len word"
  assumes "r = a + b + of_int c" and "c = 0 \<or> c = 1"
  shows "2 ^ LENGTH('a) \<le> uint a + uint b + c \<longleftrightarrow>
      (sint a < 0 \<and> sint b < 0) \<or> (\<not> sint r < 0 \<and> sint b < 0) \<or> (sint a < 0 \<and> \<not> sint r < 0)"
    and "(sint a + sint b + c < - (2 ^ (LENGTH('a) - 1)) \<or> 2 ^ (LENGTH('a) - 1) \<le> sint a + sint b + c) \<longleftrightarrow>
      (sint a < 0 \<and> sint b < 0 \<and> \<not> sint r < 0) \<or> (\<not> sint a < 0 \<and> \<not> sint b < 0 \<and> sint r < 0)"
proof -
  note k = carry_int [OF uint_ge_0 [of a] uint_below [of a] uint_ge_0 [of b] uint_below [of b] assms(2)]
  have "uint r = (uint a + uint b + c) mod 2 ^ LENGTH('a)"
    using assms by (auto simp: uint_word_ariths mod_simps)
  then have r: "uint r = (if 2 * 2 ^ (LENGTH('a) - 1) \<le> uint a + uint b + c
      then uint a + uint b + c - 2 * 2 ^ (LENGTH('a) - 1) else uint a + uint b + c)"
    by (simp only: k(3) word_half)
  show "2 ^ LENGTH('a) \<le> uint a + uint b + c \<longleftrightarrow>
      (sint a < 0 \<and> sint b < 0) \<or> (\<not> sint r < 0 \<and> sint b < 0) \<or> (sint a < 0 \<and> \<not> sint r < 0)"
    unfolding sint_half(1) r word_half by (rule k(1))
  show "(sint a + sint b + c < - (2 ^ (LENGTH('a) - 1)) \<or> 2 ^ (LENGTH('a) - 1) \<le> sint a + sint b + c) \<longleftrightarrow>
      (sint a < 0 \<and> sint b < 0 \<and> \<not> sint r < 0) \<or> (\<not> sint a < 0 \<and> \<not> sint b < 0 \<and> sint r < 0)"
    unfolding sint_half(1) r by (rule k(2) [OF sint_half(2) sint_half(2)])
qed

lemma sub_word_flags:
  fixes a b :: "'a::len word"
  assumes "r = b - a - of_int c" and "c = 0 \<or> c = 1"
  shows "uint b < uint a + c \<longleftrightarrow>
      (sint a < 0 \<and> \<not> sint b < 0) \<or> (sint r < 0 \<and> \<not> sint b < 0) \<or> (sint a < 0 \<and> sint r < 0)"
    and "(sint b - sint a - c < - (2 ^ (LENGTH('a) - 1)) \<or> 2 ^ (LENGTH('a) - 1) \<le> sint b - sint a - c) \<longleftrightarrow>
      (\<not> sint a < 0 \<and> sint b < 0 \<and> \<not> sint r < 0) \<or> (sint a < 0 \<and> \<not> sint b < 0 \<and> sint r < 0)"
    and "(sint r < 0 \<longleftrightarrow> (\<not> sint a < 0 \<and> sint b < 0 \<and> \<not> sint r < 0) \<or> (sint a < 0 \<and> \<not> sint b < 0 \<and> sint r < 0)) \<longleftrightarrow>
      sint a + c \<le> sint b"
proof -
  note k = borrow_int [OF uint_ge_0 [of a] uint_below [of a] uint_ge_0 [of b] uint_below [of b] assms(2)]
  have "uint r = (uint b - uint a - c) mod 2 ^ LENGTH('a)"
    using assms by (auto simp: uint_word_ariths mod_simps)
  then have r: "uint r = (if uint b - uint a - c < 0
      then uint b - uint a - c + 2 * 2 ^ (LENGTH('a) - 1) else uint b - uint a - c)"
    by (simp only: k(3) word_half)
  show "uint b < uint a + c \<longleftrightarrow>
      (sint a < 0 \<and> \<not> sint b < 0) \<or> (sint r < 0 \<and> \<not> sint b < 0) \<or> (sint a < 0 \<and> sint r < 0)"
    unfolding sint_half(1) r by (rule k(1))
  show "(sint b - sint a - c < - (2 ^ (LENGTH('a) - 1)) \<or> 2 ^ (LENGTH('a) - 1) \<le> sint b - sint a - c) \<longleftrightarrow>
      (\<not> sint a < 0 \<and> sint b < 0 \<and> \<not> sint r < 0) \<or> (sint a < 0 \<and> \<not> sint b < 0 \<and> sint r < 0)"
    unfolding sint_half(1) r by (rule k(2) [OF sint_half(2) sint_half(2)])
  show "(sint r < 0 \<longleftrightarrow> (\<not> sint a < 0 \<and> sint b < 0 \<and> \<not> sint r < 0) \<or> (sint a < 0 \<and> \<not> sint b < 0 \<and> sint r < 0)) \<longleftrightarrow>
      sint a + c \<le> sint b"
    unfolding sint_half(1) r by (rule k(4) [OF sint_half(2) sint_half(2)])
qed

subsection \<open>What the flags mean\<close>

text \<open>The low byte, word or long of a value as an unsigned and as a signed number.\<close>

definition operand_bits :: "M68kSize \<Rightarrow> nat" where
  "operand_bits sz = (case sz of SIZE_BYTE \<Rightarrow> 8 | SIZE_WORD \<Rightarrow> 16 | SIZE_LONG \<Rightarrow> 32)"

definition uval :: "M68kSize \<Rightarrow> u32 \<Rightarrow> int" where
  "uval sz x = (case sz of SIZE_BYTE \<Rightarrow> uint (ucast x :: u8) | SIZE_WORD \<Rightarrow> uint (ucast x :: u16)
     | SIZE_LONG \<Rightarrow> uint x)"

definition sval :: "M68kSize \<Rightarrow> u32 \<Rightarrow> int" where
  "sval sz x = (case sz of SIZE_BYTE \<Rightarrow> sint (ucast x :: u8) | SIZE_WORD \<Rightarrow> sint (ucast x :: u16)
     | SIZE_LONG \<Rightarrow> sint x)"

lemma msb_sval: "(x AND msb_mask sz \<noteq> 0) = (sval sz x < 0)"
proof -
  have "(x AND 2 ^ n \<noteq> 0) = bit x n" for n
    using and_exp_eq_0_iff_not_bit [of x n] by simp
  from this [of 7] this [of 15] this [of 31] show ?thesis
    using bit_last_iff [of "ucast x :: u8"] bit_last_iff [of "ucast x :: u16"] bit_last_iff [of x]
    by (cases sz) (simp_all add: sval_def bit_simps)
qed

lemma word_and: "ucast ((w :: u32) AND 0xFFFF) = (ucast w :: u16)"
proof -
  have "w AND 0xFFFF = w AND mask 16" by (simp add: mask_eq_exp_minus_1)
  then show ?thesis
    by (simp only:) (rule bit_word_eqI, auto simp: bit_simps)
qed

lemma mask_uval: "(x AND value_mask sz = 0) = (uval sz x = 0)"
proof -
  have "x AND 0xFF = 0 \<longleftrightarrow> ucast x = (0 :: u8)" "x AND 0xFFFF = 0 \<longleftrightarrow> ucast x = (0 :: u16)"
    using byte_and [of x] word_and [of x] cast_u8 [of x] cast_u16 [of x]
    by (metis unsigned_0)+
  then show ?thesis by (cases sz) (simp_all add: uval_def uint_0_iff)
qed

lemma narrow_add: "ucast (a + b + of_int c :: u32) = (ucast a + ucast b + of_int c :: u8)"
  "ucast (a + b + of_int c :: u32) = (ucast a + ucast b + of_int c :: u16)"
  "ucast (b - a - of_int c :: u32) = (ucast b - ucast a - of_int c :: u8)"
  "ucast (b - a - of_int c :: u32) = (ucast b - ucast a - of_int c :: u16)"
  using cast_of_int [of "uint a + uint b + c"] cast_of_int [of "uint b - uint a - c"]
    cast_of_int [of "uint a"] cast_of_int [of "uint b"]
  by simp_all

lemma add_flags_int:
  assumes "r = a + b + of_int c" and "c = 0 \<or> c = 1"
  shows "2 ^ operand_bits sz \<le> uval sz a + uval sz b + c \<longleftrightarrow>
      (sval sz a < 0 \<and> sval sz b < 0) \<or> (\<not> sval sz r < 0 \<and> sval sz b < 0) \<or>
      (sval sz a < 0 \<and> \<not> sval sz r < 0)"
    and "(sval sz a + sval sz b + c < - (2 ^ (operand_bits sz - 1)) \<or>
       2 ^ (operand_bits sz - 1) \<le> sval sz a + sval sz b + c) \<longleftrightarrow>
      (sval sz a < 0 \<and> sval sz b < 0 \<and> \<not> sval sz r < 0) \<or>
      (\<not> sval sz a < 0 \<and> \<not> sval sz b < 0 \<and> sval sz r < 0)"
proof -
  note b = add_word_flags [OF arg_cong [OF assms(1), where f = "ucast :: u32 \<Rightarrow> u8", unfolded narrow_add] assms(2)]
  note w = add_word_flags [OF arg_cong [OF assms(1), where f = "ucast :: u32 \<Rightarrow> u16", unfolded narrow_add] assms(2)]
  note l = add_word_flags [OF assms]
  show "2 ^ operand_bits sz \<le> uval sz a + uval sz b + c \<longleftrightarrow>
      (sval sz a < 0 \<and> sval sz b < 0) \<or> (\<not> sval sz r < 0 \<and> sval sz b < 0) \<or>
      (sval sz a < 0 \<and> \<not> sval sz r < 0)"
    using b(1) w(1) l(1) by (cases sz) (simp_all add: operand_bits_def uval_def sval_def)
  show "(sval sz a + sval sz b + c < - (2 ^ (operand_bits sz - 1)) \<or>
       2 ^ (operand_bits sz - 1) \<le> sval sz a + sval sz b + c) \<longleftrightarrow>
      (sval sz a < 0 \<and> sval sz b < 0 \<and> \<not> sval sz r < 0) \<or>
      (\<not> sval sz a < 0 \<and> \<not> sval sz b < 0 \<and> sval sz r < 0)"
    using b(2) w(2) l(2) by (cases sz) (simp_all add: operand_bits_def sval_def)
qed

lemma sub_flags_int:
  assumes "r = b - a - of_int c" and "c = 0 \<or> c = 1"
  shows "uval sz b < uval sz a + c \<longleftrightarrow>
      (sval sz a < 0 \<and> \<not> sval sz b < 0) \<or> (sval sz r < 0 \<and> \<not> sval sz b < 0) \<or>
      (sval sz a < 0 \<and> sval sz r < 0)"
    and "(sval sz b - sval sz a - c < - (2 ^ (operand_bits sz - 1)) \<or>
       2 ^ (operand_bits sz - 1) \<le> sval sz b - sval sz a - c) \<longleftrightarrow>
      (\<not> sval sz a < 0 \<and> sval sz b < 0 \<and> \<not> sval sz r < 0) \<or>
      (sval sz a < 0 \<and> \<not> sval sz b < 0 \<and> sval sz r < 0)"
    and "(sval sz r < 0 \<longleftrightarrow> (\<not> sval sz a < 0 \<and> sval sz b < 0 \<and> \<not> sval sz r < 0) \<or>
      (sval sz a < 0 \<and> \<not> sval sz b < 0 \<and> sval sz r < 0)) \<longleftrightarrow> sval sz a + c \<le> sval sz b"
proof -
  note b = sub_word_flags [OF arg_cong [OF assms(1), where f = "ucast :: u32 \<Rightarrow> u8", unfolded narrow_add] assms(2)]
  note w = sub_word_flags [OF arg_cong [OF assms(1), where f = "ucast :: u32 \<Rightarrow> u16", unfolded narrow_add] assms(2)]
  note l = sub_word_flags [OF assms]
  show "uval sz b < uval sz a + c \<longleftrightarrow>
      (sval sz a < 0 \<and> \<not> sval sz b < 0) \<or> (sval sz r < 0 \<and> \<not> sval sz b < 0) \<or>
      (sval sz a < 0 \<and> sval sz r < 0)"
    using b(1) w(1) l(1) by (cases sz) (simp_all add: uval_def sval_def)
  show "(sval sz b - sval sz a - c < - (2 ^ (operand_bits sz - 1)) \<or>
       2 ^ (operand_bits sz - 1) \<le> sval sz b - sval sz a - c) \<longleftrightarrow>
      (\<not> sval sz a < 0 \<and> sval sz b < 0 \<and> \<not> sval sz r < 0) \<or>
      (sval sz a < 0 \<and> \<not> sval sz b < 0 \<and> sval sz r < 0)"
    using b(2) w(2) l(2) by (cases sz) (simp_all add: operand_bits_def sval_def)
  show "(sval sz r < 0 \<longleftrightarrow> (\<not> sval sz a < 0 \<and> sval sz b < 0 \<and> \<not> sval sz r < 0) \<or>
      (sval sz a < 0 \<and> \<not> sval sz b < 0 \<and> sval sz r < 0)) \<longleftrightarrow> sval sz a + c \<le> sval sz b"
    using b(3) w(3) l(3) by (cases sz) (simp_all add: sval_def)
qed

lemma word_values:
  fixes a b :: "'a::len word"
  shows "sint a = sint b \<longleftrightarrow> a = b" "uint a = uint b \<longleftrightarrow> a = b" "uint a = 0 \<longleftrightarrow> a = 0"
  by (auto intro: signed_word_eqI unsigned_word_eqI simp: uint_0_iff)

lemma sval_uval: "sval sz a = sval sz b \<longleftrightarrow> uval sz a = uval sz b"
  by (cases sz) (simp_all add: uval_def sval_def word_values)

lemma uval_diff: "uval sz (b - a) = 0 \<longleftrightarrow> uval sz b = uval sz a"
  using narrow_add(3,4) [of b a 0] by (cases sz) (simp_all add: uval_def word_values del: uint_0_iff)

text \<open>Reading the status register after its bits were cleared and set.\<close>

lemma sr_flag_or [simp]: "sr_flag m (s\<lparr>sr := w OR m'\<rparr>) = (sr_flag m (s\<lparr>sr := w\<rparr>) \<or> m' AND m \<noteq> 0)"
  by (simp add: sr_flag_def bit.conj_disj_distrib2 or_eq_0_iff)

lemma sr_flag_set_if [simp]: "sr_flag m (sr_set_if b m' s) = (sr_flag m s \<or> b \<and> m' AND m \<noteq> 0)"
  by (simp add: sr_set_if_def sr_flag_def bit.conj_disj_distrib2 or_eq_0_iff)

lemma sr_flag_clear: "sr_flag m (sr_clear m' s) = (sr s AND (NOT m' AND m) \<noteq> 0)"
  by (simp add: sr_flag_def sr_clear_def and.assoc)

text \<open>Only condition codes differ.\<close>

definition ccr_only :: "'h cpu \<Rightarrow> 'h cpu \<Rightarrow> bool" where
  "ccr_only s s' \<longleftrightarrow> (\<exists>w. s' = s\<lparr>sr := w\<rparr> \<and> w AND 0xFFE0 = sr s AND 0xFFE0)"

lemma ccr_only_refl [simp]: "ccr_only s s"
  unfolding ccr_only_def by (rule exI [of _ "sr s"]) simp

lemma ccr_only_trans: "ccr_only s s' \<Longrightarrow> ccr_only s' s'' \<Longrightarrow> ccr_only s s''"
  unfolding ccr_only_def by auto

lemma and_or_outside: "m AND k = 0 \<Longrightarrow> (w OR m) AND k = (w :: u16) AND k"
  by (simp add: bit.conj_disj_distrib2)

lemma and_not_outside: "m AND k = 0 \<Longrightarrow> (w AND NOT m) AND k = (w :: u16) AND k"
proof -
  assume a: "m AND k = 0"
  have "(w AND NOT m) AND k = w AND (k AND NOT m)" by (simp only: ac_simps)
  also have "k AND NOT m = k"
    using a by (intro bit_word_eqI) (auto simp: bit_eq_iff [of "m AND k"] bit_simps)
  finally show ?thesis by simp
qed

lemma sr_flag_clear_other: "m' AND m = 0 \<Longrightarrow> sr_flag m (sr_clear m' s) = sr_flag m s"
  using and_not_outside [of m' m "sr s"] by (simp add: sr_flag_def sr_clear_def)

lemma sr_flag_clear_same: "NOT m' AND m = 0 \<Longrightarrow> \<not> sr_flag m (sr_clear m' s)"
  by (simp add: sr_flag_clear)

lemma sr_flag_registers [simp]: "sr_flag m (s\<lparr>d_regs := d\<rparr>) = sr_flag m s"
  by (simp add: sr_flag_def)

lemma ccr_only_steps [intro]:
  "m AND 0xFFE0 = 0 \<Longrightarrow> ccr_only s s' \<Longrightarrow> ccr_only s (sr_set_if b m s')"
  "m AND 0xFFE0 = 0 \<Longrightarrow> ccr_only s s' \<Longrightarrow> ccr_only s (sr_clear m s')"
  "m AND 0xFFE0 = 0 \<Longrightarrow> ccr_only s s' \<Longrightarrow> ccr_only s (s'\<lparr>sr := sr s' OR m\<rparr>)"
  by (auto simp: ccr_only_def sr_set_if_def sr_clear_def and_or_outside and_not_outside)

lemma ccr_only_if: "ccr_only s x \<Longrightarrow> ccr_only s y \<Longrightarrow> ccr_only s (if b then x else y)"
  by simp

lemma ccr_only_flags:
  "ccr_only s (update_flags_add src dest r sz s)" "ccr_only s (update_flags_sub src dest r sz s)"
  "ccr_only s (update_flags_cmp src dest r sz s)" "ccr_only s (update_flags_logic r sz s)"
  unfolding update_flags_add_def update_flags_sub_def update_flags_cmp_def
    update_flags_logic_def Let_def
  by ((intro ccr_only_if ccr_only_steps ccr_only_refl; simp add: sr_bit_defs)+)

lemma update_flags_add_bits:
  assumes "s' = update_flags_add src dest result sz s"
  shows "sr_flag M68K_SR_N s' = (sval sz result < 0)" "sr_flag M68K_SR_Z s' = (uval sz result = 0)"
    and "sr_flag M68K_SR_V s' =
      ((sval sz src < 0 \<and> sval sz dest < 0 \<and> \<not> sval sz result < 0) \<or>
       (\<not> sval sz src < 0 \<and> \<not> sval sz dest < 0 \<and> sval sz result < 0))"
    and "sr_flag M68K_SR_C s' =
      ((sval sz src < 0 \<and> sval sz dest < 0) \<or> (\<not> sval sz result < 0 \<and> sval sz dest < 0) \<or>
       (sval sz src < 0 \<and> \<not> sval sz result < 0))"
    and "sr_flag M68K_SR_X s' = sr_flag M68K_SR_C s'"
  unfolding assms update_flags_add_def Let_def msb_sval mask_uval
  by (auto simp: sr_flag_clear sr_bit_defs)

lemma update_flags_sub_bits:
  assumes "s' = update_flags_sub src dest result sz s"
  shows "sr_flag M68K_SR_N s' = (sval sz result < 0)" "sr_flag M68K_SR_Z s' = (uval sz result = 0)"
    and "sr_flag M68K_SR_V s' =
      ((\<not> sval sz src < 0 \<and> sval sz dest < 0 \<and> \<not> sval sz result < 0) \<or>
       (sval sz src < 0 \<and> \<not> sval sz dest < 0 \<and> sval sz result < 0))"
    and "sr_flag M68K_SR_C s' =
      ((sval sz src < 0 \<and> \<not> sval sz dest < 0) \<or> (sval sz result < 0 \<and> \<not> sval sz dest < 0) \<or>
       (sval sz src < 0 \<and> sval sz result < 0))"
    and "sr_flag M68K_SR_X s' = sr_flag M68K_SR_C s'"
  unfolding assms update_flags_sub_def Let_def msb_sval mask_uval
  by (auto simp: sr_flag_clear sr_bit_defs)

lemma update_flags_cmp_bits:
  assumes "s' = update_flags_cmp src dest result sz s"
  shows "sr_flag M68K_SR_N s' = (sval sz result < 0)" "sr_flag M68K_SR_Z s' = (uval sz result = 0)"
    and "sr_flag M68K_SR_V s' =
      ((\<not> sval sz src < 0 \<and> sval sz dest < 0 \<and> \<not> sval sz result < 0) \<or>
       (sval sz src < 0 \<and> \<not> sval sz dest < 0 \<and> sval sz result < 0))"
    and "sr_flag M68K_SR_C s' =
      ((sval sz src < 0 \<and> \<not> sval sz dest < 0) \<or> (sval sz result < 0 \<and> \<not> sval sz dest < 0) \<or>
       (sval sz src < 0 \<and> sval sz result < 0))"
    and "sr_flag M68K_SR_X s' = sr_flag M68K_SR_X s"
  unfolding assms update_flags_cmp_def Let_def msb_sval mask_uval
  by (auto simp: sr_flag_clear sr_bit_defs) (auto simp: sr_flag_def)

text \<open>C8: The flags of an addition, for every operand size and with or without the extend bit
  added: carry and extend say that the unsigned sum does not fit the operand size, overflow
  that the signed sum does not, N and Z describe the result, and nothing else changes.\<close>

theorem update_flags_add_meaning:
  assumes "result = dest + src + of_int x" and "x = 0 \<or> x = 1"
    and "s' = update_flags_add src dest result sz s"
  shows "sr_flag M68K_SR_C s' = (2 ^ operand_bits sz \<le> uval sz dest + uval sz src + x) \<and>
    sr_flag M68K_SR_X s' = sr_flag M68K_SR_C s' \<and>
    sr_flag M68K_SR_V s' = (sval sz dest + sval sz src + x < - (2 ^ (operand_bits sz - 1)) \<or>
      2 ^ (operand_bits sz - 1) \<le> sval sz dest + sval sz src + x) \<and>
    sr_flag M68K_SR_N s' = (sval sz result < 0) \<and> sr_flag M68K_SR_Z s' = (uval sz result = 0) \<and>
    ccr_only s s'"
  unfolding update_flags_add_bits [OF assms(3)]
  using ccr_only_flags(1) [of s src dest result sz] assms(3) add_flags_int [OF assms(1,2), of sz] by blast

lemma update_flags_add_meaning_witness:
  "sr_flag M68K_SR_C (update_flags_add 0xFF 0x01 0x100 SIZE_BYTE trap_state) \<and>
   \<not> sr_flag M68K_SR_V (update_flags_add 0xFF 0x01 0x100 SIZE_BYTE trap_state)"
  using update_flags_add_meaning [of "0x100" 1 "0xFF" 0 _ SIZE_BYTE trap_state]
  by (simp add: uval_def sval_def operand_bits_def)

text \<open>C9: The flags of a subtraction, for every operand size and with or without the extend bit
  subtracted: carry and extend say that the unsigned difference is negative (a borrow),
  overflow that the signed difference does not fit the operand size, N and Z describe the
  result, and nothing else changes.\<close>

theorem update_flags_sub_meaning:
  assumes "result = dest - src - of_int x" and "x = 0 \<or> x = 1"
    and "s' = update_flags_sub src dest result sz s"
  shows "sr_flag M68K_SR_C s' = (uval sz dest < uval sz src + x) \<and>
    sr_flag M68K_SR_X s' = sr_flag M68K_SR_C s' \<and>
    sr_flag M68K_SR_V s' = (sval sz dest - sval sz src - x < - (2 ^ (operand_bits sz - 1)) \<or>
      2 ^ (operand_bits sz - 1) \<le> sval sz dest - sval sz src - x) \<and>
    sr_flag M68K_SR_N s' = (sval sz result < 0) \<and> sr_flag M68K_SR_Z s' = (uval sz result = 0) \<and>
    ccr_only s s'"
  unfolding update_flags_sub_bits [OF assms(3)]
  using ccr_only_flags(2) [of s src dest result sz] assms(3) sub_flags_int [OF assms(1,2), of sz]
  by blast

lemma update_flags_sub_meaning_witness:
  "sr_flag M68K_SR_C (update_flags_sub 2 1 0xFFFFFFFF SIZE_WORD trap_state) \<and>
   sr_flag M68K_SR_X (update_flags_sub 2 1 0xFFFFFFFF SIZE_WORD trap_state)"
  using update_flags_sub_meaning [of "0xFFFFFFFF" 1 2 0 _ SIZE_WORD trap_state]
  by (simp add: uval_def sval_def operand_bits_def)

lemma condition_flags:
  "m68k_check_condition 2 s = (\<not> sr_flag M68K_SR_C s \<and> \<not> sr_flag M68K_SR_Z s)"
  "m68k_check_condition 3 s = (sr_flag M68K_SR_C s \<or> sr_flag M68K_SR_Z s)"
  "m68k_check_condition 4 s = (\<not> sr_flag M68K_SR_C s)"
  "m68k_check_condition 5 s = sr_flag M68K_SR_C s"
  "m68k_check_condition 6 s = (\<not> sr_flag M68K_SR_Z s)"
  "m68k_check_condition 7 s = sr_flag M68K_SR_Z s"
  "m68k_check_condition 8 s = (\<not> sr_flag M68K_SR_V s)"
  "m68k_check_condition 9 s = sr_flag M68K_SR_V s"
  "m68k_check_condition 12 s = (sr_flag M68K_SR_N s = sr_flag M68K_SR_V s)"
  "m68k_check_condition 13 s = (sr_flag M68K_SR_N s \<noteq> sr_flag M68K_SR_V s)"
  "m68k_check_condition 14 s = (sr_flag M68K_SR_N s = sr_flag M68K_SR_V s \<and> \<not> sr_flag M68K_SR_Z s)"
  "m68k_check_condition 15 s = (sr_flag M68K_SR_N s \<noteq> sr_flag M68K_SR_V s \<or> sr_flag M68K_SR_Z s)"
  by (simp_all add: m68k_check_condition_def Let_def) blast+

text \<open>C10: The conditions after a comparison compare: after comparing \<open>dest\<close> with \<open>src\<close> at a size,
  the conditions of Bcc, DBcc and Scc decide the unsigned order (HI, LS, CC, CS), equality
  (NE, EQ) and the signed order (GE, LT, GT, LE) of the operands, VC and VS whether their
  signed difference fits the size or not; extend and the system byte are left as they were.\<close>

theorem conditions_after_cmp:
  assumes "s' = update_flags_cmp src dest (dest - src) sz s"
  shows "m68k_check_condition 2 s' = (uval sz dest > uval sz src) \<and>
    m68k_check_condition 3 s' = (uval sz dest \<le> uval sz src) \<and>
    m68k_check_condition 4 s' = (uval sz dest \<ge> uval sz src) \<and>
    m68k_check_condition 5 s' = (uval sz dest < uval sz src) \<and>
    m68k_check_condition 6 s' = (uval sz dest \<noteq> uval sz src) \<and>
    m68k_check_condition 7 s' = (uval sz dest = uval sz src) \<and>
    m68k_check_condition 8 s' = (- (2 ^ (operand_bits sz - 1)) \<le> sval sz dest - sval sz src \<and>
      sval sz dest - sval sz src < 2 ^ (operand_bits sz - 1)) \<and>
    m68k_check_condition 9 s' = (sval sz dest - sval sz src < - (2 ^ (operand_bits sz - 1)) \<or>
      2 ^ (operand_bits sz - 1) \<le> sval sz dest - sval sz src) \<and>
    m68k_check_condition 12 s' = (sval sz dest \<ge> sval sz src) \<and>
    m68k_check_condition 13 s' = (sval sz dest < sval sz src) \<and>
    m68k_check_condition 14 s' = (sval sz dest > sval sz src) \<and>
    m68k_check_condition 15 s' = (sval sz dest \<le> sval sz src) \<and>
    sr_flag M68K_SR_X s' = sr_flag M68K_SR_X s \<and> ccr_only s s'"
proof -
  have r: "dest - src = dest - src - of_int 0" by simp
  note b = update_flags_cmp_bits [OF assms]
  note f = sub_flags_int [OF r disjI1 [OF refl], of sz]
  have c: "sr_flag M68K_SR_C s' = (uval sz dest < uval sz src)" using b(4) f(1) by simp
  have z: "sr_flag M68K_SR_Z s' = (uval sz dest = uval sz src)"
    and zs: "sr_flag M68K_SR_Z s' = (sval sz dest = sval sz src)"
    using b(2) by (simp_all add: uval_diff sval_uval)
  have d: "(sr_flag M68K_SR_N s' = sr_flag M68K_SR_V s') = (sval sz src \<le> sval sz dest)"
    using b(1,3) f(3) by simp
  have v: "sr_flag M68K_SR_V s' = (sval sz dest - sval sz src < - (2 ^ (operand_bits sz - 1)) \<or>
      2 ^ (operand_bits sz - 1) \<le> sval sz dest - sval sz src)" using b(3) f(2) by simp
  have k: "ccr_only s s'" by (simp add: assms ccr_only_flags(3))
  have "m68k_check_condition 2 s' = (uval sz dest > uval sz src)"
    "m68k_check_condition 3 s' = (uval sz dest \<le> uval sz src)"
    "m68k_check_condition 4 s' = (uval sz dest \<ge> uval sz src)"
    using c z by (auto simp: condition_flags)
  moreover have "m68k_check_condition 12 s' = (sval sz dest \<ge> sval sz src)"
    "m68k_check_condition 13 s' = (sval sz dest < sval sz src)"
    "m68k_check_condition 14 s' = (sval sz dest > sval sz src)"
    "m68k_check_condition 15 s' = (sval sz dest \<le> sval sz src)"
    using d zs by (auto simp: condition_flags)
  moreover have "m68k_check_condition 8 s' = (- (2 ^ (operand_bits sz - 1)) \<le> sval sz dest - sval sz src \<and>
      sval sz dest - sval sz src < 2 ^ (operand_bits sz - 1))"
    using v by (simp add: condition_flags not_less not_le)
  moreover have "m68k_check_condition 9 s' = (sval sz dest - sval sz src < - (2 ^ (operand_bits sz - 1)) \<or>
      2 ^ (operand_bits sz - 1) \<le> sval sz dest - sval sz src)"
    using v by (simp add: condition_flags)
  ultimately show ?thesis
    using k b(5) c z by (simp add: condition_flags)
qed

lemma conditions_after_cmp_witness:
  "m68k_check_condition 2 (update_flags_cmp 1 0x80 (0x80 - 1) SIZE_BYTE trap_state) \<and>
   m68k_check_condition 13 (update_flags_cmp 1 0x80 (0x80 - 1) SIZE_BYTE trap_state)"
  using conditions_after_cmp [OF refl, of 1 "0x80" SIZE_BYTE trap_state]
  by (simp add: uval_def sval_def)

subsection \<open>Register operands\<close>

lemma update_flags_logic_bits:
  "sr_flag M68K_SR_N (update_flags_logic r sz s) = (sval sz r < 0)"
  "sr_flag M68K_SR_Z (update_flags_logic r sz s) = (uval sz r = 0)"
  "\<not> sr_flag M68K_SR_V (update_flags_logic r sz s)" "\<not> sr_flag M68K_SR_C (update_flags_logic r sz s)"
  "sr_flag M68K_SR_X (update_flags_logic r sz s) = sr_flag M68K_SR_X s"
  unfolding update_flags_logic_def Let_def msb_sval mask_uval
  by (auto simp: sr_flag_clear sr_bit_defs) (auto simp: sr_flag_def)

lemma flags_registers [simp]:
  "d_regs (update_flags_logic r sz s) = d_regs s" "a_regs (update_flags_logic r sz s) = a_regs s"
  "pc (update_flags_logic r sz s) = pc s"
  "d_regs (update_flags_add a b r sz s) = d_regs s" "a_regs (update_flags_add a b r sz s) = a_regs s"
  "pc (update_flags_add a b r sz s) = pc s"
  "d_regs (update_flags_sub a b r sz s) = d_regs s" "a_regs (update_flags_sub a b r sz s) = a_regs s"
  "pc (update_flags_sub a b r sz s) = pc s"
  "d_regs (update_flags_cmp a b r sz s) = d_regs s" "a_regs (update_flags_cmp a b r sz s) = a_regs s"
  "pc (update_flags_cmp a b r sz s) = pc s"
  by (simp_all add: update_flags_logic_def update_flags_add_def update_flags_sub_def
      update_flags_cmp_def sr_set_if_def sr_clear_def Let_def)

lemma calc_ea_dn [simp]:
  "m68k_calc_ea env 0 r sz s = Ret (zero_ea\<lparr>is_reg := True, reg_num := r, ea_value := d_regs s r\<rparr>) s"
  by (simp add: m68k_calc_ea_def m68k_calc_ea_ex_def set_fault_pc_def Let_def m68k_ea_cycles_def
      m68k_ea_cycle_table_def zero_ea_def)

lemma ea_of_dn [simp]:
  "ea_value (zero_ea\<lparr>is_reg := True, reg_num := r, ea_value := v\<rparr>) = v"
  "is_reg (zero_ea\<lparr>is_reg := True, reg_num := r, ea_value := v\<rparr>)"
  "\<not> is_addr (zero_ea\<lparr>is_reg := True, reg_num := r, ea_value := v\<rparr>)"
  "reg_num (zero_ea\<lparr>is_reg := True, reg_num := r, ea_value := v\<rparr>) = r"
  by (simp_all add: zero_ea_def)

lemma uint_low_word: "uint ((v :: u32) AND 0xFFFF) = uint (ucast v :: u16)"
  using uint_up_ucast [of "ucast v :: u16", where 'b = 32]
  by (simp add: cast_u16 [symmetric] is_up_def source_size_def target_size_def word_size)

end
