(* ===== verification/M68k_Arith.thy ===== *)
theory M68k_Arith
  imports M68k_Flags "HOL-Library.Signed_Division"
begin

section \<open>Arithmetic instructions\<close>

text \<open>
  The handlers of \<open>src/m68k/ops_arith.c\<close>, one definition per handler and in the
  same order: ADD, SUB, ADDQ, SUBQ, ADDX, SUBX, MULU/MULS, DIVU/DIVS, CMP and CMPM, CMPI,
  NEG, EXT, ABCD, SBCD, NBCD, ADDI, SUBI, NEGX. A handler takes the callbacks, the opcode
  and the context, and has the outcome of the C function. The theorems state what
  multiplication, division and the decimal operations compute, over the integers.
\<close>

subsection \<open>ADD and SUB\<close>

text \<open>The operand size and the direction (register to effective address) of an opmode.\<close>

definition alu_opmode :: "nat \<Rightarrow> M68kSize \<times> bool" where
  "alu_opmode opmode =
     (if opmode = 0 then (SIZE_BYTE, False)
      else if opmode = 1 then (SIZE_WORD, False)
      else if opmode = 2 then (SIZE_LONG, False)
      else if opmode = 3 then (SIZE_WORD, False)
      else if opmode = 4 then (SIZE_BYTE, True)
      else if opmode = 5 then (SIZE_WORD, True)
      else if opmode = 6 then (SIZE_LONG, True)
      else (SIZE_LONG, False))"

text \<open>The invalid effective addresses of the two directions.\<close>

definition alu_invalid :: "bool \<Rightarrow> nat \<Rightarrow> nat \<Rightarrow> M68kSize \<Rightarrow> bool" where
  "alu_invalid dir_reg_to_ea mode reg sz =
     ((dir_reg_to_ea \<and> (mode < 2 \<or> (mode = 7 \<and> reg > 1))) \<or>
      (\<not> dir_reg_to_ea \<and> ((mode = 1 \<and> sz = SIZE_BYTE) \<or> (mode = 7 \<and> reg > 4))))"

definition m68k_exec_add :: "'h host_callbacks \<Rightarrow> u16 \<Rightarrow> 'h cpu \<Rightarrow> ('h, unit) out" where
  "m68k_exec_add env opcode s =
     (let reg_idx = bits opcode 9 0x7;
          opmode = bits opcode 6 0x7;
          mode = bits opcode 3 0x7;
          reg = bits opcode 0 0x7;
          (sz, dir_reg_to_ea) = alu_opmode opmode
      in if opmode = 3 \<or> opmode = 7
      then (if mode = 7 \<and> reg > 4 then m68k_exception env 4 s
            else andthen (m68k_calc_ea env mode reg sz s) (\<lambda>ea s.
                 let src = ea_value ea;
                     src = (if sz = SIZE_WORD then sext16 src else src)
                 in Ret () (set_a reg_idx (a_regs s reg_idx + src) s)))
      else if alu_invalid dir_reg_to_ea mode reg sz then m68k_exception env 4 s
      else andthen (m68k_calc_ea env mode reg sz s) (\<lambda>ea s.
        if dir_reg_to_ea
        then (let src = d_regs s reg_idx;
                  dest = ea_value ea;
                  result = dest + src
              in andthen (if is_reg ea \<and> \<not> is_addr ea
                          then Ret () (set_d (reg_num ea)
                                 (merge_size sz (d_regs s (reg_num ea)) result) s)
                          else if is_reg ea \<and> is_addr ea then Ret () s
                          else m68k_write_size env (address ea) result sz s) (\<lambda>_ s.
                 Ret () (update_flags_add src dest result sz s)))
        else (let src = ea_value ea;
                  dest = d_regs s reg_idx;
                  result = dest + src;
                  s = set_d reg_idx (merge_size sz dest result) s
              in Ret () (update_flags_add src dest result sz s))))"

definition m68k_exec_sub :: "'h host_callbacks \<Rightarrow> u16 \<Rightarrow> 'h cpu \<Rightarrow> ('h, unit) out" where
  "m68k_exec_sub env opcode s =
     (let reg_idx = bits opcode 9 0x7;
          opmode = bits opcode 6 0x7;
          mode = bits opcode 3 0x7;
          reg = bits opcode 0 0x7;
          (sz, dir_reg_to_ea) = alu_opmode opmode
      in if opmode = 3 \<or> opmode = 7
      then (if mode = 7 \<and> reg > 4 then m68k_exception env 4 s
            else andthen (m68k_calc_ea env mode reg sz s) (\<lambda>ea s.
                 let src = ea_value ea;
                     src = (if sz = SIZE_WORD then sext16 src else src)
                 in Ret () (set_a reg_idx (a_regs s reg_idx - src) s)))
      else if alu_invalid dir_reg_to_ea mode reg sz then m68k_exception env 4 s
      else andthen (m68k_calc_ea env mode reg sz s) (\<lambda>ea s.
        if dir_reg_to_ea
        then (let src = d_regs s reg_idx;
                  dest = ea_value ea;
                  result = dest - src
              in andthen (write_back env ea result sz s) (\<lambda>_ s.
                 Ret () (update_flags_sub src dest result sz s)))
        else (let src = ea_value ea;
                  dest = d_regs s reg_idx;
                  result = dest - src;
                  s = set_d reg_idx (merge_size sz dest result) s
              in Ret () (update_flags_sub src dest result sz s))))"

subsection \<open>ADDQ and SUBQ\<close>

definition quick_data :: "u16 \<Rightarrow> u32" where
  "quick_data opcode = (let n = bits opcode 9 0x7 in of_nat (if n = 0 then 8 else n))"

definition m68k_exec_addq :: "'h host_callbacks \<Rightarrow> u16 \<Rightarrow> 'h cpu \<Rightarrow> ('h, unit) out" where
  "m68k_exec_addq env opcode s =
     (let data = quick_data opcode
      in case size_code (bits opcode 6 0x3) of
           None \<Rightarrow> Ret () s
         | Some sz \<Rightarrow>
             (let mode = bits opcode 3 0x7;
                  reg = bits opcode 0 0x7
              in if mode = 1
                 then (if sz = SIZE_BYTE then m68k_exception env 4 s
                       else (let val = a_regs s reg in Ret () (set_a reg (val + data) s)))
                 else if mode = 7 \<and> reg > 1 then m68k_exception env 4 s
                 else andthen (m68k_calc_ea env mode reg sz s) (\<lambda>ea s.
                   let src = data; dest = ea_value ea; result = dest + src
                   in andthen (write_back env ea result sz s) (\<lambda>_ s.
                      Ret () (update_flags_add src dest result sz s)))))"

definition m68k_exec_subq :: "'h host_callbacks \<Rightarrow> u16 \<Rightarrow> 'h cpu \<Rightarrow> ('h, unit) out" where
  "m68k_exec_subq env opcode s =
     (let data = quick_data opcode
      in case size_code (bits opcode 6 0x3) of
           None \<Rightarrow> Ret () s
         | Some sz \<Rightarrow>
             (let mode = bits opcode 3 0x7;
                  reg = bits opcode 0 0x7
              in if mode = 1
                 then (if sz = SIZE_BYTE then m68k_exception env 4 s
                       else (let val = a_regs s reg in Ret () (set_a reg (val - data) s)))
                 else if mode = 7 \<and> reg > 1 then m68k_exception env 4 s
                 else andthen (m68k_calc_ea env mode reg sz s) (\<lambda>ea s.
                   let src = data; dest = ea_value ea; result = dest - src
                   in andthen (write_back env ea result sz s) (\<lambda>_ s.
                      Ret () (update_flags_sub src dest result sz s)))))"

subsection \<open>ADDX and SUBX\<close>

definition addx_read_predec ::
  "'h host_callbacks \<Rightarrow> nat \<Rightarrow> M68kSize \<Rightarrow> 'h cpu \<Rightarrow> ('h, u32) out" where
  "addx_read_predec env reg sz s =
     (if sz = SIZE_LONG
      then (let base = a_regs s reg - 4
            in andthen (m68k_read_16 env (base + 2) s) (\<lambda>lo s.
               andthen (m68k_read_16 env base s) (\<lambda>hi s.
               Ret (push_bit 16 (ucast hi) OR ucast lo) (set_a reg base s))))
      else (let step = (if sz = SIZE_BYTE then (if reg = 7 then 2 else 1) else 2);
                s = set_a reg (a_regs s reg - step) s
            in m68k_read_size env (a_regs s reg) sz s))"

text \<open>The operands of ADDX and SUBX: two predecremented reads, charged in stages, or two
  data registers.\<close>

definition addx_operands ::
  "'h host_callbacks \<Rightarrow> bool \<Rightarrow> nat \<Rightarrow> nat \<Rightarrow> M68kSize \<Rightarrow> 'h cpu \<Rightarrow> ('h, u32 \<times> u32) out" where
  "addx_operands env rm ry rx sz s =
     (if rm
      then (let s = s\<lparr>fault_pc := pc s + 2\<rparr>;
                s = s\<lparr>fault_pc_valid := True\<rparr>;
                s = spend 6 s
            in andthen (addx_read_predec env ry sz s) (\<lambda>src s.
               let s = spend (if sz = SIZE_LONG then 8 else 4) s
               in andthen (addx_read_predec env rx sz s) (\<lambda>dest s.
                  Ret (src, dest) s)))
      else Ret (d_regs s ry, d_regs s rx) s)"

text \<open>\<open>(cpu->sr & M68K_SR_X) ? 1 : 0\<close>\<close>

definition x_bit :: "'h cpu \<Rightarrow> u32" where
  "x_bit s = (if sr_flag M68K_SR_X s then 1 else 0)"

text \<open>The sticky zero flag: cleared by a result that is not zero, otherwise what it was.\<close>

definition sticky_zero :: "bool \<Rightarrow> u32 \<Rightarrow> M68kSize \<Rightarrow> 'h cpu \<Rightarrow> 'h cpu" where
  "sticky_zero old_z result sz s =
     (if result AND value_mask sz \<noteq> 0 then sr_clear M68K_SR_Z s
      else if old_z then s\<lparr>sr := sr s OR M68K_SR_Z\<rparr>
      else sr_clear M68K_SR_Z s)"

definition m68k_exec_addx :: "'h host_callbacks \<Rightarrow> u16 \<Rightarrow> 'h cpu \<Rightarrow> ('h, unit) out" where
  "m68k_exec_addx env opcode s =
     (let rx = bits opcode 9 0x7;
          rm = (bits opcode 3 0x1 \<noteq> 0);
          ry = bits opcode 0 0x7
      in case size_code (bits opcode 6 0x3) of
           None \<Rightarrow> Ret () s
         | Some sz \<Rightarrow>
             andthen (addx_operands env rm ry rx sz s) (\<lambda>(src, dest) s.
               let x = x_bit s;
                   result = dest + src + x
               in andthen (if rm then m68k_write_size env (a_regs s rx) result sz s
                           else Ret () (set_d rx (merge_size sz (d_regs s rx) result) s)) (\<lambda>_ s.
                  let old_z = sr_flag M68K_SR_Z s;
                      s = update_flags_add src dest result sz s
                  in Ret () (sticky_zero old_z result sz s))))"

definition m68k_exec_subx :: "'h host_callbacks \<Rightarrow> u16 \<Rightarrow> 'h cpu \<Rightarrow> ('h, unit) out" where
  "m68k_exec_subx env opcode s =
     (let rx = bits opcode 9 0x7;
          rm = (bits opcode 3 0x1 \<noteq> 0);
          ry = bits opcode 0 0x7
      in case size_code (bits opcode 6 0x3) of
           None \<Rightarrow> Ret () s
         | Some sz \<Rightarrow>
             andthen (addx_operands env rm ry rx sz s) (\<lambda>(src, dest) s.
               let x = x_bit s;
                   result = dest - src - x
               in andthen (if rm then m68k_write_size env (a_regs s rx) result sz s
                           else Ret () (set_d rx (merge_size sz (d_regs s rx) result) s)) (\<lambda>_ s.
                  let old_z = sr_flag M68K_SR_Z s;
                      s = update_flags_sub src dest result sz s
                  in Ret () (sticky_zero old_z result sz s))))"

subsection \<open>MULU and MULS\<close>

text \<open>The loop that counts one bits, \<open>for (; d; d >>= 1) if (d & 1) m++\<close>.\<close>

function count_ones :: "u16 \<Rightarrow> int \<Rightarrow> int" where
  "count_ones d m =
     (if d = 0 then m
      else count_ones (drop_bit 1 d) (if d AND 1 \<noteq> 0 then m + 1 else m))"
  by pat_completeness auto

lemma drop_bit_1_less:
  assumes "(d::'a::len word) \<noteq> 0"
  shows "unat (drop_bit (Suc 0) d) < unat d"
proof -
  have "unat (drop_bit (Suc 0) d) = unat d div 2"
    by (simp only: unat_drop_bit_eq) (simp add: drop_bit_Suc)
  moreover have "0 < unat d"
    using assms by (simp add: unat_gt_0)
  ultimately show ?thesis by simp
qed

termination count_ones
  by (relation "measure (\<lambda>(d, m). unat d)") (auto simp: drop_bit_1_less)

declare count_ones.simps [simp del]

definition m68k_exec_mul :: "'h host_callbacks \<Rightarrow> u16 \<Rightarrow> 'h cpu \<Rightarrow> ('h, unit) out" where
  "m68k_exec_mul env opcode s =
     (let reg_idx = bits opcode 9 0x7;
          opmode = bits opcode 6 0x7;
          mode = bits opcode 3 0x7;
          reg = bits opcode 0 0x7;
          is_signed = (opmode = 7)
      in if not_data_source mode reg then m68k_exception env 4 s
      else andthen (m68k_calc_ea env mode reg SIZE_WORD s) (\<lambda>ea s.
        let op1 = d_regs s reg_idx AND 0xFFFF;
            op2 = ea_value ea AND 0xFFFF;
            result = (if is_signed
                      then word_of_int (sint (ucast op1 :: u16) * sint (ucast op2 :: u16))
                      else op1 * op2);
            d = (if is_signed then ucast (push_bit 1 op2 XOR op2) else ucast op2);
            m = count_ones d 17;
            s = spend (2 * m + 4) s;
            s = set_d reg_idx result s
        in Ret () (update_flags_logic result SIZE_LONG s)))"

subsection \<open>DIVU and DIVS\<close>

text \<open>The quot-bit walks of the two timing computations.\<close>

primrec divs_walk :: "nat \<Rightarrow> u32 \<Rightarrow> int \<Rightarrow> int" where
  "divs_walk 0 aquot m = m"
| "divs_walk (Suc n) aquot m =
     divs_walk n (push_bit 1 aquot) (if 0 \<le> sint (ucast aquot :: u16) then m + 1 else m)"

primrec divu_walk :: "nat \<Rightarrow> u32 \<Rightarrow> u32 \<Rightarrow> int \<Rightarrow> int" where
  "divu_walk 0 d hdivisor m = m"
| "divu_walk (Suc n) d hdivisor m =
     (if sint d < 0
      then (let d = push_bit 1 d in divu_walk n (d - hdivisor) hdivisor m)
      else (let d = push_bit 1 d
            in if d \<ge> hdivisor then divu_walk n (d - hdivisor) hdivisor (m + 1)
               else divu_walk n d hdivisor (m + 2)))"

definition divs_cycles :: "u32 \<Rightarrow> u32 \<Rightarrow> int" where
  "divs_cycles dividend divisor_raw =
     (let sd = sint dividend;
          sv = sint (ucast divisor_raw :: u16);
          m = (if sd < 0 then 7 else 6);
          adividend = (if sd < 0 then word_of_int (- sd) else word_of_int sd :: u32);
          advisor = (if sv < 0 then word_of_int (- sv) else word_of_int sv :: u32)
      in if drop_bit 16 adividend \<ge> advisor then (m + 2) * 2
         else (let m = m + 55;
                   m = (if sv \<ge> 0 then m + (if sd < 0 then 1 else -1) else m);
                   aquot = adividend div advisor
               in 2 * divs_walk 15 aquot m))"

definition divu_cycles :: "u32 \<Rightarrow> u32 \<Rightarrow> int" where
  "divu_cycles dividend divisor_raw =
     (if drop_bit 16 dividend \<ge> divisor_raw then 10
      else 2 * divu_walk 15 dividend (push_bit 16 divisor_raw) 38)"

text \<open>The end of a division that fits: the register and the condition codes.\<close>

definition div_commit :: "nat \<Rightarrow> u32 \<Rightarrow> u32 \<Rightarrow> 'h cpu \<Rightarrow> 'h cpu" where
  "div_commit reg_idx rem quot s =
     (let s = set_d reg_idx (push_bit 16 rem OR (quot AND 0xFFFF)) s;
          s = sr_clear (M68K_SR_N OR M68K_SR_Z OR M68K_SR_V OR M68K_SR_C) s;
          s = sr_set_if (quot AND 0x8000 \<noteq> 0) M68K_SR_N s
      in sr_set_if (quot = 0) M68K_SR_Z s)"

definition div_overflow :: "'h cpu \<Rightarrow> 'h cpu" where
  "div_overflow s =
     (let s = sr_clear (M68K_SR_Z OR M68K_SR_C OR M68K_SR_N OR M68K_SR_V) s
      in s\<lparr>sr := sr s OR (M68K_SR_V OR M68K_SR_N)\<rparr>)"

definition m68k_exec_div :: "'h host_callbacks \<Rightarrow> u16 \<Rightarrow> 'h cpu \<Rightarrow> ('h, unit) out" where
  "m68k_exec_div env opcode s =
     (let reg_idx = bits opcode 9 0x7;
          opmode = bits opcode 6 0x7;
          mode = bits opcode 3 0x7;
          reg = bits opcode 0 0x7;
          is_signed = (opmode = 7)
      in if not_data_source mode reg then m68k_exception env 4 s
      else andthen (m68k_calc_ea env mode reg SIZE_WORD s) (\<lambda>ea s.
        let divisor_raw = ea_value ea AND 0xFFFF;
            dividend = d_regs s reg_idx
        in if divisor_raw = 0 then m68k_exception env 5 s
           else if is_signed
           then (let s_dividend = sint dividend;
                     s_divisor = sint (ucast divisor_raw :: u16);
                     s_quot = s_dividend sdiv s_divisor;
                     s_rem = s_dividend smod s_divisor;
                     s = spend (divs_cycles dividend divisor_raw) s
                 in if s_quot < -32768 \<or> s_quot > 32767 then Ret () (div_overflow s)
                    else (let quot = word_of_int s_quot AND 0xFFFF;
                              rem = word_of_int s_rem AND 0xFFFF
                          in Ret () (div_commit reg_idx rem quot s)))
           else (let quot = dividend div divisor_raw;
                     rem = dividend mod divisor_raw;
                     s = spend (divu_cycles dividend divisor_raw) s
                 in if quot > 0xFFFF then Ret () (div_overflow s)
                    else Ret () (div_commit reg_idx rem quot s))))"

subsection \<open>CMP, CMPA, CMPM and CMPI\<close>

text \<open>CMPM: the source increment is committed one word at a time before each read, the
  destination increment after its read.\<close>

definition cmpm_source ::
  "'h host_callbacks \<Rightarrow> nat \<Rightarrow> M68kSize \<Rightarrow> 'h cpu \<Rightarrow> ('h, u32) out" where
  "cmpm_source env reg sz s =
     (let src_addr = a_regs s reg
      in if sz = SIZE_LONG
         then (let s = set_a reg (a_regs s reg + 2) s
               in andthen (m68k_read_size env src_addr sz s) (\<lambda>src_val s.
                  Ret src_val (set_a reg (a_regs s reg + 2) s)))
         else (let s = set_a reg (a_regs s reg +
                         (if reg = 7 \<and> sz = SIZE_BYTE then 2 else size_bytes sz)) s
               in m68k_read_size env src_addr sz s))"

definition exec_cmpm ::
  "'h host_callbacks \<Rightarrow> nat \<Rightarrow> nat \<Rightarrow> M68kSize \<Rightarrow> 'h cpu \<Rightarrow> ('h, unit) out" where
  "exec_cmpm env reg_idx reg sz s =
     (let step = size_bytes sz;
          s = s\<lparr>fault_pc := pc s + 2\<rparr>;
          s = s\<lparr>fault_pc_valid := True\<rparr>;
          s = spend 4 s
      in andthen (cmpm_source env reg sz s) (\<lambda>src_val s.
         let s = spend (if sz = SIZE_LONG then 8 else 4) s;
             dest_addr = a_regs s reg_idx
         in andthen (m68k_read_size env dest_addr sz s) (\<lambda>dest_val s.
            let s = set_a reg_idx (a_regs s reg_idx +
                      (if reg_idx = 7 \<and> sz = SIZE_BYTE then 2 else step)) s;
                result = dest_val - src_val
            in Ret () (update_flags_cmp src_val dest_val result sz s))))"

definition cmp_opmode :: "nat \<Rightarrow> M68kSize option" where
  "cmp_opmode opmode =
     (if opmode = 0 then Some SIZE_BYTE
      else if opmode = 1 then Some SIZE_WORD
      else if opmode = 2 then Some SIZE_LONG
      else if opmode = 3 then Some SIZE_WORD
      else if opmode = 7 then Some SIZE_LONG
      else None)"

definition m68k_exec_cmp :: "'h host_callbacks \<Rightarrow> u16 \<Rightarrow> 'h cpu \<Rightarrow> ('h, unit) out" where
  "m68k_exec_cmp env opcode s =
     (let reg_idx = bits opcode 9 0x7;
          opmode = bits opcode 6 0x7;
          mode = bits opcode 3 0x7;
          reg = bits opcode 0 0x7
      in case cmp_opmode opmode of
           None \<Rightarrow>
             (if opmode \<ge> 4 \<and> opmode \<le> 6 \<and> mode = 1
              then exec_cmpm env reg_idx reg
                     (if opmode = 4 then SIZE_BYTE
                      else if opmode = 5 then SIZE_WORD else SIZE_LONG) s
              else m68k_exception env 4 s)
         | Some sz \<Rightarrow>
             (if (mode = 1 \<and> sz = SIZE_BYTE \<and> opmode \<noteq> 3 \<and> opmode \<noteq> 7) \<or> (mode = 7 \<and> reg > 4)
              then m68k_exception env 4 s
              else andthen (m68k_calc_ea env mode reg sz s) (\<lambda>ea s.
                let src = ea_value ea
                in if opmode = 3 \<or> opmode = 7
                   then (let dest = a_regs s reg_idx;
                             src = (if sz = SIZE_WORD then sext16 src else src);
                             result = dest - src
                         in Ret () (update_flags_cmp src dest result SIZE_LONG s))
                   else (let dest = d_regs s reg_idx;
                             src = src AND value_mask sz;
                             dest = dest AND value_mask sz;
                             result = dest - src
                         in Ret () (update_flags_cmp src dest result sz s)))))"

definition m68k_exec_cmpi :: "'h host_callbacks \<Rightarrow> u16 \<Rightarrow> 'h cpu \<Rightarrow> ('h, unit) out" where
  "m68k_exec_cmpi env opcode s =
     (let mode = bits opcode 3 0x7;
          reg = bits opcode 0 0x7
      in case size_code (bits opcode 6 0x3) of
           None \<Rightarrow> Ret () s
         | Some sz \<Rightarrow>
             (if not_data_alterable mode reg then m68k_exception env 4 s
              else andthen (fetch_immediate env sz s) (\<lambda>src s.
                let s = spend (if bits opcode 6 0x3 = 2 then 8 else 4) s
                in andthen (m68k_calc_ea env mode reg sz s) (\<lambda>ea s.
                   let dest = ea_value ea;
                       result = dest - src
                   in Ret () (update_flags_cmp src dest result sz s)))))"
subsection \<open>NEG and EXT\<close>

definition m68k_exec_neg :: "'h host_callbacks \<Rightarrow> u16 \<Rightarrow> 'h cpu \<Rightarrow> ('h, unit) out" where
  "m68k_exec_neg env opcode s =
     (let mode = bits opcode 3 0x7;
          reg = bits opcode 0 0x7
      in case size_code (bits opcode 6 0x3) of
           None \<Rightarrow> Ret () s
         | Some sz \<Rightarrow>
             (if not_data_alterable mode reg then m68k_exception env 4 s
              else andthen (m68k_calc_ea env mode reg sz s) (\<lambda>ea s.
                let src = ea_value ea;
                    result = 0 - src
                in andthen (write_back env ea result sz s) (\<lambda>_ s.
                   Ret () (update_flags_sub src 0 result sz s)))))"

definition m68k_exec_ext :: "'h host_callbacks \<Rightarrow> u16 \<Rightarrow> 'h cpu \<Rightarrow> ('h, unit) out" where
  "m68k_exec_ext env opcode s =
     (let opmode = bits opcode 6 0x7;
          reg = bits opcode 0 0x7;
          val = d_regs s reg
      in if opmode = 2
         then (let result = sext8 (val AND 0xFF);
                   s = set_d reg ((d_regs s reg AND 0xFFFF0000) OR (result AND 0xFFFF)) s
               in Ret () (update_flags_logic (result AND 0xFFFF) SIZE_WORD s))
         else if opmode = 3
         then (let result = sext16 (val AND 0xFFFF);
                   s = set_d reg result s
               in Ret () (update_flags_logic result SIZE_LONG s))
         else Ret () s)"

subsection \<open>Decimal arithmetic\<close>

text \<open>The operands of ABCD and SBCD: two byte reads below the decremented registers (the
  stack pointer moves by two), or the low bytes of two data registers.\<close>

definition bcd_predec :: "nat \<Rightarrow> 'h cpu \<Rightarrow> 'h cpu" where
  "bcd_predec r s =
     (let s = set_a r (a_regs s r - 1) s
      in if r = 7 then set_a r (a_regs s r - 1) s else s)"

definition bcd_operands ::
  "'h host_callbacks \<Rightarrow> bool \<Rightarrow> nat \<Rightarrow> nat \<Rightarrow> 'h cpu \<Rightarrow> ('h, u32 \<times> u32) out" where
  "bcd_operands env rm ry rx s =
     (if rm
      then (let s = bcd_predec ry s
            in andthen (m68k_read_8 env (a_regs s ry) s) (\<lambda>src s.
               let s = bcd_predec rx s
               in andthen (m68k_read_8 env (a_regs s rx) s) (\<lambda>dest s.
                  Ret (ucast src, ucast dest) s)))
      else Ret (d_regs s ry AND 0xFF, d_regs s rx AND 0xFF) s)"

text \<open>The digit computations: the result byte with the carry and overflow flags.\<close>

definition abcd_result :: "u32 \<Rightarrow> u32 \<Rightarrow> u32 \<Rightarrow> u8 \<times> bool \<times> bool" where
  "abcd_result src dest x =
     (let bin_res = (src AND 0xFF) + (dest AND 0xFF) + x;
          low_add = (src AND 0x0F) + (dest AND 0x0F) + x;
          res = bin_res;
          res = (if low_add > 9 then res + 6 else res);
          c_out = (bin_res > 0xFF);
          c_flag = (c_out \<or> res > 0xFF \<or> (res AND 0xF0) > 0x90);
          res = (if c_flag then res + 0x60 else res);
          result = (ucast res :: u8);
          v_flag = ((NOT bin_res AND ucast result) AND 0x80 \<noteq> 0)
      in (result, c_flag, v_flag))"

definition sbcd_result :: "u32 \<Rightarrow> u32 \<Rightarrow> u32 \<Rightarrow> u8 \<times> bool \<times> bool" where
  "sbcd_result src dst x =
     (let bin_res = (dst AND 0xFF) - (src AND 0xFF) - x;
          res = bin_res;
          low_sub = sint ((dst AND 0x0F) - (src AND 0x0F) - x);
          res = (if low_sub < 0 then res - 6 else res);
          c_flag_sub = (sint bin_res < 0);
          res = (if c_flag_sub then res - 0x60 else res);
          c_flag_sr = (c_flag_sub \<or> sint res < 0);
          result = (ucast (res AND 0xFF) :: u8);
          raw_res = bin_res AND 0xFF;
          v_flag = ((NOT (ucast result) AND raw_res) AND 0x80 \<noteq> 0);
          v_flag = (if v_flag \<and> (NOT src AND dst) AND 0x80 \<noteq> 0 \<and> c_flag_sr
                    then False else v_flag)
      in (result, c_flag_sr, v_flag))"

text \<open>NBCD spells the subtraction from zero out again, without the last correction of
  the overflow flag.\<close>

definition nbcd_result :: "u32 \<Rightarrow> u32 \<Rightarrow> u8 \<times> bool \<times> bool" where
  "nbcd_result dest x =
     (let bin_res = 0 - (dest AND 0xFF) - x;
          res = bin_res;
          low_sub = sint (0 - (dest AND 0x0F) - x);
          res = (if low_sub < 0 then res - 6 else res);
          c_flag_sub = (sint bin_res < 0);
          res = (if c_flag_sub then res - 0x60 else res);
          c_flag_sr = (c_flag_sub \<or> sint res < 0);
          result = (ucast (res AND 0xFF) :: u8);
          raw_res = bin_res AND 0xFF;
          v_flag = ((NOT (ucast result) AND raw_res) AND 0x80 \<noteq> 0)
      in (result, c_flag_sr, v_flag))"

definition bcd_flags :: "u8 \<Rightarrow> bool \<Rightarrow> bool \<Rightarrow> 'h cpu \<Rightarrow> 'h cpu" where
  "bcd_flags result c_flag v_flag s =
     (let s = sr_clear (M68K_SR_N OR M68K_SR_V OR M68K_SR_C OR M68K_SR_X) s;
          s = sr_set_if (result AND 0x80 \<noteq> 0) M68K_SR_N s;
          s = sr_set_if v_flag M68K_SR_V s;
          s = sr_set_if c_flag (M68K_SR_C OR M68K_SR_X) s
      in if result \<noteq> 0 then sr_clear M68K_SR_Z s else s)"

definition m68k_exec_abcd :: "'h host_callbacks \<Rightarrow> u16 \<Rightarrow> 'h cpu \<Rightarrow> ('h, unit) out" where
  "m68k_exec_abcd env opcode s =
     (let rx = bits opcode 9 0x7;
          rm = (bits opcode 3 0x1 \<noteq> 0);
          ry = bits opcode 0 0x7
      in andthen (bcd_operands env rm ry rx s) (\<lambda>(src, dest) s.
         case abcd_result src dest (x_bit s) of (result, c_flag, v_flag) \<Rightarrow>
           (let s = bcd_flags result c_flag v_flag s
            in if rm then m68k_write_8 env (a_regs s rx) result s
               else Ret () (set_d rx ((d_regs s rx AND 0xFFFFFF00) OR ucast result) s))))"

definition m68k_exec_sbcd :: "'h host_callbacks \<Rightarrow> u16 \<Rightarrow> 'h cpu \<Rightarrow> ('h, unit) out" where
  "m68k_exec_sbcd env opcode s =
     (let rx = bits opcode 9 0x7;
          rm = (bits opcode 3 0x1 \<noteq> 0);
          ry = bits opcode 0 0x7
      in andthen (bcd_operands env rm ry rx s) (\<lambda>(src, dst) s.
         case sbcd_result src dst (x_bit s) of (result, c_flag, v_flag) \<Rightarrow>
           (let s = bcd_flags result c_flag v_flag s
            in if rm then m68k_write_8 env (a_regs s rx) result s
               else Ret () (set_d rx ((d_regs s rx AND 0xFFFFFF00) OR ucast result) s))))"

definition m68k_exec_nbcd :: "'h host_callbacks \<Rightarrow> u16 \<Rightarrow> 'h cpu \<Rightarrow> ('h, unit) out" where
  "m68k_exec_nbcd env opcode s =
     (let mode = bits opcode 3 0x7;
          reg = bits opcode 0 0x7
      in if not_data_alterable mode reg then m68k_exception env 4 s
      else andthen (m68k_calc_ea env mode reg SIZE_BYTE s) (\<lambda>ea s.
        case nbcd_result (ea_value ea AND 0xFF) (x_bit s) of (result, c_flag, v_flag) \<Rightarrow>
          (let s = bcd_flags result c_flag v_flag s
           in if is_reg ea \<and> \<not> is_addr ea
              then Ret () (set_d (reg_num ea)
                     ((d_regs s (reg_num ea) AND 0xFFFFFF00) OR ucast result) s)
              else m68k_write_8 env (address ea) result s)))"

subsection \<open>ADDI, SUBI and NEGX\<close>

definition m68k_exec_addi :: "'h host_callbacks \<Rightarrow> u16 \<Rightarrow> 'h cpu \<Rightarrow> ('h, unit) out" where
  "m68k_exec_addi env opcode s =
     (case size_code (bits opcode 6 0x3) of
        None \<Rightarrow> Ret () s
      | Some sz \<Rightarrow>
          (let mode = bits opcode 3 0x7;
               reg = bits opcode 0 0x7
           in if not_data_alterable mode reg then m68k_exception env 4 s
              else andthen (fetch_immediate env sz s) (\<lambda>imm s.
                let s = spend (if bits opcode 6 0x3 = 2 then 8 else 4) s
                in andthen (m68k_calc_ea env mode reg sz s) (\<lambda>ea s.
                   let dest = ea_value ea;
                       result = dest + imm
                   in andthen (write_back env ea result sz s) (\<lambda>_ s.
                      Ret () (update_flags_add imm dest result sz s))))))"

definition m68k_exec_subi :: "'h host_callbacks \<Rightarrow> u16 \<Rightarrow> 'h cpu \<Rightarrow> ('h, unit) out" where
  "m68k_exec_subi env opcode s =
     (case size_code (bits opcode 6 0x3) of
        None \<Rightarrow> Ret () s
      | Some sz \<Rightarrow>
          (let mode = bits opcode 3 0x7;
               reg = bits opcode 0 0x7
           in if not_data_alterable mode reg then m68k_exception env 4 s
              else andthen (fetch_immediate env sz s) (\<lambda>imm s.
                let s = spend (if bits opcode 6 0x3 = 2 then 8 else 4) s
                in andthen (m68k_calc_ea env mode reg sz s) (\<lambda>ea s.
                   let dest = ea_value ea;
                       result = dest - imm
                   in andthen (write_back env ea result sz s) (\<lambda>_ s.
                      Ret () (update_flags_sub imm dest result sz s))))))"

text \<open>The condition codes of NEGX, which the handler computes itself.\<close>

definition negx_flags :: "u32 \<Rightarrow> u32 \<Rightarrow> M68kSize \<Rightarrow> 'h cpu \<Rightarrow> 'h cpu" where
  "negx_flags src result sz s =
     (let msb = msb_mask sz;
          mask = value_mask sz;
          old_z = sr_flag M68K_SR_Z s;
          s = sr_clear (M68K_SR_N OR M68K_SR_Z OR M68K_SR_V OR M68K_SR_C OR M68K_SR_X) s;
          s = sr_set_if (result AND msb \<noteq> 0) M68K_SR_N s;
          s = (if result AND mask \<noteq> 0 then s
               else if old_z then s\<lparr>sr := sr s OR M68K_SR_Z\<rparr> else s);
          sm = (src AND msb \<noteq> 0);
          rm = (result AND msb \<noteq> 0);
          s = sr_set_if (sm \<and> rm) M68K_SR_V s
      in if sm \<or> rm
         then (let s = s\<lparr>sr := sr s OR M68K_SR_C\<rparr> in s\<lparr>sr := sr s OR M68K_SR_X\<rparr>)
         else s)"

definition m68k_exec_negx :: "'h host_callbacks \<Rightarrow> u16 \<Rightarrow> 'h cpu \<Rightarrow> ('h, unit) out" where
  "m68k_exec_negx env opcode s =
     (case size_code (bits opcode 6 0x3) of
        None \<Rightarrow> Ret () s
      | Some sz \<Rightarrow>
          (let mode = bits opcode 3 0x7;
               reg = bits opcode 0 0x7
           in if not_data_alterable mode reg then m68k_exception env 4 s
              else andthen (m68k_calc_ea env mode reg sz s) (\<lambda>ea s.
                let src = ea_value ea;
                    x = x_bit s;
                    result = 0 - src - x
                in andthen (write_back env ea result sz s) (\<lambda>_ s.
                   Ret () (negx_flags src result sz s)))))"

lemma count_ones_ge: "m \<le> count_ones d m"
  by (induction d m rule: count_ones.induct) (subst count_ones.simps, force)

lemma div_walk_ge:
  "k \<le> m \<Longrightarrow> k \<le> divs_walk n d m" "k \<le> m \<Longrightarrow> k \<le> divu_walk n d h m"
  by (induction n arbitrary: d m) (simp_all add: Let_def)

lemma div_cycles_ge: "4 \<le> divs_cycles a b" "4 \<le> divu_cycles a b"
proof -
  have "4 \<le> 2 * divs_walk n d m" "4 \<le> 2 * divu_walk n d h m" if "2 \<le> m" for n d h m
    using div_walk_ge [OF that] by (metis mult_2 add_mono numeral_Bit0)+
  then show "4 \<le> divs_cycles a b" "4 \<le> divu_cycles a b"
    by (simp_all add: divs_cycles_def divu_cycles_def Let_def)
qed

subsection \<open>Safety\<close>

context instruction begin

lemma add_keeps:
  assumes "cpu_inv p fresh c s" and "bound_ok t c"
  shows "keeps (cpu_inv p quiet c) (jump_inv p c) (m68k_exec_add env opcode s)"
  using assms unfolding m68k_exec_add_def Let_def
  by (auto split: prod.split intro!: handler_intros)

lemma sub_keeps:
  assumes "cpu_inv p fresh c s" and "bound_ok t c"
  shows "keeps (cpu_inv p quiet c) (jump_inv p c) (m68k_exec_sub env opcode s)"
  using assms unfolding m68k_exec_sub_def Let_def
  by (auto split: prod.split intro!: handler_intros)

lemma addq_keeps:
  assumes "cpu_inv p fresh c s" and "bound_ok t c"
  shows "keeps (cpu_inv p quiet c) (jump_inv p c) (m68k_exec_addq env opcode s)"
  using assms unfolding m68k_exec_addq_def Let_def
  by (auto split: option.split intro!: handler_intros)

lemma subq_keeps:
  assumes "cpu_inv p fresh c s" and "bound_ok t c"
  shows "keeps (cpu_inv p quiet c) (jump_inv p c) (m68k_exec_subq env opcode s)"
  using assms unfolding m68k_exec_subq_def Let_def
  by (auto split: option.split intro!: handler_intros)

lemma mul_keeps:
  assumes "cpu_inv p fresh c s" and "bound_ok t c"
  shows "keeps (paid c) (jump_inv p c) (m68k_exec_mul env opcode s)"
proof -
  have n: "0 \<le> count_ones d 17" for d
    using count_ones_ge [of 17 d] by simp
  show ?thesis
    using assms unfolding m68k_exec_mul_def Let_def
    by (auto intro!: paid_intros handler_intros n)
qed

lemma cmpi_keeps:
  assumes "cpu_inv p fresh c s" and "bound_ok t c"
  shows "keeps (cpu_inv p quiet c) (jump_inv p c) (m68k_exec_cmpi env opcode s)"
  using assms unfolding m68k_exec_cmpi_def Let_def
  by (auto split: option.split intro!: handler_intros)

lemma neg_keeps:
  assumes "cpu_inv p fresh c s" and "bound_ok t c"
  shows "keeps (cpu_inv p quiet c) (jump_inv p c) (m68k_exec_neg env opcode s)"
  using assms unfolding m68k_exec_neg_def Let_def
  by (auto split: option.split intro!: handler_intros)

lemma ext_keeps:
  assumes "cpu_inv p fresh c s" and "bound_ok t c"
  shows "keeps (cpu_inv p quiet c) (jump_inv p c) (m68k_exec_ext env opcode s)"
  using assms unfolding m68k_exec_ext_def Let_def
  by (auto intro!: handler_intros)

lemma addi_keeps:
  assumes "cpu_inv p fresh c s" and "bound_ok t c"
  shows "keeps (cpu_inv p quiet c) (jump_inv p c) (m68k_exec_addi env opcode s)"
  using assms unfolding m68k_exec_addi_def Let_def
  by (auto split: option.split intro!: handler_intros)

lemma subi_keeps:
  assumes "cpu_inv p fresh c s" and "bound_ok t c"
  shows "keeps (cpu_inv p quiet c) (jump_inv p c) (m68k_exec_subi env opcode s)"
  using assms unfolding m68k_exec_subi_def Let_def
  by (auto split: option.split intro!: handler_intros)

lemma addx_read_predec_keeps:
  assumes "cpu_inv p w c s" and bound: "bound_ok t c"
  shows "keeps (cpu_inv p w c) (jump_inv p c) (addx_read_predec env r sz s)"
  using assms unfolding addx_read_predec_def Let_def
  by (auto intro!: keeps_andthen read_keeps st)

lemma addx_operands_keeps:
  assumes "cpu_inv p w c s" and bound: "bound_ok t c"
  shows "keeps (cpu_inv p w c) (jump_inv p c) (addx_operands env rm ry rx sz s)"
  using assms unfolding addx_operands_def Let_def
  by (auto intro!: keeps_andthen addx_read_predec_keeps inv_cycles)

lemma inv_sticky_zero: "cpu_inv p w c s \<Longrightarrow> cpu_inv p w c (sticky_zero z r sz s)"
  by (auto simp: sticky_zero_def intro!: inv_sr_clear inv_sr_upd)

lemma addx_keeps:
  assumes "cpu_inv p fresh c s" and "bound_ok t c"
  shows "keeps (cpu_inv p quiet c) (jump_inv p c) (m68k_exec_addx env opcode s)"
  using assms unfolding m68k_exec_addx_def Let_def
  by (auto split: option.split prod.split intro!: handler_intros addx_operands_keeps inv_sticky_zero)

lemma subx_keeps:
  assumes "cpu_inv p fresh c s" and "bound_ok t c"
  shows "keeps (cpu_inv p quiet c) (jump_inv p c) (m68k_exec_subx env opcode s)"
  using assms unfolding m68k_exec_subx_def Let_def
  by (auto split: option.split prod.split intro!: handler_intros addx_operands_keeps inv_sticky_zero)

lemma cmpm_source_keeps:
  assumes "cpu_inv p w c s" and bound: "bound_ok t c"
  shows "keeps (cpu_inv p w c) (jump_inv p c) (cmpm_source env r sz s)"
  using assms unfolding cmpm_source_def Let_def
  by (auto intro!: keeps_andthen read_keeps st)

lemma exec_cmpm_keeps:
  assumes "cpu_inv p fresh c s" and "bound_ok t c"
  shows "keeps (cpu_inv p quiet c) (jump_inv p c) (exec_cmpm env a b sz s)"
  using assms unfolding exec_cmpm_def Let_def
  by (auto intro!: cmpm_source_keeps handler_intros)

lemma cmp_keeps:
  assumes "cpu_inv p fresh c s" and "bound_ok t c"
  shows "keeps (cpu_inv p quiet c) (jump_inv p c) (m68k_exec_cmp env opcode s)"
proof (cases "cmp_opmode (bits opcode 6 7)")
  case None
  then show ?thesis
    using assms unfolding m68k_exec_cmp_def Let_def
    by (simp only: option.case) (intro keeps_if exec_cmpm_keeps fresh_exception; simp)
next
  case (Some sz)
  then show ?thesis
    using assms unfolding m68k_exec_cmp_def Let_def
    by (simp only: option.case)
      (intro keeps_if fresh_exception keeps_bind_fresh calc_ea_keeps,
       auto intro!: handler_intros)
qed

lemma bcd_predec_inv [simp]: "cpu_inv p w c (bcd_predec r s) = cpu_inv p w c s"
  by (simp add: bcd_predec_def Let_def)

lemma bcd_operands_keeps:
  assumes "cpu_inv p w c s" and bound: "bound_ok t c"
  shows "keeps (cpu_inv p w c) (jump_inv p c) (bcd_operands env rm ry rx s)"
  using assms unfolding bcd_operands_def Let_def
  by (auto intro!: keeps_andthen read_keeps st)

lemma inv_bcd_flags: "cpu_inv p w c s \<Longrightarrow> cpu_inv p w c (bcd_flags r cf vf s)"
  by (auto simp: bcd_flags_def Let_def intro!: inv_sr_clear inv_sr_set_if)

lemma inv_negx_flags: "cpu_inv p w c s \<Longrightarrow> cpu_inv p w c (negx_flags a r sz s)"
  by (auto simp: negx_flags_def Let_def intro!: inv_sr_clear inv_sr_set_if inv_sr_upd)

lemma abcd_keeps:
  assumes "cpu_inv p fresh c s" and "bound_ok t c"
  shows "keeps (cpu_inv p quiet c) (jump_inv p c) (m68k_exec_abcd env opcode s)"
  using assms unfolding m68k_exec_abcd_def Let_def
  by (auto split: prod.split intro!: handler_intros bcd_operands_keeps inv_bcd_flags)

lemma sbcd_keeps:
  assumes "cpu_inv p fresh c s" and "bound_ok t c"
  shows "keeps (cpu_inv p quiet c) (jump_inv p c) (m68k_exec_sbcd env opcode s)"
  using assms unfolding m68k_exec_sbcd_def Let_def
  by (auto split: prod.split intro!: handler_intros bcd_operands_keeps inv_bcd_flags)

lemma nbcd_keeps:
  assumes "cpu_inv p fresh c s" and "bound_ok t c"
  shows "keeps (cpu_inv p quiet c) (jump_inv p c) (m68k_exec_nbcd env opcode s)"
  using assms unfolding m68k_exec_nbcd_def Let_def
  by (auto split: prod.split intro!: handler_intros inv_bcd_flags)

lemma negx_keeps:
  assumes "cpu_inv p fresh c s" and "bound_ok t c"
  shows "keeps (cpu_inv p quiet c) (jump_inv p c) (m68k_exec_negx env opcode s)"
  using assms unfolding m68k_exec_negx_def Let_def
  by (auto split: option.split intro!: handler_intros inv_negx_flags)

lemma paid_div:
  "paid c s \<Longrightarrow> paid c (div_commit r a b s)" "paid c s \<Longrightarrow> paid c (div_overflow s)"
  by (erule paid_pure; auto simp: div_commit_def div_overflow_def Let_def
      intro!: inv_sr_clear inv_sr_set_if inv_sr_upd)+

lemma div_keeps:
  assumes "cpu_inv p fresh c s" and "bound_ok t c"
  shows "keeps (paid c) (jump_inv p c) (m68k_exec_div env opcode s)"
  using assms unfolding m68k_exec_div_def Let_def
  by (auto intro!: paid_intros paid_div handler_intros div_cycles_ge)

end

subsection \<open>Multiplication and division\<close>

lemma sint_of_small: "\<bar>k\<bar> \<le> 2 ^ 30 \<Longrightarrow> sint (word_of_int k :: u32) = k"
  by (simp add: sint_sbintrunc' signed_take_bit_int_eq_self abs_le_iff)

text \<open>C27: MULU and MULS, register form, are exact: the 32-bit product of the low words of a data register and of the
  source register, unsigned or signed, with N and Z from the product, V and C clear and
  extend kept; every bit of the product is there.\<close>

theorem mul_exact:
  assumes "bits opcode 3 7 = 0" and "bits opcode 6 7 = (if sg then 7 else 3)"
    and "i = bits opcode 9 7" and "r = bits opcode 0 7"
  shows "\<exists>s'. m68k_exec_mul env opcode s = Ret () s' \<and>
    (if sg
     then sint (d_regs s' i) = sint (ucast (d_regs s i) :: u16) * sint (ucast (d_regs s r) :: u16)
     else uint (d_regs s' i) = uint (ucast (d_regs s i) :: u16) * uint (ucast (d_regs s r) :: u16)) \<and>
    (\<forall>j. j \<noteq> i \<longrightarrow> d_regs s' j = d_regs s j) \<and> a_regs s' = a_regs s \<and> pc s' = pc s \<and>
    sr_flag M68K_SR_N s' = (sint (d_regs s' i) < 0) \<and> sr_flag M68K_SR_Z s' = (d_regs s' i = 0) \<and>
    \<not> sr_flag M68K_SR_V s' \<and> \<not> sr_flag M68K_SR_C s' \<and>
    sr_flag M68K_SR_X s' = sr_flag M68K_SR_X s"
proof -
  let ?a = "ucast (d_regs s i) :: u16" and ?b = "ucast (d_regs s r) :: u16"
  define result :: u32 where "result = (if sg then word_of_int (sint ?a * sint ?b)
    else (d_regs s i AND 0xFFFF) * (d_regs s r AND 0xFFFF))"
  have r: "\<exists>c. m68k_exec_mul env opcode s =
      Ret () (update_flags_logic result SIZE_LONG (set_d i result (spend c s)))"
    using assms
    by (auto simp: m68k_exec_mul_def Let_def not_data_source_def result_def word_and)
  have sbound: "\<bar>sint w\<bar> \<le> 2 ^ 15" for w :: u16
    using sint_ge [of w] sint_less [of w] by (auto simp: abs_le_iff)
  have "\<bar>sint ?a * sint ?b\<bar> \<le> 2 ^ 15 * 2 ^ 15"
    unfolding abs_mult by (intro mult_mono sbound) simp_all
  then have p: "\<bar>sint ?a * sint ?b\<bar> \<le> 2 ^ 30" by simp
  have "sint (word_of_int (sint ?a * sint ?b) :: u32) = sint ?a * sint ?b"
    by (rule sint_of_small [OF p])
  moreover have "uint ((d_regs s i AND 0xFFFF) * (d_regs s r AND 0xFFFF)) = uint ?a * uint ?b"
  proof -
    have b: "uint w \<le> 2 ^ 16 - 1" for w :: u16 using uint_lt2p [of w] by simp
    have "uint ?a * uint ?b \<le> (2 ^ 16 - 1) * (2 ^ 16 - 1)"
      by (intro mult_mono b) simp_all
    then show ?thesis
      by (simp add: uint_word_ariths uint_low_word)
  qed
  ultimately have v: "if sg then sint result = sint ?a * sint ?b else uint result = uint ?a * uint ?b"
    by (simp add: result_def)
  obtain c where c: "m68k_exec_mul env opcode s =
      Ret () (update_flags_logic result SIZE_LONG (set_d i result (spend c s)))" using r ..
  have x: "sr_flag M68K_SR_X (set_d i result (spend c s)) = sr_flag M68K_SR_X s"
    by (simp add: sr_flag_def)
  show ?thesis
    using v x by (simp add: c update_flags_logic_bits sval_def uval_def uint_0_iff)
qed

lemma mul_exact_witness:
  "\<exists>s'. m68k_exec_mul no_callbacks 0xC3C1 (set_d 1 0xFFFF trap_state) = Ret () s' \<and>
     sint (d_regs s' 1) = 1"
  using mul_exact [of "0xC3C1" True 1 1 no_callbacks "set_d 1 0xFFFF trap_state"]
  by (auto simp: bits_def)

text \<open>The two halves of the register a division writes.\<close>

lemma div_register:
  "ucast (push_bit 16 rem OR (quot AND 0xFFFF) :: u32) = (ucast quot :: u16)"
  "ucast (drop_bit 16 (push_bit 16 rem OR (quot AND 0xFFFF) :: u32)) = (ucast rem :: u16)"
proof -
  have m: "(0xFFFF :: u32) = mask 16" by (simp add: mask_eq_exp_minus_1)
  show "ucast (push_bit 16 rem OR (quot AND 0xFFFF) :: u32) = (ucast quot :: u16)"
    "ucast (drop_bit 16 (push_bit 16 rem OR (quot AND 0xFFFF) :: u32)) = (ucast rem :: u16)"
    unfolding m by (rule bit_word_eqI, auto simp: bit_simps)+
qed

lemma div_flags:
  "sr_flag M68K_SR_N (div_commit i rm q s) = (q AND 0x8000 \<noteq> 0)"
  "sr_flag M68K_SR_Z (div_commit i rm q s) = (q = 0)"
  "\<not> sr_flag M68K_SR_V (div_commit i rm q s)" "\<not> sr_flag M68K_SR_C (div_commit i rm q s)"
  "sr_flag M68K_SR_X (div_commit i rm q s) = sr_flag M68K_SR_X s"
  "sr_flag M68K_SR_V (div_overflow s)" "\<not> sr_flag M68K_SR_C (div_overflow s)"
  "sr_flag M68K_SR_X (div_overflow s) = sr_flag M68K_SR_X s"
  unfolding div_commit_def div_overflow_def Let_def
  by (auto simp: sr_flag_clear sr_bit_defs) (auto simp: sr_flag_def)

lemma div_sign:
  "(w AND 0x8000 = (0 :: u32)) = (\<not> bit w 15)" "bit (w OR q AND 0xFFFF) 15 = (bit w 15 \<or> bit (q :: u32) 15)"
  "\<not> bit (push_bit 16 (w :: u32)) 15" "\<not> bit (w AND 0xFFFF0000 :: u32) 15"
  "bit (w AND 0xFFFF :: u32) 15 = bit w 15"
proof -
  have "(0x8000 :: u32) = push_bit 15 1" by simp
  then show "(w AND 0x8000 = (0 :: u32)) = (\<not> bit w 15)" using and_mask_bit_iff [of w 15] by metis
qed (simp_all add: bit_simps)

lemma div_registers [simp]:
  "d_regs (div_commit i rm q s) = (d_regs s)(i := push_bit 16 rm OR (q AND 0xFFFF))"
  "a_regs (div_commit i rm q s) = a_regs s" "pc (div_commit i rm q s) = pc s"
  "d_regs (div_overflow s) = d_regs s" "a_regs (div_overflow s) = a_regs s"
  "pc (div_overflow s) = pc s"
  by (simp_all add: div_commit_def div_overflow_def sr_set_if_def sr_clear_def Let_def)

lemma smod_sgn: "(n :: int) smod d = 0 \<or> sgn (n smod d) = sgn n"
  proof (cases "\<bar>n\<bar> mod \<bar>d\<bar> = 0 \<or> d = 0")
  case False
  then have "0 < \<bar>n\<bar> mod \<bar>d\<bar>" using pos_mod_sign [of "\<bar>d\<bar>" "\<bar>n\<bar>"] by linarith
  then show ?thesis by (simp add: signed_modulo_int_def sgn_mult)
qed (auto simp: signed_modulo_int_def sgn_mult)

text \<open>What a 16-bit division promises: on a quotient that fits, quotient and remainder in the
  two halves of the register; on one that does not, an untouched register and overflow.\<close>

definition divides :: "bool \<Rightarrow> u32 \<Rightarrow> u32 \<Rightarrow> u32 \<Rightarrow> bool" where
  "divides sg n d x =
     (let value = (\<lambda>w :: u16. if sg then sint w else uint w);
          n = (if sg then sint n else uint n);
          d = value (ucast d);
          q = value (ucast x);
          r = value (ucast (drop_bit 16 x))
      in n = q * d + r \<and> \<bar>r\<bar> < \<bar>d\<bar> \<and> (r = 0 \<or> sgn r = sgn n))"

lemma uint_small_cast: "w \<le> 0xFFFF \<Longrightarrow> uint (ucast w :: u16) = uint (w :: u32)"
proof -
  assume "w \<le> 0xFFFF"
  then have "uint w < 2 ^ 16" by (simp add: word_le_def)
  then show ?thesis by (simp add: unsigned_ucast_eq take_bit_int_eq_self)
qed

lemma divides_intro:
  assumes "value = (\<lambda>w :: u16. if sg then sint w else uint w)"
    and "n' = (if sg then sint n else uint n)" and "d' = value (ucast d)"
    and "value (ucast quot) = q" and "value (ucast rem) = r"
    and "n' = q * d' + r" and "\<bar>r\<bar> < \<bar>d'\<bar>" and "r = 0 \<or> sgn r = sgn n'"
  shows "divides sg n d (push_bit 16 rem OR (quot AND 0xFFFF))"
  using assms(4-8) unfolding divides_def Let_def div_register assms(1-3) by simp

lemma divides_unsigned:
  assumes "d \<le> (0xFFFF :: u32)" and "d \<noteq> 0" and "n div d \<le> 0xFFFF"
  shows "divides False n d (push_bit 16 (n mod d) OR (n div d AND 0xFFFF))"
proof -
  have r: "n mod d < d" using assms(2) by (simp add: word_mod_less_divisor word_gt_0)
  then have m: "n mod d \<le> 0xFFFF" using assms(1) by simp
  have d: "0 < uint d" using assms(2) uint_ge_0 [of d] uint_0_iff [of d] by linarith
  have "uint n = uint n div uint d * uint d + uint n mod uint d" by simp
  moreover have "uint n mod uint d < uint d" "0 \<le> uint n mod uint d" using d by simp_all
  moreover have "uint n mod uint d = 0 \<or> sgn (uint n mod uint d) = sgn (uint n)"
    using d uint_ge_0 [of n] by (auto simp: sgn_if not_less dest: order_antisym)
  ultimately show ?thesis
    using assms(1,3)
    by (intro divides_intro [OF refl refl refl refl refl])
      (simp_all only: if_False uint_small_cast m uint_div uint_mod abs_of_nonneg uint_ge_0)
qed

lemma sdiv_unsigned: "(0 :: int) \<le> n \<Longrightarrow> 0 < d \<Longrightarrow> n sdiv d = n div d"
  by (simp add: signed_divide_int_def sgn_if)

lemma sint_of_half: "- 32768 \<le> k \<Longrightarrow> k \<le> 32767 \<Longrightarrow> sint (word_of_int k :: u16) = k"
  by (simp add: sint_sbintrunc' signed_take_bit_int_eq_self)

lemma divides_signed:
  assumes "sint (ucast d :: u16) \<noteq> 0" and q: "q = sint n sdiv sint (ucast d :: u16)"
    and "- 32768 \<le> q" "q \<le> 32767" and r: "r = sint n smod sint (ucast d :: u16)"
  shows "divides True n d
    (push_bit 16 (word_of_int r AND 0xFFFF) OR ((word_of_int q AND 0xFFFF) AND 0xFFFF))"
proof -
  let ?d = "sint (ucast d :: u16)"
  have "\<bar>r\<bar> < \<bar>?d\<bar>"
    using assms(1) by (simp add: r signed_modulo_int_def abs_mult)
  moreover have "\<bar>?d\<bar> \<le> 32768"
    using sint_ge [of "ucast d :: u16"] sint_less [of "ucast d :: u16"] by simp
  moreover have "sint n = q * ?d + r"
    by (simp only: q r sdiv_mult_smod_eq)
  moreover have "r = 0 \<or> sgn r = sgn (sint n)" unfolding r by (rule smod_sgn)
  moreover have "sint (ucast (word_of_int q AND 0xFFFF :: u32) :: u16) = q"
    using assms(3,4) by (simp add: word_and cast_of_int sint_of_half)
  moreover have "\<bar>r\<bar> < 32768" using calculation(1,2) by simp
  then have "sint (ucast (word_of_int r AND 0xFFFF :: u32) :: u16) = r"
    by (simp add: word_and cast_of_int sint_of_half abs_less_iff)
  ultimately show ?thesis
    by (intro divides_intro [where q = q and r = r, OF refl refl refl]) simp_all
qed

text \<open>C28: DIVU and DIVS, register form. A zero divisor raises the divide exception and does
  nothing else. Otherwise, when the quotient truncated towards zero fits 16 bits, the
  low word of the destination is the quotient and the high word the remainder: they satisfy
  the division equation, the remainder is smaller than the divisor and has the sign of the
  dividend, Z says that the quotient is zero and N is its upper bit; when it does not fit, every register is left alone and overflow is set.\<close>

theorem div_meaning:
  assumes "bits opcode 3 7 = 0" and "bits opcode 6 7 = (if sg then 7 else 3)"
    and i: "i = bits opcode 9 7" and "r = bits opcode 0 7"
    and n: "n = d_regs s i" and d: "d = d_regs s r AND 0xFFFF"
    and q: "q = (if sg then sint n sdiv sint (ucast d :: u16) else uint n sdiv uint d)"
  shows "if d = 0 then m68k_exec_div env opcode s = m68k_exception env 5 s
    else (\<exists>s'. m68k_exec_div env opcode s = Ret () s' \<and>
      (if (if sg then - 32768 \<le> q \<and> q \<le> 32767 else q \<le> 65535)
       then divides sg n d (d_regs s' i) \<and> sr_flag M68K_SR_Z s' = (q = 0) \<and>
         sr_flag M68K_SR_N s' = bit (d_regs s' i) 15 \<and> \<not> sr_flag M68K_SR_V s' \<and> (\<forall>j. j \<noteq> i \<longrightarrow> d_regs s' j = d_regs s j)
       else d_regs s' = d_regs s \<and> sr_flag M68K_SR_V s') \<and>
      \<not> sr_flag M68K_SR_C s' \<and> sr_flag M68K_SR_X s' = sr_flag M68K_SR_X s \<and>
      a_regs s' = a_regs s \<and> pc s' = pc s)"
proof (cases "d = 0")
  case True
  then show ?thesis
    using assms by (simp add: m68k_exec_div_def Let_def not_data_source_def)
next
  case False
  have x: "sr_flag M68K_SR_X (spend c s) = sr_flag M68K_SR_X s" for c by (simp add: sr_flag_def)
  have small: "d \<le> 0xFFFF" unfolding d by (rule word_and_le1)
  show ?thesis
  proof (cases sg)
    case True
    define m where "m = sint n smod sint (ucast d :: u16)"
    have z: "sint (ucast d :: u16) \<noteq> 0"
      using False small uint_small_cast [of d] by (metis signed_eq_0_iff uint_0_iff)
    have e: "m68k_exec_div env opcode s = (let s1 = spend (divs_cycles n d) s
       in if q < - 32768 \<or> q > 32767 then Ret () (div_overflow s1)
          else Ret () (div_commit i (word_of_int m AND 0xFFFF) (word_of_int q AND 0xFFFF) s1))"
      using False True assms by (simp add: m68k_exec_div_def Let_def not_data_source_def m_def)
    have "divides True n d (push_bit 16 (word_of_int m AND 0xFFFF) OR ((word_of_int q AND 0xFFFF) AND 0xFFFF))"
      if "- 32768 \<le> q" "q \<le> 32767"
      using that True by (intro divides_signed z) (simp_all add: q m_def)
    moreover have "(word_of_int q AND 0xFFFF = (0 :: u32)) = (q = 0)"
      if "- 32768 \<le> q" "q \<le> 32767"
      using mask_uval [of "word_of_int q" SIZE_WORD] sint_of_half [OF that]
      by (auto simp: uval_def cast_of_int uint_0_iff)
    ultimately show ?thesis
      using False True by (auto simp: e Let_def div_flags div_sign x)
  next
    case sg: False
    have dp: "0 < uint d" using False uint_ge_0 [of d] uint_0_iff [of d] by linarith
    have qw: "q = uint (n div d)" using sg dp by (simp add: q sdiv_unsigned uint_div)
    have e: "m68k_exec_div env opcode s = (let s1 = spend (divu_cycles n d) s
       in if n div d > 0xFFFF then Ret () (div_overflow s1)
          else Ret () (div_commit i (n mod d) (n div d) s1))"
      using False sg assms by (simp add: m68k_exec_div_def Let_def not_data_source_def)
    have "q \<le> 65535 \<longleftrightarrow> n div d \<le> 0xFFFF" by (simp add: qw word_le_def)
    moreover have "q = 0 \<longleftrightarrow> n div d = 0" by (simp only: qw uint_0_iff)
    ultimately show ?thesis
      using False sg divides_unsigned [OF small False, of n]
      by (auto simp: e Let_def div_flags div_sign x not_le)
  qed
qed

lemma div_meaning_witness:
  "\<exists>s'. m68k_exec_div no_callbacks 0x83C2 (set_d 1 0xFFFFFFF9 (set_d 2 2 trap_state)) = Ret () s' \<and>
     divides True 0xFFFFFFF9 2 (d_regs s' 1)"
proof -
  define s where "s = set_d 1 0xFFFFFFF9 (set_d 2 2 trap_state)"
  have "if (2 :: u32) = 0 then m68k_exec_div no_callbacks 0x83C2 s = m68k_exception no_callbacks 5 s
    else (\<exists>s'. m68k_exec_div no_callbacks 0x83C2 s = Ret () s' \<and>
      (if (if True then - 32768 \<le> (- 3 :: int) \<and> - 3 \<le> (32767 :: int) else - 3 \<le> (65535 :: int))
       then divides True 0xFFFFFFF9 2 (d_regs s' 1) \<and> sr_flag M68K_SR_Z s' = (- 3 = (0 :: int)) \<and>
         sr_flag M68K_SR_N s' = bit (d_regs s' 1) 15 \<and> \<not> sr_flag M68K_SR_V s' \<and> (\<forall>j. j \<noteq> 1 \<longrightarrow> d_regs s' j = d_regs s j)
       else d_regs s' = d_regs s \<and> sr_flag M68K_SR_V s') \<and>
      \<not> sr_flag M68K_SR_C s' \<and> sr_flag M68K_SR_X s' = sr_flag M68K_SR_X s \<and>
      a_regs s' = a_regs s \<and> pc s' = pc s)"
    by (rule div_meaning [where r = 2]) (simp_all add: bits_def signed_divide_int_def s_def)
  then show ?thesis
    unfolding s_def by auto
qed

subsection \<open>Decimal numbers\<close>

text \<open>The packed decimal byte of a number below 100.\<close>

definition bcd :: "int \<Rightarrow> int" where
  "bcd n = 16 * (n div 10) + n mod 10"

lemma bcd_digits [simp]: "0 \<le> l \<Longrightarrow> l < 10 \<Longrightarrow> bcd (10 * h + l) = 16 * h + l"
  by (simp add: bcd_def)

lemma bcd_zero: "0 \<le> n \<Longrightarrow> bcd n = 0 \<longleftrightarrow> n = 0"
  unfolding bcd_def by presburger

lemma bcd_below: "0 \<le> n \<Longrightarrow> n < 100 \<Longrightarrow> 0 \<le> bcd n \<and> bcd n < 256"
  unfolding bcd_def by presburger

lemma word_take_bit: "take_bit n (word_of_int k :: u32) = word_of_int (take_bit n k)"
  by (rule bit_word_eqI) (auto simp: bit_simps)

lemma word_digits:
  "(word_of_int k :: u32) AND 0x0F = word_of_int (k mod 16)"
  "(word_of_int k :: u32) AND 0xFF = word_of_int (k mod 256)"
proof -
  have m: "(0x0F :: u32) = mask 4" "(0xFF :: u32) = mask 8" by (simp_all add: mask_eq_exp_minus_1)
  have t: "take_bit 4 k = k mod 16" "take_bit 8 k = k mod 256" by (simp_all add: take_bit_eq_mod)
  show "(word_of_int k :: u32) AND 0x0F = word_of_int (k mod 16)"
    "(word_of_int k :: u32) AND 0xFF = word_of_int (k mod 256)"
    unfolding m take_bit_eq_mask [symmetric] word_take_bit t by (rule refl)+
qed

lemma byte_of_int: "(ucast (word_of_int k :: u32) :: u8) = word_of_int (k mod 256)"
  by (simp add: cast_of_int word_of_int_eq_iff take_bit_eq_mod)

lemma word_greater:
  assumes "0 \<le> k" and "k < 4096"
  shows "(9 < (word_of_int k :: u32)) = (9 < k)" "(0xFF < (word_of_int k :: u32)) = (255 < k)"
    "(0x90 < (word_of_int k :: u32)) = (144 < k)"
  using assms by (simp_all add: word_less_def unsigned_of_int take_bit_int_eq_self)

lemma high_nibble: "(word_of_int k :: u32) AND 0xF0 = word_of_int (16 * ((k mod 256) div 16))"
proof -
  have "(w :: u32) AND 0xF0 = (w AND 0xFF) - (w AND 0x0F)" for w
  proof -
    have "w AND 0xFF = (w AND 0xF0) OR (w AND 0x0F)"
      by (subst bit.conj_disj_distrib [symmetric]) simp
    also have "\<dots> = (w AND 0xF0) + (w AND 0x0F)"
      by (rule disjunctive_add_eq_or [symmetric]) (simp add: ac_simps)
    finally show ?thesis by simp
  qed
  then have "(word_of_int k :: u32) AND 0xF0 = word_of_int (k mod 256 - k mod 16)"
    by (simp add: word_digits)
  moreover have "k mod 256 - k mod 16 = 16 * ((k mod 256) div 16)"
    using minus_mod_eq_mult_div [of "k mod 256" 16] by (simp add: mod_mod_cancel)
  ultimately show ?thesis by simp
qed

lemma digits_of:
  assumes "0 \<le> (n :: int)" and "n < 100"
  obtains h l where "n = 10 * h + l" "0 \<le> h" "h < 10" "0 \<le> l" "l < 10" "bcd n = 16 * h + l"
proof (rule that [of "n div 10" "n mod 10"])
  show "n = 10 * (n div 10) + n mod 10" by (rule mult_div_mod_eq [symmetric])
  show "0 \<le> n div 10" using assms by (simp add: pos_imp_zdiv_nonneg_iff)
  show "n div 10 < 10" using assms by linarith
  show "0 \<le> n mod 10" "n mod 10 < 10" by simp_all
  show "bcd n = 16 * (n div 10) + n mod 10" by (rule bcd_def)
qed

lemma mod_wrap:
  fixes k m :: int
  shows "m \<le> k \<Longrightarrow> k < 2 * m \<Longrightarrow> k mod m = k - m" and "k < 0 \<Longrightarrow> - m \<le> k \<Longrightarrow> k mod m = k + m"
  using mod_pos_pos_trivial [of "k - m" m] mod_pos_pos_trivial [of "k + m" m] by simp_all

text \<open>Decimal addition and subtraction on a tens and a units digit with carry or borrow, and
  the adjustments of the hardware algorithm.\<close>

lemma decimal_add:
  fixes h low :: int
  assumes "0 \<le> h" "h < 19" "0 \<le> low" "low < 20"
    and r: "r = 16 * h + low + (if low > 9 then 6 else 0)"
  shows "159 < r \<longleftrightarrow> 99 < 10 * h + low"
    and "bcd ((10 * h + low) mod 100) = (r + (if 159 < r then 96 else 0)) mod 256"
proof -
  define hi lo where "hi = h + (if low > 9 then 1 else 0)" and "lo = low - (if low > 9 then 10 else 0)"
  have r: "r = 16 * hi + lo" and t: "10 * h + low = 10 * hi + lo" by (simp_all add: r hi_def lo_def)
  have b: "0 \<le> hi" "hi < 20" "0 \<le> lo" "lo < 10" using assms by (auto simp: hi_def lo_def)
  show c: "159 < r \<longleftrightarrow> 99 < 10 * h + low"
    unfolding r t using b by presburger
  show "bcd ((10 * h + low) mod 100) = (r + (if 159 < r then 96 else 0)) mod 256"
  proof (cases "hi < 10")
    case True
    then show ?thesis unfolding t r using b by simp
  next
    case False
    have "(10 * hi + lo) mod 100 = 10 * (hi - 10) + lo" using False b by (simp add: mod_wrap(1))
    moreover have "(16 * hi + lo + 96) mod 256 = 16 * (hi - 10) + lo"
      using False b by (simp add: mod_wrap(1))
    moreover have "bcd (10 * (hi - 10) + lo) = 16 * (hi - 10) + lo" using b by (intro bcd_digits)
    moreover have "159 < 16 * hi + lo" using False b by linarith
    ultimately show ?thesis unfolding t r by simp
  qed
qed

lemma abcd_digits:
  assumes "0 \<le> al" "al < 10" "0 \<le> ah" "ah < 10" "0 \<le> bl" "bl < 10" "0 \<le> bh" "bh < 10" "x = 0 \<or> x = 1"
    and "t = 10 * (ah + bh) + (al + bl + x)"
  shows "\<exists>v. abcd_result (word_of_int (16 * ah + al)) (word_of_int (16 * bh + bl)) (word_of_int x) =
    (word_of_int (bcd (t mod 100)), 99 < t, v)"
proof -
  define low where "low = al + bl + x"
  define r where "r = 16 * (ah + bh) + low + (if low > 9 then 6 else 0)"
  have l: "0 \<le> low" "low < 20" using assms by (auto simp: low_def)
  have t: "t = 10 * (ah + bh) + low" using assms by (simp add: low_def)
  have h: "0 \<le> ah + bh" "ah + bh < 19" using assms by auto
  note bd = decimal_add(2) [OF h l r_def, folded t] and cd = decimal_add(1) [OF h l r_def, folded t]
  have d: "(16 * h + l) mod 16 = l" "(16 * h + l) mod 256 = 16 * h + l"
    if "0 \<le> h" "h < 10" "0 \<le> l" "l < 10" for h l :: int
    using that by simp_all
  have b0: "(word_of_int (16 * ah + al) :: u32) + word_of_int (16 * bh + bl) + word_of_int x =
      word_of_int (16 * (ah + bh) + low)"
    by (simp add: low_def algebra_simps)
  have n: "(word_of_int al :: u32) + word_of_int bl + word_of_int x = word_of_int low"
    by (simp add: low_def)
  have s: "(if 9 < (word_of_int low :: u32) then word_of_int (16 * (ah + bh) + low) + 6
      else word_of_int (16 * (ah + bh) + low) :: u32) = word_of_int r"
    using l by (simp add: word_greater r_def)
  have r: "0 \<le> r" "r < 4096" using assms l by (auto simp: r_def)
  have b: "16 * (ah + bh) + low \<le> r" by (simp add: r_def)
  have c: "(0xFF < (word_of_int (16 * (ah + bh) + low) :: u32) \<or> 0xFF < (word_of_int r :: u32) \<or>
      0x90 < (word_of_int r AND 0xF0 :: u32)) = (159 < r)"
  proof -
    have m: "0 \<le> r mod 256" "r mod 256 < 256" by simp_all
    then have "16 * ((r mod 256) div 16) < 4096" "0 \<le> 16 * ((r mod 256) div 16)"
      by (linarith, simp add: pos_imp_zdiv_nonneg_iff)
    then have "(0x90 < (word_of_int r AND 0xF0 :: u32)) = (144 < 16 * ((r mod 256) div 16))"
      by (simp only: high_nibble word_greater)
    moreover have "r < 256 \<Longrightarrow> (144 < 16 * ((r mod 256) div 16)) = (159 < r)"
      using r by (simp add: mod_pos_pos_trivial) linarith
    moreover have "(0xFF < (word_of_int (16 * (ah + bh) + low) :: u32)) = (255 < 16 * (ah + bh) + low)"
      using h l b r by (intro word_greater) auto
    ultimately show ?thesis using r b by (cases "r < 256") (auto simp: word_greater)
  qed
  have res: "(ucast (if 159 < r then word_of_int r + 0x60 else word_of_int r :: u32) :: u8) =
      word_of_int ((r + (if 159 < r then 96 else 0)) mod 256)"
    using byte_of_int [of r] byte_of_int [of "r + 96"] by simp
  show ?thesis
    unfolding abcd_result_def Let_def word_digits d [OF assms(3,4,1,2)] d [OF assms(7,8,5,6)] b0 n s c res
    by (simp add: bd cd)
qed

lemma decimal_sub:
  fixes h low :: int
  assumes "- 10 < h" "h < 10" "- 11 < low" "low < 10"
    and r: "r = 16 * h + low - (if low < 0 then 6 else 0)"
    and c: "c \<longleftrightarrow> 16 * h + low < 0"
  shows "c \<longleftrightarrow> 10 * h + low < 0" and "\<not> c \<Longrightarrow> 0 \<le> r"
    and "bcd ((10 * h + low) mod 100) = (r - (if c then 96 else 0)) mod 256"
proof -
  define hi lo where "hi = h - (if low < 0 then 1 else 0)" and "lo = low + (if low < 0 then 10 else 0)"
  have r: "r = 16 * hi + lo" and t: "10 * h + low = 10 * hi + lo" by (simp_all add: r hi_def lo_def)
  have b: "- 11 < hi" "hi < 10" "0 \<le> lo" "lo < 10" using assms by (auto simp: hi_def lo_def)
  have c: "c \<longleftrightarrow> hi < 0" unfolding c using assms by (auto simp: hi_def)
  show "c \<longleftrightarrow> 10 * h + low < 0" unfolding t c using b by presburger
  show "\<not> c \<Longrightarrow> 0 \<le> r" unfolding r c using b by simp
  show "bcd ((10 * h + low) mod 100) = (r - (if c then 96 else 0)) mod 256"
  proof (cases "hi < 0")
    case False
    then show ?thesis unfolding t r c using b by simp
  next
    case True
    have "(10 * hi + lo) mod 100 = 10 * (hi + 10) + lo" using True b by (simp add: mod_wrap(2))
    moreover have "(16 * hi + lo - 96) mod 256 = 16 * (hi + 10) + lo"
      using True b by (simp add: mod_wrap(2))
    moreover have "bcd (10 * (hi + 10) + lo) = 16 * (hi + 10) + lo" using b by (intro bcd_digits)
    ultimately show ?thesis unfolding t r c using True by simp
  qed
qed

lemma sbcd_digits:
  assumes "0 \<le> al" "al < 10" "0 \<le> ah" "ah < 10" "0 \<le> bl" "bl < 10" "0 \<le> bh" "bh < 10" "x = 0 \<or> x = 1"
    and "t = 10 * (bh - ah) + (bl - al - x)"
  shows "\<exists>v. sbcd_result (word_of_int (16 * ah + al)) (word_of_int (16 * bh + bl)) (word_of_int x) =
    (word_of_int (bcd (t mod 100)), t < 0, v)"
proof -
  define low where "low = bl - al - x"
  define bin where "bin = 16 * (bh - ah) + low"
  define c where "c = (bin < 0)"
  define r where "r = bin - (if low < 0 then 6 else 0)"
  have l: "- 11 < low" "low < 10" using assms by (auto simp: low_def)
  have t: "t = 10 * (bh - ah) + low" using assms by (simp add: low_def)
  have h: "- 10 < bh - ah" "bh - ah < 10" using assms by auto
  note k = decimal_sub [OF h l r_def [unfolded bin_def] c_def [unfolded bin_def], folded t]
  have d: "(16 * h + l) mod 16 = l" "(16 * h + l) mod 256 = 16 * h + l"
    if "0 \<le> h" "h < 10" "0 \<le> l" "l < 10" for h l :: int
    using that by simp_all
  have b: "(word_of_int (16 * bh + bl) :: u32) - word_of_int (16 * ah + al) - word_of_int x =
      word_of_int bin"
    by (simp add: bin_def low_def algebra_simps)
  have n: "(word_of_int bl :: u32) - word_of_int al - word_of_int x = word_of_int low"
    by (simp add: low_def)
  have small: "sint (word_of_int m :: u32) = m" if "- 4096 < m" "m < 4096" for m
    by (rule sint_of_small) (use that in auto)
  have bounds: "- 4096 < low" "low < 4096" "- 4096 < bin" "bin < 4096"
    "- 4096 < r" "r < 4096" "- 4096 < r - 96" using h l by (auto simp: r_def bin_def)
  have s1: "(if sint (word_of_int low :: u32) < 0 then word_of_int bin - 6
      else word_of_int bin :: u32) = word_of_int r"
    using bounds by (simp add: small r_def)
  have s2: "(if sint (word_of_int bin :: u32) < 0 then word_of_int r - 0x60
      else word_of_int r :: u32) = word_of_int (r - (if c then 96 else 0))"
    using bounds by (simp add: small c_def)
  have s3: "(sint (word_of_int bin :: u32) < 0 \<or>
      sint (word_of_int (r - (if c then 96 else 0)) :: u32) < 0) = c"
    using bounds k(2) by (auto simp: small c_def)
  have res: "(ucast ((word_of_int (r - (if c then 96 else 0)) :: u32) AND 0xFF) :: u8) =
      word_of_int ((r - (if c then 96 else 0)) mod 256)"
    by (simp only: word_digits byte_of_int mod_mod_trivial)
  show ?thesis
    unfolding sbcd_result_def Let_def word_digits d [OF assms(3,4,1,2)] d [OF assms(7,8,5,6)] b n s1 s2 s3 res
    by (simp add: k(1,3) byte_of_int)
qed

text \<open>The instructions: the digits and the flags.\<close>

lemma bcd_flags_bits:
  "sr_flag M68K_SR_C (bcd_flags r c v s) = c" "sr_flag M68K_SR_X (bcd_flags r c v s) = c"
  "sr_flag M68K_SR_Z (bcd_flags r c v s) = (sr_flag M68K_SR_Z s \<and> r = 0)"
  unfolding bcd_flags_def Let_def
  by (auto simp: sr_flag_clear_other sr_flag_clear_same sr_bit_defs)

lemma bcd_flags_registers [simp]:
  "d_regs (bcd_flags r c v s) = d_regs s" "a_regs (bcd_flags r c v s) = a_regs s"
  "pc (bcd_flags r c v s) = pc s"
  by (simp_all add: bcd_flags_def sr_set_if_def sr_clear_def Let_def)

lemma low_byte_merge:
  "ucast ((w AND 0xFFFFFF00) OR ucast (b :: u8) :: u32) = b"
  "((w AND 0xFFFFFF00) OR ucast (b :: u8) :: u32) AND 0xFFFFFF00 = w AND 0xFFFFFF00"
proof -
  have m: "(0xFFFFFF00 :: u32) = NOT (mask 8)" by (simp add: mask_eq_exp_minus_1)
  show "ucast ((w AND 0xFFFFFF00) OR ucast b :: u32) = b"
    "((w AND 0xFFFFFF00) OR ucast b :: u32) AND 0xFFFFFF00 = w AND 0xFFFFFF00"
    unfolding m by (rule bit_word_eqI, auto simp: bit_simps)+
qed

text \<open>C29: ABCD and SBCD, register form, are decimal arithmetic with carry: on two packed decimal
  bytes the low byte of the destination becomes the packed decimal sum or difference
  (with the extend bit) modulo 100, carry and extend say whether it left the range 0 to 99,
  zero is only ever cleared, and the upper three bytes and every other register are kept.\<close>

theorem bcd_decimal:
  assumes "bits opcode 3 1 = 0" and rx: "rx = bits opcode 9 7" and ry: "ry = bits opcode 0 7"
    and "0 \<le> a" "a < 100" "d_regs s ry AND 0xFF = word_of_int (bcd a)"
    and "0 \<le> b" "b < 100" "d_regs s rx AND 0xFF = word_of_int (bcd b)"
    and x: "x = (if sr_flag M68K_SR_X s then 1 else 0)"
    and t: "t = (if add then b + a + x else b - a - x)"
  shows "\<exists>s'. (if add then m68k_exec_abcd env opcode s else m68k_exec_sbcd env opcode s) = Ret () s' \<and>
    ucast (d_regs s' rx) = (word_of_int (bcd (t mod 100)) :: u8) \<and>
    d_regs s' rx AND 0xFFFFFF00 = d_regs s rx AND 0xFFFFFF00 \<and>
    (\<forall>j. j \<noteq> rx \<longrightarrow> d_regs s' j = d_regs s j) \<and>
    sr_flag M68K_SR_C s' = (t < 0 \<or> 99 < t) \<and> sr_flag M68K_SR_X s' = (t < 0 \<or> 99 < t) \<and>
    sr_flag M68K_SR_Z s' = (sr_flag M68K_SR_Z s \<and> t mod 100 = 0)"
proof -
  obtain ah al where a: "a = 10 * ah + al" "0 \<le> ah" "ah < 10" "0 \<le> al" "al < 10" "bcd a = 16 * ah + al"
    using assms(4,5) by (rule digits_of)
  obtain bh bl where b: "b = 10 * bh + bl" "0 \<le> bh" "bh < 10" "0 \<le> bl" "bl < 10" "bcd b = 16 * bh + bl"
    using assms(7,8) by (rule digits_of)
  have xb: "x_bit s = word_of_int x" "x = 0 \<or> x = 1" by (simp_all add: x x_bit_def)
  have "\<exists>v. (if add then abcd_result (word_of_int (bcd a)) (word_of_int (bcd b)) (x_bit s)
      else sbcd_result (word_of_int (bcd a)) (word_of_int (bcd b)) (x_bit s)) =
      (word_of_int (bcd (t mod 100)), t < 0 \<or> 99 < t, v)"
  proof (cases add)
    case True
    then have "\<not> t < 0" using x a b t by auto
    moreover have "t = 10 * (ah + bh) + (al + bl + x)" using True a b t by simp
    ultimately show ?thesis
      using True abcd_digits [OF a(4,5,2,3) b(4,5,2,3) xb(2), of t] by (simp add: xb a(6) b(6))
  next
    case False
    then have "\<not> 99 < t" using x a b t by auto
    moreover have "t = 10 * (bh - ah) + (bl - al - x)" using False a b t by simp
    ultimately show ?thesis
      using False sbcd_digits [OF a(4,5,2,3) b(4,5,2,3) xb(2), of t] by (simp add: xb a(6) b(6))
  qed
  then obtain v where v: "(if add then abcd_result (word_of_int (bcd a)) (word_of_int (bcd b)) (x_bit s)
      else sbcd_result (word_of_int (bcd a)) (word_of_int (bcd b)) (x_bit s)) =
      (word_of_int (bcd (t mod 100)), t < 0 \<or> 99 < t, v)" ..
  have "(if add then m68k_exec_abcd env opcode s else m68k_exec_sbcd env opcode s) =
    (let s1 = bcd_flags (word_of_int (bcd (t mod 100))) (t < 0 \<or> 99 < t) v s
     in Ret () (set_d rx ((d_regs s rx AND 0xFFFFFF00) OR ucast (word_of_int (bcd (t mod 100)) :: u8)) s1))"
    using v assms(1,6,9) rx ry
    by (auto simp: m68k_exec_abcd_def m68k_exec_sbcd_def bcd_operands_def Let_def split: if_splits)
  moreover have "(word_of_int (bcd (t mod 100)) = (0 :: u8)) = (t mod 100 = 0)"
  proof -
    have "0 \<le> t mod 100" "t mod 100 < 100" by simp_all
    note k = bcd_below [OF this] bcd_zero [OF this(1)]
    then have "uint (word_of_int (bcd (t mod 100)) :: u8) = bcd (t mod 100)"
      by (simp add: unsigned_of_int take_bit_int_eq_self)
    then show ?thesis using k(2) by (metis uint_0_iff)
  qed
  ultimately show ?thesis
    by (simp add: Let_def low_byte_merge bcd_flags_bits)
qed

lemma bcd_decimal_witness:
  "\<exists>s'. m68k_exec_abcd no_callbacks 0xC302 (set_d 1 0x12345675 (set_d 2 0x48 trap_state)) = Ret () s' \<and>
     ucast (d_regs s' 1) = (0x23 :: u8) \<and> sr_flag M68K_SR_C s'"
proof -
  define s where "s = set_d 1 0x12345675 (set_d 2 0x48 trap_state)"
  have "\<exists>s'. (if True then m68k_exec_abcd no_callbacks 0xC302 s else m68k_exec_sbcd no_callbacks 0xC302 s) = Ret () s' \<and>
    ucast (d_regs s' 1) = (word_of_int (bcd (123 mod 100)) :: u8) \<and>
    d_regs s' 1 AND 0xFFFFFF00 = d_regs s 1 AND 0xFFFFFF00 \<and>
    (\<forall>j. j \<noteq> 1 \<longrightarrow> d_regs s' j = d_regs s j) \<and>
    sr_flag M68K_SR_C s' = (123 < (0 :: int) \<or> 99 < (123 :: int)) \<and>
    sr_flag M68K_SR_X s' = (123 < (0 :: int) \<or> 99 < (123 :: int)) \<and>
    sr_flag M68K_SR_Z s' = (sr_flag M68K_SR_Z s \<and> 123 mod 100 = (0 :: int))"
    by (rule bcd_decimal [where ry = 2 and a = 48 and b = 75 and x = 0])
      (simp_all add: bits_def bcd_def s_def sr_flag_def)
  then show ?thesis
    unfolding s_def by (auto simp: bcd_def)
qed

end
