(* ===== verification/M68k_Bit.thy ===== *)
theory M68k_Bit
  imports M68k_Flags
begin

section \<open>Bit instructions\<close>

text \<open>
  The handlers of \<open>src/m68k/ops_bit.c\<close>: BTST, BSET, BCLR, BCHG and TAS. The bit
  number counts modulo 32 in a data register and modulo 8 in memory.
\<close>

definition get_bit_mask :: "u32 \<Rightarrow> bool \<Rightarrow> u32" where
  "get_bit_mask bit_num is_register =
     (if is_register then push_bit (unat (bit_num AND 31)) 1
      else push_bit (unat (bit_num AND 7)) 1)"

text \<open>The bit number: a data register in the dynamic form, and an extension word in the
  static one.\<close>

definition bit_number :: "'h host_callbacks \<Rightarrow> u16 \<Rightarrow> 'h cpu \<Rightarrow> ('h, u32) out" where
  "bit_number env opcode s =
     (if opcode AND 0x0100 \<noteq> 0 then Ret (d_regs s (bits opcode 9 0x7)) s
      else andthen (m68k_fetch env s) (\<lambda>w s. Ret (ucast (w AND 0xFF)) s))"

definition test_bit_flag :: "u32 \<Rightarrow> u32 \<Rightarrow> 'h cpu \<Rightarrow> 'h cpu" where
  "test_bit_flag data bmask s =
     (if data AND bmask \<noteq> 0 then sr_clear M68K_SR_Z s else s\<lparr>sr := sr s OR M68K_SR_Z\<rparr>)"

definition m68k_exec_btst :: "'h host_callbacks \<Rightarrow> u16 \<Rightarrow> 'h cpu \<Rightarrow> ('h, unit) out" where
  "m68k_exec_btst env opcode s =
     (let is_dynamic = (opcode AND 0x0100 \<noteq> 0);
          mode = bits opcode 3 0x7;
          reg = bits opcode 0 0x7
      in if mode = 1 \<or> (mode = 7 \<and> (reg > 4 \<or> (\<not> is_dynamic \<and> reg = 4)))
      then m68k_exception env 4 s
      else andthen (bit_number env opcode s) (\<lambda>bit_num s.
        let is_register = (mode = 0);
            bmask = get_bit_mask bit_num is_register
        in if is_register then Ret () (test_bit_flag (d_regs s reg) bmask s)
           else andthen (m68k_calc_ea env mode reg SIZE_BYTE s) (\<lambda>ea s.
                Ret () (test_bit_flag (ea_value ea AND 0xFF) bmask s))))"

text \<open>BSET, BCLR and BCHG share their text up to the operation on the data.\<close>

definition bit_modify ::
  "(u32 \<Rightarrow> u32 \<Rightarrow> u32) \<Rightarrow> 'h host_callbacks \<Rightarrow> u16 \<Rightarrow> 'h cpu \<Rightarrow> ('h, unit) out" where
  "bit_modify f env opcode s =
     (let mode = bits opcode 3 0x7;
          reg = bits opcode 0 0x7
      in if not_data_alterable mode reg then m68k_exception env 4 s
      else andthen (bit_number env opcode s) (\<lambda>bit_num s.
        let is_register = (mode = 0);
            bmask = get_bit_mask bit_num is_register
        in if is_register
           then (let data = d_regs s reg;
                     s = test_bit_flag data bmask s
                 in Ret () (set_d reg (f data bmask) s))
           else andthen (m68k_calc_ea env mode reg SIZE_BYTE s) (\<lambda>ea s.
             let data = ea_value ea AND 0xFF;
                 s = test_bit_flag data bmask s
             in m68k_write_8 env (address ea) (ucast (f data bmask)) s)))"

definition m68k_exec_bset :: "'h host_callbacks \<Rightarrow> u16 \<Rightarrow> 'h cpu \<Rightarrow> ('h, unit) out" where
  "m68k_exec_bset env opcode s = bit_modify (\<lambda>data m. data OR m) env opcode s"

definition m68k_exec_bclr :: "'h host_callbacks \<Rightarrow> u16 \<Rightarrow> 'h cpu \<Rightarrow> ('h, unit) out" where
  "m68k_exec_bclr env opcode s = bit_modify (\<lambda>data m. data AND NOT m) env opcode s"

definition m68k_exec_bchg :: "'h host_callbacks \<Rightarrow> u16 \<Rightarrow> 'h cpu \<Rightarrow> ('h, unit) out" where
  "m68k_exec_bchg env opcode s = bit_modify (\<lambda>data m. data XOR m) env opcode s"

definition m68k_exec_tas :: "'h host_callbacks \<Rightarrow> u16 \<Rightarrow> 'h cpu \<Rightarrow> ('h, unit) out" where
  "m68k_exec_tas env opcode s =
     (let mode = bits opcode 3 0x7;
          reg = bits opcode 0 0x7
      in if not_data_alterable mode reg then m68k_exception env 4 s
      else andthen (m68k_calc_ea env mode reg SIZE_BYTE s) (\<lambda>ea s.
        let data = (ucast (ea_value ea AND 0xFF) :: u8);
            s = sr_clear (M68K_SR_N OR M68K_SR_Z OR M68K_SR_V OR M68K_SR_C) s;
            s = sr_set_if (data = 0) M68K_SR_Z s;
            s = sr_set_if (data AND 0x80 \<noteq> 0) M68K_SR_N s;
            data = data OR 0x80;
            (allow_write, s) = (case tas_cb env of
              None \<Rightarrow> (True, s)
            | Some cb \<Rightarrow> (case cb s of (r, s) \<Rightarrow> (r \<noteq> 0, s)))
        in if allow_write
           then (if is_reg ea \<and> \<not> is_addr ea
                 then Ret () (set_d (reg_num ea)
                        ((d_regs s (reg_num ea) AND 0xFFFFFF00) OR ucast data) s)
                 else m68k_write_8 env (address ea) data s)
           else Ret () s))"

subsection \<open>Safety\<close>

context instruction begin

lemma bit_number_keeps:
  assumes "cpu_inv p w c s" and bound: "bound_ok t c"
  shows "keeps (cpu_inv p w c) (jump_inv p c) (bit_number env opcode s)"
  using assms unfolding bit_number_def by (auto intro!: keeps_andthen fetch_keeps st)

lemma inv_test_bit_flag: "cpu_inv p w c s \<Longrightarrow> cpu_inv p w c (test_bit_flag a b s)"
  by (simp add: test_bit_flag_def inv_sr_clear inv_sr_upd)

lemma bit_modify_keeps:
  assumes "cpu_inv p fresh c s" and "bound_ok t c"
  shows "keeps (cpu_inv p quiet c) (jump_inv p c) (bit_modify f env opcode s)"
  using assms unfolding bit_modify_def Let_def
  by (auto intro!: handler_intros bit_number_keeps inv_test_bit_flag)

lemma bit_keeps:
  assumes "cpu_inv p fresh c s" and "bound_ok t c"
  shows "keeps (cpu_inv p quiet c) (jump_inv p c) (m68k_exec_btst env opcode s)"
    and "keeps (cpu_inv p quiet c) (jump_inv p c) (m68k_exec_bset env opcode s)"
    and "keeps (cpu_inv p quiet c) (jump_inv p c) (m68k_exec_bclr env opcode s)"
    and "keeps (cpu_inv p quiet c) (jump_inv p c) (m68k_exec_bchg env opcode s)"
proof -
  show "keeps (cpu_inv p quiet c) (jump_inv p c) (m68k_exec_btst env opcode s)"
    unfolding m68k_exec_btst_def Let_def
    using assms
    by (intro keeps_if fresh_exception keeps_bind_fresh bit_number_keeps calc_ea_keeps)
       (auto intro!: handler_intros inv_test_bit_flag bit_number_keeps)
qed (use assms in \<open>simp_all add: m68k_exec_bset_def m68k_exec_bclr_def m68k_exec_bchg_def
      bit_modify_keeps\<close>)

lemma tas_keeps:
  assumes "cpu_inv p fresh c s" and "bound_ok t c"
  shows "keeps (cpu_inv p quiet c) (jump_inv p c) (m68k_exec_tas env opcode s)"
proof -
  have cb: "cpu_inv p fresh c s2" if "cpu_inv p fresh c s1"
    and "(case tas_cb env of None \<Rightarrow> (True, s1)
          | Some cb \<Rightarrow> (case cb s1 of (r, s) \<Rightarrow> (r \<noteq> 0, s))) = (w, s2)" for s1 s2 w
    using that host_inv(7) [OF callbacks_ok that(1) assms(2)]
    by (auto split: option.splits prod.splits)
  show ?thesis
    unfolding m68k_exec_tas_def Let_def
    using assms
    by (intro keeps_if fresh_exception keeps_bind_fresh calc_ea_keeps)
       (auto split: prod.split intro!: handler_intros elim!: cb [rotated])
qed

end

end
