(* ===== verification/M68k_Logic.thy ===== *)
theory M68k_Logic
  imports M68k_Flags
begin

section \<open>Logical and shift instructions\<close>

text \<open>
  The handlers of \<open>src/m68k/ops_logic.c\<close>: AND, OR, EOR, NOT, CLR, TST, the shifts and
  rotates (\<open>m68k_exec_shift\<close>, whose loops are the functions \<open>..._loop\<close>), and the
  immediate forms ANDI, ORI, EORI with their CCR and SR variants. A long immediate is
  fetched high word first, which C leaves open. The theorems state what the shifts and rotates
  compute: products, quotients and rotated rings of bits.
\<close>

subsection \<open>AND, OR, EOR, NOT\<close>

text \<open>The opmodes of AND and OR; 3 and 7 make the handlers return.\<close>

definition logic_opmode :: "nat \<Rightarrow> (M68kSize \<times> bool) option" where
  "logic_opmode opmode =
     (if opmode = 0 then Some (SIZE_BYTE, False)
      else if opmode = 1 then Some (SIZE_WORD, False)
      else if opmode = 2 then Some (SIZE_LONG, False)
      else if opmode = 4 then Some (SIZE_BYTE, True)
      else if opmode = 5 then Some (SIZE_WORD, True)
      else if opmode = 6 then Some (SIZE_LONG, True)
      else None)"

definition logic_invalid :: "bool \<Rightarrow> nat \<Rightarrow> nat \<Rightarrow> bool" where
  "logic_invalid dir_reg_to_ea mode reg =
     ((dir_reg_to_ea \<and> (mode < 2 \<or> (mode = 7 \<and> reg > 1))) \<or>
      (\<not> dir_reg_to_ea \<and> (mode = 1 \<or> (mode = 7 \<and> reg > 4))))"

definition m68k_exec_and :: "'h host_callbacks \<Rightarrow> u16 \<Rightarrow> 'h cpu \<Rightarrow> ('h, unit) out" where
  "m68k_exec_and env opcode s =
     (let reg_idx = bits opcode 9 0x7;
          opmode = bits opcode 6 0x7;
          mode = bits opcode 3 0x7;
          reg = bits opcode 0 0x7
      in case logic_opmode opmode of
           None \<Rightarrow> Ret () s
         | Some (sz, dir_reg_to_ea) \<Rightarrow>
             (if logic_invalid dir_reg_to_ea mode reg then m68k_exception env 4 s
              else andthen (m68k_calc_ea env mode reg sz s) (\<lambda>ea s.
                if dir_reg_to_ea
                then (let src = d_regs s reg_idx;
                          dest = ea_value ea;
                          result = dest AND src
                      in andthen (write_back env ea result sz s) (\<lambda>_ s.
                         Ret () (update_flags_logic result sz s)))
                else (let src = ea_value ea;
                          dest = d_regs s reg_idx;
                          result = dest AND src;
                          s = set_d reg_idx (merge_size sz dest result) s
                      in Ret () (update_flags_logic result sz s)))))"

definition m68k_exec_or :: "'h host_callbacks \<Rightarrow> u16 \<Rightarrow> 'h cpu \<Rightarrow> ('h, unit) out" where
  "m68k_exec_or env opcode s =
     (let reg_idx = bits opcode 9 0x7;
          opmode = bits opcode 6 0x7;
          mode = bits opcode 3 0x7;
          reg = bits opcode 0 0x7
      in case logic_opmode opmode of
           None \<Rightarrow> Ret () s
         | Some (sz, dir_reg_to_ea) \<Rightarrow>
             (if logic_invalid dir_reg_to_ea mode reg then m68k_exception env 4 s
              else andthen (m68k_calc_ea env mode reg sz s) (\<lambda>ea s.
                if dir_reg_to_ea
                then (let src = d_regs s reg_idx;
                          dest = ea_value ea;
                          result = dest OR src
                      in andthen (write_back env ea result sz s) (\<lambda>_ s.
                         Ret () (update_flags_logic result sz s)))
                else (let src = ea_value ea;
                          dest = d_regs s reg_idx;
                          result = dest OR src;
                          s = set_d reg_idx (merge_size sz dest result) s
                      in Ret () (update_flags_logic result sz s)))))"

definition eor_opmode :: "nat \<Rightarrow> M68kSize option" where
  "eor_opmode opmode =
     (if opmode = 4 then Some SIZE_BYTE
      else if opmode = 5 then Some SIZE_WORD
      else if opmode = 6 then Some SIZE_LONG
      else None)"

definition m68k_exec_eor :: "'h host_callbacks \<Rightarrow> u16 \<Rightarrow> 'h cpu \<Rightarrow> ('h, unit) out" where
  "m68k_exec_eor env opcode s =
     (let reg_idx = bits opcode 9 0x7;
          opmode = bits opcode 6 0x7;
          mode = bits opcode 3 0x7;
          reg = bits opcode 0 0x7
      in case eor_opmode opmode of
           None \<Rightarrow> Ret () s
         | Some sz \<Rightarrow>
             (if not_data_alterable mode reg then m68k_exception env 4 s
              else andthen (m68k_calc_ea env mode reg sz s) (\<lambda>ea s.
                let src = d_regs s reg_idx;
                    dest = ea_value ea;
                    result = dest XOR src
                in andthen (write_back env ea result sz s) (\<lambda>_ s.
                   Ret () (update_flags_logic result sz s)))))"

definition m68k_exec_not :: "'h host_callbacks \<Rightarrow> u16 \<Rightarrow> 'h cpu \<Rightarrow> ('h, unit) out" where
  "m68k_exec_not env opcode s =
     (let mode = bits opcode 3 0x7;
          reg = bits opcode 0 0x7
      in case size_code (bits opcode 6 0x3) of
           None \<Rightarrow> Ret () s
         | Some sz \<Rightarrow>
             (if not_data_alterable mode reg then m68k_exception env 4 s
              else andthen (m68k_calc_ea env mode reg sz s) (\<lambda>ea s.
                let result = NOT (ea_value ea)
                in andthen (write_back env ea result sz s) (\<lambda>_ s.
                   Ret () (update_flags_logic result sz s)))))"

subsection \<open>CLR and TST\<close>

definition m68k_exec_clr :: "'h host_callbacks \<Rightarrow> u16 \<Rightarrow> 'h cpu \<Rightarrow> ('h, unit) out" where
  "m68k_exec_clr env opcode s =
     (let mode = bits opcode 3 0x7;
          reg = bits opcode 0 0x7
      in case size_code (bits opcode 6 0x3) of
           None \<Rightarrow> Ret () s
         | Some sz \<Rightarrow>
             (if not_data_alterable mode reg then m68k_exception env 4 s
              else andthen (m68k_calc_ea env mode reg sz s) (\<lambda>ea s.
                andthen (if is_reg ea \<and> \<not> is_addr ea
                         then Ret () (set_d (reg_num ea)
                                (d_regs s (reg_num ea) AND NOT (value_mask sz)) s)
                         else andthen (m68k_read_size env (address ea) sz s) (\<lambda>_ s.
                              m68k_write_size env (address ea) 0 sz s)) (\<lambda>_ s.
                let s = sr_clear (M68K_SR_N OR M68K_SR_V OR M68K_SR_C OR M68K_SR_Z) s
                in Ret () (s\<lparr>sr := sr s OR M68K_SR_Z\<rparr>)))))"

definition m68k_exec_tst :: "'h host_callbacks \<Rightarrow> u16 \<Rightarrow> 'h cpu \<Rightarrow> ('h, unit) out" where
  "m68k_exec_tst env opcode s =
     (let mode = bits opcode 3 0x7;
          reg = bits opcode 0 0x7
      in case size_code (bits opcode 6 0x3) of
           None \<Rightarrow> Ret () s
         | Some sz \<Rightarrow>
             (if not_data_alterable mode reg then m68k_exception env 4 s
              else andthen (m68k_calc_ea env mode reg sz s) (\<lambda>ea s.
                let result = ea_value ea;
                    s = sr_clear (M68K_SR_N OR M68K_SR_Z OR M68K_SR_V OR M68K_SR_C) s;
                    s = sr_set_if (result AND msb_mask sz \<noteq> 0) M68K_SR_N s
                in Ret () (sr_set_if (result AND value_mask sz = 0) M68K_SR_Z s))))"

subsection \<open>Shifts and rotates\<close>

text \<open>The loops of the eight shift types. Each takes the count and the loop's variables
  and returns them: the result with the carry, the overflow or the extend flag.\<close>

primrec asr_loop :: "nat \<Rightarrow> u32 \<Rightarrow> u32 \<Rightarrow> bool \<Rightarrow> u32 \<times> bool" where
  "asr_loop 0 msb result carry = (result, carry)"
| "asr_loop (Suc n) msb result carry =
     (let carry = (result AND 1 \<noteq> 0);
          sign = result AND msb
      in asr_loop n msb (drop_bit 1 result OR sign) carry)"

primrec asl_loop ::
  "nat \<Rightarrow> u32 \<Rightarrow> u32 \<Rightarrow> u32 \<Rightarrow> bool \<Rightarrow> bool \<Rightarrow> u32 \<times> bool \<times> bool" where
  "asl_loop 0 vmask msb result carry overflow = (result, carry, overflow)"
| "asl_loop (Suc n) vmask msb result carry overflow =
     (let old_msb = (result AND msb \<noteq> 0);
          carry = old_msb;
          result = push_bit 1 result AND vmask;
          new_msb = (result AND msb \<noteq> 0)
      in asl_loop n vmask msb result carry (if old_msb \<noteq> new_msb then True else overflow))"

primrec lsr_loop :: "nat \<Rightarrow> u32 \<Rightarrow> bool \<Rightarrow> u32 \<times> bool" where
  "lsr_loop 0 result carry = (result, carry)"
| "lsr_loop (Suc n) result carry =
     (let carry = (result AND 1 \<noteq> 0) in lsr_loop n (drop_bit 1 result) carry)"

primrec lsl_loop :: "nat \<Rightarrow> u32 \<Rightarrow> u32 \<Rightarrow> u32 \<Rightarrow> bool \<Rightarrow> u32 \<times> bool" where
  "lsl_loop 0 vmask msb result carry = (result, carry)"
| "lsl_loop (Suc n) vmask msb result carry =
     (let carry = (result AND msb \<noteq> 0)
      in lsl_loop n vmask msb (push_bit 1 result AND vmask) carry)"

primrec roxr_loop :: "nat \<Rightarrow> u32 \<Rightarrow> u32 \<Rightarrow> bool \<Rightarrow> bool \<Rightarrow> u32 \<times> bool \<times> bool" where
  "roxr_loop 0 msb result ext carry = (result, ext, carry)"
| "roxr_loop (Suc n) msb result ext carry =
     (let out = (result AND 1 \<noteq> 0);
          result = drop_bit 1 result;
          result = (if ext then result OR msb else result)
      in roxr_loop n msb result out out)"

primrec roxl_loop ::
  "nat \<Rightarrow> u32 \<Rightarrow> u32 \<Rightarrow> u32 \<Rightarrow> bool \<Rightarrow> bool \<Rightarrow> u32 \<times> bool \<times> bool" where
  "roxl_loop 0 vmask msb result ext carry = (result, ext, carry)"
| "roxl_loop (Suc n) vmask msb result ext carry =
     (let out = (result AND msb \<noteq> 0);
          result = push_bit 1 result AND vmask;
          result = (if ext then result OR 1 else result)
      in roxl_loop n vmask msb result out out)"

primrec ror_loop :: "nat \<Rightarrow> u32 \<Rightarrow> u32 \<Rightarrow> bool \<Rightarrow> u32 \<times> bool" where
  "ror_loop 0 msb result carry = (result, carry)"
| "ror_loop (Suc n) msb result carry =
     (let carry = (result AND 1 \<noteq> 0);
          result = drop_bit 1 result;
          result = (if carry then result OR msb else result)
      in ror_loop n msb result carry)"

primrec rol_loop :: "nat \<Rightarrow> u32 \<Rightarrow> u32 \<Rightarrow> u32 \<Rightarrow> bool \<Rightarrow> u32 \<times> bool" where
  "rol_loop 0 vmask msb result carry = (result, carry)"
| "rol_loop (Suc n) vmask msb result carry =
     (let carry = (result AND msb \<noteq> 0);
          result = push_bit 1 result AND vmask;
          result = (if carry then result OR 1 else result)
      in rol_loop n vmask msb result carry)"

text \<open>The shift proper: the loop of the type and direction, then its condition codes
  other than N and Z.\<close>

definition shift_body :: "nat \<Rightarrow> bool \<Rightarrow> nat \<Rightarrow> M68kSize \<Rightarrow> u32 \<Rightarrow> 'h cpu \<Rightarrow> u32 \<times> 'h cpu" where
  "shift_body ty left count sz val s =
     (let vmask = value_mask sz;
          msb = msb_mask sz;
          ext = sr_flag M68K_SR_X s;
          all_flags = M68K_SR_N OR M68K_SR_Z OR M68K_SR_V OR M68K_SR_C OR M68K_SR_X;
          carry_extend = (\<lambda>carry s. if carry
            then (let s = s\<lparr>sr := sr s OR M68K_SR_C\<rparr> in s\<lparr>sr := sr s OR M68K_SR_X\<rparr>) else s)
      in if ty = 0
      then (case (if \<not> left
                  then (case asr_loop count msb val False of
                          (result, carry) \<Rightarrow> (result, carry, False))
                  else asl_loop count vmask msb val False False) of
              (result, carry, overflow) \<Rightarrow>
                (result, sr_set_if overflow M68K_SR_V (carry_extend carry (sr_clear all_flags s))))
      else if ty = 1
      then (case (if \<not> left then lsr_loop count val False
                  else lsl_loop count vmask msb val False) of
              (result, carry) \<Rightarrow> (result, carry_extend carry (sr_clear all_flags s)))
      else if ty = 2
      then (case (if \<not> left then roxr_loop count msb val ext False
                  else roxl_loop count vmask msb val ext False) of
              (result, ext, carry) \<Rightarrow>
                (result, sr_set_if ext M68K_SR_X
                           (sr_set_if carry M68K_SR_C (sr_clear all_flags s))))
      else (case (if \<not> left then ror_loop count msb val False
                  else rol_loop count vmask msb val False) of
              (result, carry) \<Rightarrow>
                (result, sr_set_if carry M68K_SR_C
                  (sr_clear (M68K_SR_N OR M68K_SR_Z OR M68K_SR_V OR M68K_SR_C) s))))"

definition m68k_exec_shift :: "'h host_callbacks \<Rightarrow> u16 \<Rightarrow> 'h cpu \<Rightarrow> ('h, unit) out" where
  "m68k_exec_shift env opcode s =
     (let finish = (\<lambda>sz result s.
            let s = sr_set_if (result AND msb_mask sz \<noteq> 0) M68K_SR_N s
            in sr_set_if (result = 0) M68K_SR_Z s)
      in if bits opcode 6 0x3 = 3
      then (let ty = bits opcode 9 0x3;
                dr = bits opcode 8 0x1;
                mode = bits opcode 3 0x7;
                reg = bits opcode 0 0x7
            in if mode < 2 \<or> (mode = 7 \<and> reg > 1) then m68k_exception env 4 s
               else andthen (m68k_calc_ea env mode reg SIZE_WORD s) (\<lambda>ea s.
                 let val = ea_value ea AND 0xFFFF AND value_mask SIZE_WORD
                 in case shift_body ty (dr \<noteq> 0) 1 SIZE_WORD val s of
                      (result, s) \<Rightarrow>
                        m68k_write_size env (address ea) result SIZE_WORD
                          (finish SIZE_WORD result s)))
      else (let count = bits opcode 9 0x7;
                dr = bits opcode 8 0x1;
                sz_bits = bits opcode 6 0x3;
                sz = (if sz_bits = 0 then SIZE_BYTE
                      else if sz_bits = 1 then SIZE_WORD else SIZE_LONG);
                from_register = (bits opcode 5 0x1 \<noteq> 0);
                ty = bits opcode 3 0x3;
                reg = bits opcode 0 0x7;
                count = (if from_register then unat (d_regs s count AND 63)
                         else if count = 0 then 8 else count);
                val = d_regs s reg AND value_mask sz
            in if count = 0
               then (let ext = sr_flag M68K_SR_X s;
                         s = sr_clear (M68K_SR_N OR M68K_SR_Z OR M68K_SR_V OR M68K_SR_C) s;
                         s = sr_set_if (val AND msb_mask sz \<noteq> 0) M68K_SR_N s;
                         s = sr_set_if (val = 0) M68K_SR_Z s
                     in Ret () (sr_set_if (ty = 2 \<and> ext) M68K_SR_C s))
               else (case shift_body ty (dr \<noteq> 0) count sz val s of
                       (result, s) \<Rightarrow>
                         (let s = finish sz result s
                          in Ret () (set_d reg (merge_size sz (d_regs s reg) result) s)))))"

subsection \<open>ANDI, ORI, EORI\<close>

text \<open>The forms on the condition codes and on the status register, with the operation
  of the instruction.\<close>

definition immediate_to_ccr ::
  "(u16 \<Rightarrow> u16 \<Rightarrow> u16) \<Rightarrow> 'h host_callbacks \<Rightarrow> 'h cpu \<Rightarrow> ('h, unit) out" where
  "immediate_to_ccr f env s =
     andthen (m68k_fetch env s) (\<lambda>imm s.
     let imm = imm AND 0x1F;
         ccr = f (sr s AND 0x1F) imm
     in Ret () (s\<lparr>sr := (sr s AND NOT 0x1F) OR ccr\<rparr>))"

text \<open>\<open>if (!(cpu->sr & M68K_SR_S)) { cpu->pc -= 2; m68k_exception(cpu, 8); return; }\<close>
  in front of every privileged handler.\<close>

definition privilege_violation :: "'h host_callbacks \<Rightarrow> 'h cpu \<Rightarrow> ('h, unit) out" where
  "privilege_violation env s = (let s = s\<lparr>pc := pc s - 2\<rparr> in m68k_exception env 8 s)"

definition immediate_to_sr ::
  "(u16 \<Rightarrow> u16 \<Rightarrow> u16) \<Rightarrow> 'h host_callbacks \<Rightarrow> 'h cpu \<Rightarrow> ('h, unit) out" where
  "immediate_to_sr f env s =
     (if \<not> sr_flag M68K_SR_S s then privilege_violation env s
      else andthen (m68k_fetch env s) (\<lambda>imm s. Ret () (m68k_set_sr (f (sr s) imm) s)))"

text \<open>The general form, whose text the three handlers share.\<close>

definition immediate_logic ::
  "(u32 \<Rightarrow> u32 \<Rightarrow> u32) \<Rightarrow> 'h host_callbacks \<Rightarrow> u16 \<Rightarrow> 'h cpu \<Rightarrow> ('h, unit) out" where
  "immediate_logic f env opcode s =
     (case size_code (bits opcode 6 0x3) of
        None \<Rightarrow> Ret () s
      | Some sz \<Rightarrow>
          (let mode = bits opcode 3 0x7;
               reg = bits opcode 0 0x7
           in if not_data_alterable mode reg then m68k_exception env 4 s
              else andthen (fetch_immediate env sz s) (\<lambda>imm s.
                let s = spend (if bits opcode 6 0x3 = 2 then 8 else 4) s
                in andthen (m68k_calc_ea env mode reg sz s) (\<lambda>ea s.
                   let result = f (ea_value ea) imm
                   in andthen (write_back env ea result sz s) (\<lambda>_ s.
                      Ret () (update_flags_logic result sz s))))))"

definition m68k_exec_andi :: "'h host_callbacks \<Rightarrow> u16 \<Rightarrow> 'h cpu \<Rightarrow> ('h, unit) out" where
  "m68k_exec_andi env opcode s =
     (if opcode = 0x023C then immediate_to_ccr (AND) env s
      else if opcode = 0x027C then immediate_to_sr (AND) env s
      else immediate_logic (AND) env opcode s)"

definition m68k_exec_ori :: "'h host_callbacks \<Rightarrow> u16 \<Rightarrow> 'h cpu \<Rightarrow> ('h, unit) out" where
  "m68k_exec_ori env opcode s =
     (if opcode = 0x003C then immediate_to_ccr (OR) env s
      else if opcode = 0x007C then immediate_to_sr (OR) env s
      else immediate_logic (OR) env opcode s)"

definition m68k_exec_eori :: "'h host_callbacks \<Rightarrow> u16 \<Rightarrow> 'h cpu \<Rightarrow> ('h, unit) out" where
  "m68k_exec_eori env opcode s =
     (if opcode = 0x0A3C then immediate_to_ccr (XOR) env s
      else if opcode = 0x0A7C then immediate_to_sr (XOR) env s
      else immediate_logic (XOR) env opcode s)"

subsection \<open>Safety\<close>

context instruction begin

lemma and_keeps:
  assumes "cpu_inv p fresh c s" and "bound_ok t c"
  shows "keeps (cpu_inv p quiet c) (jump_inv p c) (m68k_exec_and env opcode s)"
  using assms unfolding m68k_exec_and_def Let_def
  by (auto split: option.split intro!: handler_intros)

lemma or_keeps:
  assumes "cpu_inv p fresh c s" and "bound_ok t c"
  shows "keeps (cpu_inv p quiet c) (jump_inv p c) (m68k_exec_or env opcode s)"
  using assms unfolding m68k_exec_or_def Let_def
  by (auto split: option.split intro!: handler_intros)

lemma eor_keeps:
  assumes "cpu_inv p fresh c s" and "bound_ok t c"
  shows "keeps (cpu_inv p quiet c) (jump_inv p c) (m68k_exec_eor env opcode s)"
  using assms unfolding m68k_exec_eor_def Let_def
  by (auto split: option.split intro!: handler_intros)

lemma not_keeps:
  assumes "cpu_inv p fresh c s" and "bound_ok t c"
  shows "keeps (cpu_inv p quiet c) (jump_inv p c) (m68k_exec_not env opcode s)"
  using assms unfolding m68k_exec_not_def Let_def
  by (auto split: option.split intro!: handler_intros)

lemma clr_keeps:
  assumes "cpu_inv p fresh c s" and "bound_ok t c"
  shows "keeps (cpu_inv p quiet c) (jump_inv p c) (m68k_exec_clr env opcode s)"
  using assms unfolding m68k_exec_clr_def Let_def
  by (auto split: option.split intro!: handler_intros )

lemma tst_keeps:
  assumes "cpu_inv p fresh c s" and "bound_ok t c"
  shows "keeps (cpu_inv p quiet c) (jump_inv p c) (m68k_exec_tst env opcode s)"
  using assms unfolding m68k_exec_tst_def Let_def
  by (auto split: option.split intro!: handler_intros inv_sr_clear inv_sr_set_if)

lemma shift_body_inv:
  "cpu_inv p w c s \<Longrightarrow> shift_body ty l n sz v s = (r, s') \<Longrightarrow> cpu_inv p w c s'"
  unfolding shift_body_def Let_def
  by (auto split: if_splits prod.splits intro!: inv_sr_clear inv_sr_set_if inv_sr_upd)

lemma shift_finish_inv:
  "cpu_inv p w c s \<Longrightarrow> shift_body ty l n sz v s = (r, s') \<Longrightarrow>
   cpu_inv p w c (sr_set_if b' M68K_SR_Z (sr_set_if b M68K_SR_N s'))"
  by (intro inv_sr_set_if) (erule (1) shift_body_inv, rule sr_ok_bits, rule sr_ok_bits)

lemma shift_keeps:
  assumes "cpu_inv p fresh c s" and "bound_ok t c"
  shows "keeps (cpu_inv p quiet c) (jump_inv p c) (m68k_exec_shift env opcode s)"
proof -
  have mem: "keeps (cpu_inv p quiet c) (jump_inv p c)
      (case shift_body ty l n sz v s of (result, s) \<Rightarrow>
         m68k_write_size env a result sz'
           (sr_set_if (b' result) M68K_SR_Z (sr_set_if (b result) M68K_SR_N s)))"
    if "cpu_inv p fresh c s" for ty l n sz v s a sz' b b'
    using that assms(2)
    by (auto split: prod.split intro!: write_keeps st fresh_quiet shift_finish_inv)
  have reg: "keeps (cpu_inv p quiet c) (jump_inv p c)
      (case shift_body ty l n sz v s of (result, s) \<Rightarrow>
         Ret () (set_d r (m (d_regs (f result s) r) result)
           (sr_set_if (b' result) M68K_SR_Z (sr_set_if (b result) M68K_SR_N s))))"
    if "cpu_inv p fresh c s" for ty l n sz v s r m f b b'
    using that by (auto split: prod.split intro!: fresh_quiet shift_finish_inv)
  show ?thesis
    unfolding m68k_exec_shift_def Let_def
    using assms
    by (intro keeps_if fresh_exception keeps_bind_fresh calc_ea_keeps mem reg)
       (simp_all add: fresh_quiet inv_sr_clear inv_sr_set_if calc_ea_keeps)
qed

lemma privilege_violation_keeps:
  "cpu_inv p fresh c s \<Longrightarrow> bound_ok t c \<Longrightarrow>
   keeps (cpu_inv p quiet c) E (privilege_violation env s)"
  unfolding privilege_violation_def Let_def by (intro fresh_exception) simp_all

lemma immediate_to_ccr_keeps:
  assumes "cpu_inv p fresh c s" and "bound_ok t c"
    and "\<And>a b. sr_ok a \<Longrightarrow> sr_ok b \<Longrightarrow> sr_ok (f a b)"
  shows "keeps (cpu_inv p quiet c) (jump_inv p c) (immediate_to_ccr f env s)"
  using assms unfolding immediate_to_ccr_def Let_def
  by (auto intro!: handler_intros assms(3))

lemma immediate_to_sr_keeps:
  assumes "cpu_inv p fresh c s" and "bound_ok t c"
  shows "keeps (cpu_inv p quiet c) (jump_inv p c) (immediate_to_sr f env s)"
  using assms unfolding immediate_to_sr_def Let_def
  by (auto intro!: handler_intros privilege_violation_keeps inv_set_sr)

lemma immediate_logic_keeps:
  assumes "cpu_inv p fresh c s" and "bound_ok t c"
  shows "keeps (cpu_inv p quiet c) (jump_inv p c) (immediate_logic f env opcode s)"
  using assms unfolding immediate_logic_def Let_def
  by (auto split: option.split intro!: handler_intros)

lemma immediate_keeps:
  assumes "cpu_inv p fresh c s" and "bound_ok t c"
  shows "keeps (cpu_inv p quiet c) (jump_inv p c) (m68k_exec_andi env opcode s)"
    and "keeps (cpu_inv p quiet c) (jump_inv p c) (m68k_exec_ori env opcode s)"
    and "keeps (cpu_inv p quiet c) (jump_inv p c) (m68k_exec_eori env opcode s)"
  using assms unfolding m68k_exec_andi_def m68k_exec_ori_def m68k_exec_eori_def
  by (auto intro!: immediate_to_ccr_keeps immediate_to_sr_keeps immediate_logic_keeps)

end

subsection \<open>What the shifts compute\<close>

lemma sr_set_if_registers [simp]:
  "d_regs (sr_set_if b m s) = d_regs s" "a_regs (sr_set_if b m s) = a_regs s"
  "pc (sr_set_if b m s) = pc s"
  by (simp_all add: sr_set_if_def)

lemma size_masks: "value_mask sz = mask (operand_bits sz)" "msb_mask sz = 2 ^ (operand_bits sz - 1)"
  by (cases sz; simp add: operand_bits_def mask_eq_exp_minus_1)+

lemma operand_bits_bounds: "0 < operand_bits sz" "operand_bits sz \<le> 32"
  by (cases sz; simp add: operand_bits_def)+

lemma and_pow: "((w :: u32) AND 2 ^ n \<noteq> 0) = bit w n"
  using and_exp_eq_0_iff_not_bit [of w n] by simp

lemma lsr_loop_closed: "lsr_loop (Suc n) v c = (drop_bit (Suc n) v, bit v n)"
proof (induction n arbitrary: v c)
  case 0
  then show ?case by (simp add: and_bit0_iff)
next
  case (Suc n)
  show ?case
    by (subst lsr_loop.simps(2),
        simp only: Let_def Suc bit_drop_bit_eq comp_apply drop_bit_drop_bit plus_1_eq_Suc, simp)
qed

lemma push_masked: "push_bit n (push_bit k v AND mask b) AND mask b = push_bit (n + k) v AND (mask b :: u32)"
  by (rule bit_word_eqI) (auto simp: bit_simps)

lemma lsl_loop_closed:
  assumes "0 < b" "b \<le> 32" and "v = v AND mask b"
  shows "lsl_loop (Suc n) (mask b) (2 ^ (b - 1)) v c =
    (push_bit (Suc n) v AND mask b, n < b \<and> bit v (b - 1 - n))"
  using assms(3)
proof (induction n arbitrary: v c)
  case 0
  then show ?case using assms by (simp add: and_pow)
next
  case (Suc n)
  let ?v = "push_bit (Suc 0) v AND mask b"
  have e: "?v = ?v AND mask b" by (simp add: and.assoc)
  have "bit ?v (b - 1 - n) = (Suc n < b \<and> bit v (b - 1 - Suc n))" if "n < b"
    using that assms(1,2)
    by (simp only: bit_push_bit_iff bit_and_iff bit_mask_iff possible_bit_word len_num1) auto
  then show ?case
    using Suc(1) [OF e] push_masked [of "Suc n" "Suc 0" v b]
    by (subst lsl_loop.simps(2)) (auto simp: Let_def simp del: lsl_loop.simps)
qed

lemma asl_loop_lsl:
  "asl_loop n m msb v c f =
    (fst (lsl_loop n m msb v c), snd (lsl_loop n m msb v c), snd (snd (asl_loop n m msb v c f)))"
  by (induction n arbitrary: v c f) (simp_all add: Let_def)

text \<open>One step of the arithmetic shifts, on a word of the operand size.\<close>

lemma len8: "LENGTH(8) = 8" and len16: "LENGTH(16) = 16" and len32: "LENGTH(32) = 32"
  by simp_all

lemma double_step:
  fixes w :: "'a::len word"
  shows "(sint w < 0) \<noteq> (sint (w + w) < 0) \<longleftrightarrow>
      \<not> (- (2 ^ (LENGTH('a) - 1)) \<le> 2 * sint w \<and> 2 * sint w < 2 ^ (LENGTH('a) - 1))"
    and "(sint w < 0) = (sint (w + w) < 0) \<Longrightarrow> sint (w + w) = 2 * sint w"
proof -
  show a: "(sint w < 0) \<noteq> (sint (w + w) < 0) \<longleftrightarrow>
      \<not> (- (2 ^ (LENGTH('a) - 1)) \<le> 2 * sint w \<and> 2 * sint w < 2 ^ (LENGTH('a) - 1))"
    using add_word_flags(2) [of "w + w" w w 0] by auto
  assume "(sint w < 0) = (sint (w + w) < 0)"
  then have b: "- (2 ^ (LENGTH('a) - 1)) \<le> 2 * sint w" "2 * sint w < 2 ^ (LENGTH('a) - 1)"
    using a by auto
  have "sint (w + w) = signed_take_bit (LENGTH('a) - 1) (2 * sint w)"
    using sint_word_ariths(1) [of w w] by simp
  then show "sint (w + w) = 2 * sint w"
    using b by (simp add: signed_take_bit_int_eq_self)
qed

definition signed_fits :: "M68kSize \<Rightarrow> int \<Rightarrow> bool" where
  "signed_fits sz k = (- (2 ^ (operand_bits sz - 1)) \<le> k \<and> k < 2 ^ (operand_bits sz - 1))"

lemma narrow_double:
  "ucast (push_bit 1 v AND 0xFF :: u32) = (ucast v + ucast v :: u8)"
  "ucast (push_bit 1 v AND 0xFFFF :: u32) = (ucast v + ucast v :: u16)"
  "push_bit 1 v = (v + v :: u32)"
  using byte_and [of "v + v"] word_and [of "v + v"] narrow_add(1,2) [of v v 0]
  by (simp_all add: mult_2_right [symmetric] mult.commute)

lemma asl_step:
  "(v AND msb_mask sz \<noteq> 0) \<noteq> ((push_bit 1 v AND value_mask sz) AND msb_mask sz \<noteq> 0) \<longleftrightarrow>
     \<not> signed_fits sz (2 * sval sz v)"
  "(v AND msb_mask sz \<noteq> 0) = ((push_bit 1 v AND value_mask sz) AND msb_mask sz \<noteq> 0) \<Longrightarrow>
     sval sz (push_bit 1 v AND value_mask sz) = 2 * sval sz v"
proof -
  have e: "sval sz (push_bit 1 v AND value_mask sz) =
      (case sz of SIZE_BYTE \<Rightarrow> sint (ucast v + ucast v :: u8) | SIZE_WORD \<Rightarrow> sint (ucast v + ucast v :: u16)
       | SIZE_LONG \<Rightarrow> sint (v + v))"
    using narrow_double [of v] by (cases sz) (simp_all only: sval_def value_mask.simps M68kSize.case and_full)
  show "(v AND msb_mask sz \<noteq> 0) \<noteq> ((push_bit 1 v AND value_mask sz) AND msb_mask sz \<noteq> 0) \<longleftrightarrow>
     \<not> signed_fits sz (2 * sval sz v)"
    unfolding msb_sval e
    using double_step(1) [of "ucast v :: u8"] double_step(1) [of "ucast v :: u16"] double_step(1) [of v]
    by (cases sz) (simp_all only: sval_def signed_fits_def operand_bits_def M68kSize.case len8 len16 len32)
  show "(v AND msb_mask sz \<noteq> 0) = ((push_bit 1 v AND value_mask sz) AND msb_mask sz \<noteq> 0) \<Longrightarrow>
     sval sz (push_bit 1 v AND value_mask sz) = 2 * sval sz v"
    unfolding msb_sval e
    using double_step(2) [of "ucast v :: u8"] double_step(2) [of "ucast v :: u16"] double_step(2) [of v]
    by (cases sz) (simp_all add: sval_def)
qed

lemma signed_fits_half:
  assumes "signed_fits sz (k * 2 ^ n)"
  shows "signed_fits sz k"
proof (cases "0 \<le> k")
  case True
  then have "k * 1 \<le> k * 2 ^ n" by (intro mult_left_mono) simp_all
  moreover have "0 \<le> (2 :: int) ^ (operand_bits sz - 1)" by simp
  ultimately show ?thesis using assms True unfolding signed_fits_def by linarith
next
  case False
  then have "k * 2 ^ n \<le> k * 1" by (intro mult_left_mono_neg) simp_all
  moreover have "0 \<le> (2 :: int) ^ (operand_bits sz - 1)" by simp
  ultimately show ?thesis using assms False unfolding signed_fits_def by linarith
qed

lemma asl_loop_overflow:
  "snd (snd (asl_loop n (value_mask sz) (msb_mask sz) v c f)) = (f \<or> \<not> signed_fits sz (sval sz v * 2 ^ n))"
proof (induction n arbitrary: v c f)
  case 0
  have "signed_fits sz (sval sz v)"
    using sint_ge [of "ucast v :: u8"] sint_less [of "ucast v :: u8"] sint_ge [of "ucast v :: u16"]
      sint_less [of "ucast v :: u16"] sint_ge [of v] sint_less [of v]
    by (cases sz) (simp_all add: signed_fits_def sval_def operand_bits_def)
  then show ?case by simp
next
  case (Suc n)
  let ?v = "push_bit 1 v AND value_mask sz"
  let ?changed = "(v AND msb_mask sz \<noteq> 0) \<noteq> (?v AND msb_mask sz \<noteq> 0)"
  have p: "sval sz v * 2 ^ Suc n = (2 * sval sz v) * 2 ^ n" by simp
  have "snd (snd (asl_loop (Suc n) (value_mask sz) (msb_mask sz) v c f)) =
      (f \<or> ?changed \<or> \<not> signed_fits sz (sval sz ?v * 2 ^ n))"
    unfolding asl_loop.simps(2) Let_def Suc by auto
  also have "\<dots> = (f \<or> \<not> signed_fits sz (sval sz v * 2 ^ Suc n))"
  proof (cases ?changed)
    case True
    then show ?thesis
      unfolding p using asl_step(1) [of v sz] signed_fits_half [of sz "2 * sval sz v" n] by blast
  next
    case False
    then have "sval sz ?v = 2 * sval sz v" using asl_step(2) [of v sz] by blast
    then show ?thesis unfolding p using False by simp
  qed
  finally show ?case .
qed

text \<open>The right shift keeps the sign bit, in a value without bits above its size.\<close>

lemma bit_shift_right:
  "bit (drop_bit 1 v OR (v AND push_bit k 1) :: u32) n \<longleftrightarrow> bit v (Suc n) \<or> bit v n \<and> k = n"
  unfolding bit_or_iff bit_and_iff bit_drop_bit_eq bit_push_bit_iff bit_1_iff comp_apply
  using bit_imp_le_length [of v n] by auto

lemma narrow_shift_right:
  "v = v AND 0xFF \<Longrightarrow> ucast (drop_bit 1 v OR (v AND 0x80) :: u32) = (signed_drop_bit 1 (ucast v) :: u8)"
  "v = v AND 0xFFFF \<Longrightarrow> ucast (drop_bit 1 v OR (v AND 0x8000) :: u32) = (signed_drop_bit 1 (ucast v) :: u16)"
  "(drop_bit 1 v OR (v AND 0x80000000) :: u32) = signed_drop_bit 1 v"
proof -
  have m: "(0x80 :: u32) = push_bit 7 1" "(0x8000 :: u32) = push_bit 15 1" "(0x80000000 :: u32) = push_bit 31 1"
    "(0xFF :: u32) = mask 8" "(0xFFFF :: u32) = mask 16"
    by (simp_all add: mask_eq_exp_minus_1)
  have last: "7 \<le> n \<Longrightarrow> n < 8 \<Longrightarrow> n = 7" "15 \<le> n \<Longrightarrow> n < 16 \<Longrightarrow> n = 15"
    "31 \<le> n \<Longrightarrow> n < 32 \<Longrightarrow> n = 31" for n :: nat by simp_all
  have top: "\<not> bit v n" if "v = v AND mask k" "k \<le> n" for n k
    using arg_cong [OF that(1), of "\<lambda>w. bit w n"] that(2) by (simp add: bit_simps)
  show "ucast (drop_bit 1 v OR (v AND 0x80) :: u32) = (signed_drop_bit 1 (ucast v) :: u8)" if "v = v AND 0xFF"
    using top [OF that [unfolded m], of 8] unfolding m
    by (intro bit_word_eqI)
      (simp only: bit_ucast_iff bit_shift_right bit_signed_drop_bit_iff, auto simp: not_le dest: last)
  show "ucast (drop_bit 1 v OR (v AND 0x8000) :: u32) = (signed_drop_bit 1 (ucast v) :: u16)" if "v = v AND 0xFFFF"
    using top [OF that [unfolded m], of 16] unfolding m
    by (intro bit_word_eqI)
      (simp only: bit_ucast_iff bit_shift_right bit_signed_drop_bit_iff, auto simp: not_le dest: last)
  show "(drop_bit 1 v OR (v AND 0x80000000) :: u32) = signed_drop_bit 1 v"
    unfolding m
    by (intro bit_word_eqI)
      (simp only: bit_shift_right bit_signed_drop_bit_iff, auto simp: not_le dest: last bit_imp_le_length)
qed


lemma asr_step:
  assumes "v = v AND value_mask sz"
  shows "drop_bit 1 v OR (v AND msb_mask sz) = (drop_bit 1 v OR (v AND msb_mask sz)) AND value_mask sz"
    and "sval sz (drop_bit 1 v OR (v AND msb_mask sz)) = sval sz v div 2"
proof -
  have top: "n < operand_bits sz" if "bit v n" for n
  proof -
    have "bit (v AND value_mask sz) n" using that assms by (rule subst [rotated, where P = "\<lambda>w. bit w n"])
    then show ?thesis by (simp add: size_masks bit_simps)
  qed
  have top': "bit v n \<or> bit v (Suc n) \<Longrightarrow> n < operand_bits sz" for n
    using top [of n] top [of "Suc n"] by linarith
  have p: "(2 :: u32) ^ (operand_bits sz - 1) = push_bit (operand_bits sz - 1) 1" by simp
  show "drop_bit 1 v OR (v AND msb_mask sz) = (drop_bit 1 v OR (v AND msb_mask sz)) AND value_mask sz"
    unfolding size_masks p
  proof (rule bit_word_eqI)
    fix n assume "n < LENGTH(32)"
    show "bit (drop_bit 1 v OR (v AND push_bit (operand_bits sz - 1) 1)) n =
        bit ((drop_bit 1 v OR (v AND push_bit (operand_bits sz - 1) 1)) AND mask (operand_bits sz)) n"
      unfolding bit_and_iff [of _ "mask (operand_bits sz)"] bit_shift_right bit_mask_iff
      using top' [of n] operand_bits_bounds(2) [of sz] by (auto simp: possible_bit_word)
  qed
  have "drop_bit 1 k = k div 2" for k :: int by (simp add: drop_bit_Suc)
  then show "sval sz (drop_bit 1 v OR (v AND msb_mask sz)) = sval sz v div 2"
    using assms narrow_shift_right [of v]
    by (cases sz) (simp_all only: sval_def M68kSize.case value_mask.simps msb_mask.simps sint_signed_drop_bit_eq)
qed

lemma odd_word: "odd (uint w) = bit (w :: 'a::len word) 0" "odd (sint w) = bit w 0"
proof -
  have "bit (uint w) 0 = bit w 0" "bit (sint w) 0 = bit w 0"
    by (simp_all only: bit_uint_iff bit_sint_iff) simp_all
  then show "odd (uint w) = bit w 0" "odd (sint w) = bit w 0" by (simp_all only: bit_0)
qed

lemma odd_sval: "(v AND 1 \<noteq> 0) = odd (sval sz v)" "(v AND 1 \<noteq> 0) = odd (uval sz v)"
  by (cases sz; simp only: sval_def uval_def M68kSize.case odd_word and_bit0_iff bit_ucast_iff; simp)+

lemma asr_loop_closed:
  assumes "v = v AND value_mask sz"
  shows "sval sz (fst (asr_loop (Suc n) (msb_mask sz) v c)) = sval sz v div 2 ^ Suc n \<and>
    snd (asr_loop (Suc n) (msb_mask sz) v c) = odd (sval sz v div 2 ^ n) \<and>
    fst (asr_loop (Suc n) (msb_mask sz) v c) = fst (asr_loop (Suc n) (msb_mask sz) v c) AND value_mask sz"
  using assms
proof (induction n arbitrary: v c)
  case 0
  then show ?case using asr_step [of v sz] odd_sval(1) [of v sz] by simp
next
  case (Suc n)
  note step = asr_step [OF Suc(2)]
  have d: "sval sz v div 2 div 2 ^ k = sval sz v div 2 ^ Suc k" for k
    by (simp add: zdiv_zmult2_eq)
  have "asr_loop (Suc (Suc n)) (msb_mask sz) v c =
      asr_loop (Suc n) (msb_mask sz) (drop_bit 1 v OR (v AND msb_mask sz)) (v AND 1 \<noteq> 0)"
    by (simp only: asr_loop.simps(2) Let_def)
  then show ?case
    using Suc(1) [OF step(1), unfolded step(2) d] by (simp only:)
qed


text \<open>The left shifts on any integer that agrees with the operand modulo its size.\<close>

lemma take_bit_values:
  fixes w :: "'a::len word"
  shows "take_bit LENGTH('a) (uint w) = uint w" "take_bit LENGTH('a) (sint w) = uint w"
proof -
  show u: "take_bit LENGTH('a) (uint w) = uint w" by (simp add: take_bit_int_eq_self)
  show "take_bit LENGTH('a) (sint w) = uint w"
    by (simp add: sint_uint take_bit_signed_take_bit u)
qed

lemma uval_mask: "uval sz w = uint (w AND value_mask sz)" "uval sz w = take_bit (operand_bits sz) (uint w)"
proof -
  show "uval sz w = take_bit (operand_bits sz) (uint w)"
    using take_bit_values(1) [of w]
    by (cases sz) (simp_all add: uval_def operand_bits_def unsigned_ucast_eq)
  then show "uval sz w = uint (w AND value_mask sz)"
    by (simp add: size_masks unsigned_take_bit_eq flip: take_bit_eq_mask)
qed

lemma take_sval: "take_bit (operand_bits sz) (sval sz w) = uval sz w"
  using take_bit_values(2) [of "ucast w :: u8"] take_bit_values(2) [of "ucast w :: u16"]
    take_bit_values(2) [of w]
  by (cases sz) (simp_all add: uval_def sval_def operand_bits_def)

lemma left_shift_int:
  assumes "take_bit (operand_bits sz) x = uval sz v"
  shows "uval sz (push_bit n v) = (x * 2 ^ n) mod 2 ^ operand_bits sz"
    and "odd (x * 2 ^ Suc n div 2 ^ operand_bits sz) = (n < operand_bits sz \<and> bit v (operand_bits sz - 1 - n))"
proof -
  let ?b = "operand_bits sz"
  have x: "take_bit ?b x = take_bit ?b (uint v)" by (simp add: assms uval_mask(2))
  have "uval sz (push_bit n v) = take_bit ?b (push_bit n (uint v))"
    using operand_bits_bounds(2) [of sz]
    by (simp add: uval_mask(2) unsigned_push_bit_eq min_def del: push_bit_eq_mult)
  also have "\<dots> = take_bit ?b (push_bit n (take_bit ?b (uint v)))"
    by (simp add: take_bit_push_bit)
  also have "\<dots> = take_bit ?b (push_bit n x)"
    by (simp only: x [symmetric]) (simp add: take_bit_push_bit)
  finally show "uval sz (push_bit n v) = (x * 2 ^ n) mod 2 ^ ?b"
    by (simp add: push_bit_eq_mult take_bit_eq_mod)
  have k: "bit x k = bit v k" if "k < ?b" for k
    using arg_cong [OF x, of "\<lambda>w. bit w k"] that by (simp add: bit_simps)
  have "odd (x * 2 ^ Suc n div 2 ^ ?b) = bit (push_bit (Suc n) x) ?b"
    by (simp only: bit_iff_odd push_bit_eq_mult)
  also have "\<dots> = (Suc n \<le> ?b \<and> bit x (?b - Suc n))" by (simp only: bit_push_bit_iff_int)
  finally show "odd (x * 2 ^ Suc n div 2 ^ ?b) = (n < ?b \<and> bit v (?b - 1 - n))"
    using k [of "?b - Suc n"] by auto
qed

lemma lsr_int:
  assumes "v = v AND value_mask sz"
  shows "uval sz (drop_bit n v) = uval sz v div 2 ^ n" and "bit v n = odd (uval sz v div 2 ^ n)"
    and "drop_bit n v = drop_bit n v AND value_mask sz"
proof -
  have u: "uint v = uval sz v" unfolding uval_mask(1) using assms by simp
  have m: "v = take_bit (operand_bits sz) v"
    using assms by (simp add: size_masks take_bit_eq_mask)
  have "drop_bit n v = take_bit (operand_bits sz) (drop_bit n v)"
    by (subst (1 2) m) (rule bit_word_eqI, auto simp: bit_simps)
  then show k: "drop_bit n v = drop_bit n v AND value_mask sz"
    by (simp add: size_masks take_bit_eq_mask)
  have "uval sz (drop_bit n v) = uint (drop_bit n v)" unfolding uval_mask(1) using k by simp
  also have "\<dots> = uval sz v div 2 ^ n"
    by (simp only: unsigned_drop_bit_eq take_bit_values, simp only: u drop_bit_eq_div)
  finally show "uval sz (drop_bit n v) = uval sz v div 2 ^ n" .
  show "bit v n = odd (uval sz v div 2 ^ n)"
    unfolding u [symmetric] by (simp add: bit_uint_iff flip: bit_iff_odd) (auto dest: bit_imp_le_length)
qed

text \<open>The shifts on a masked value, and the condition codes they set.\<close>

definition shift_value :: "nat \<Rightarrow> M68kSize \<Rightarrow> u32 \<Rightarrow> int" where
  "shift_value ty sz v = (if ty = 0 then sval sz v else uval sz v)"

lemma mask_idem: "v = w AND value_mask sz \<Longrightarrow> v AND value_mask sz = v"
  by (simp add: and.assoc)

lemma masked_values: "sval sz (w AND value_mask sz) = sval sz w" "uval sz (w AND value_mask sz) = uval sz w"
proof -
  show u: "uval sz (w AND value_mask sz) = uval sz w" by (simp add: uval_mask(1) and.assoc)
  then show "sval sz (w AND value_mask sz) = sval sz w" by (simp only: sval_uval)
qed

lemma shift_body_meaning:
  assumes v: "v = v AND value_mask sz" and "ty = 0 \<or> ty = 1" and n: "0 < n"
    and x: "x = shift_value ty sz v" and body: "shift_body ty left n sz v s = (r, s')"
  shows "if left then uval sz r = (x * 2 ^ n) mod 2 ^ operand_bits sz
      else shift_value ty sz r = x div 2 ^ n"
    and "r = r AND value_mask sz"
    and "sr_flag M68K_SR_C s' = odd (if left then x * 2 ^ n div 2 ^ operand_bits sz else x div 2 ^ (n - 1))"
    and "sr_flag M68K_SR_X s' = sr_flag M68K_SR_C s'"
    and "sr_flag M68K_SR_V s' = (ty = 0 \<and> left \<and> \<not> signed_fits sz (x * 2 ^ n))"
    and "\<not> sr_flag M68K_SR_N s'" and "\<not> sr_flag M68K_SR_Z s'" and "ccr_only s s'"
proof -
  obtain k where k: "n = Suc k" using n by (cases n) auto
  have t: "take_bit (operand_bits sz) x = uval sz v"
    by (simp add: x shift_value_def take_sval) (simp add: uval_mask(2))
  note left_int = left_shift_int [OF t]
  define c where "c = odd (if left then x * 2 ^ n div 2 ^ operand_bits sz else x div 2 ^ (n - 1))"
  define ov where "ov = (ty = 0 \<and> left \<and> \<not> signed_fits sz (x * 2 ^ n))"
  define cl where "cl = sr_clear (M68K_SR_N OR M68K_SR_Z OR M68K_SR_V OR M68K_SR_C OR M68K_SR_X) s"
  define ex where "ex = (if c then (let s = cl\<lparr>sr := sr cl OR M68K_SR_C\<rparr> in s\<lparr>sr := sr s OR M68K_SR_X\<rparr>) else cl)"
  have lsl: "lsl_loop n (value_mask sz) (msb_mask sz) v False = (push_bit n v AND value_mask sz, c)" if left
    using lsl_loop_closed [OF operand_bits_bounds v [unfolded size_masks], of k False] left_int(2) [of k] that
    by (simp only: k c_def size_masks if_True)
  have uv: "uval sz (push_bit n v AND value_mask sz) = (x * 2 ^ n) mod 2 ^ operand_bits sz"
    by (simp only: masked_values left_int(1))
  have lsr: "lsr_loop n v False = (drop_bit n v, c)" if "\<not> left" "ty = 1"
    using lsr_loop_closed [of k v False] lsr_int(2) [OF v, of k] that
    by (simp add: k c_def x shift_value_def)
  have asr: "snd (asr_loop n (msb_mask sz) v False) = c" if "\<not> left" "ty = 0"
    using asr_loop_closed [OF v, of k False] that by (simp add: k c_def x shift_value_def)
  have ovf: "snd (snd (asl_loop n (value_mask sz) (msb_mask sz) v False False)) = ov" if left "ty = 0"
    using asl_loop_overflow [of n sz v False False] that by (simp add: ov_def x shift_value_def)
  have no: "ov = False" if "\<not> (left \<and> ty = 0)" using that by (auto simp: ov_def)
  have "(r, s') = ((if left then push_bit n v AND value_mask sz
       else if ty = 0 then fst (asr_loop n (msb_mask sz) v False) else drop_bit n v), sr_set_if ov M68K_SR_V ex)"
    using body assms(2) lsl lsr asr ovf no asl_loop_lsl [of n "value_mask sz" "msb_mask sz" v False False]
    by (cases left; cases "ty = 0")
      (auto simp: shift_body_def Let_def ex_def cl_def sr_set_if_def split: prod.splits)
  then have r: "r = (if left then push_bit n v AND value_mask sz
       else if ty = 0 then fst (asr_loop n (msb_mask sz) v False) else drop_bit n v)"
    and s': "s' = sr_set_if ov M68K_SR_V ex" by simp_all
  show "if left then uval sz r = (x * 2 ^ n) mod 2 ^ operand_bits sz else shift_value ty sz r = x div 2 ^ n"
  proof (cases left)
    case True
    then show ?thesis using uv by (simp only: r if_True)
  next
    case False
    then show ?thesis
      using asr_loop_closed [OF v, of k False] lsr_int(1) [OF v, of n] assms(2)
      by (auto simp: r x shift_value_def k simp del: asr_loop.simps)
  qed
  show "r = r AND value_mask sz"
    using asr_loop_closed [OF v, of k False] lsr_int(3) [OF v, of n] assms(2)
    by (auto simp: r and.assoc k simp del: asr_loop.simps)
  have "c = odd (if left then x * 2 ^ n div 2 ^ operand_bits sz else x div 2 ^ (n - 1))" by (rule c_def)
  moreover have "sr_flag M68K_SR_C s' = c" "sr_flag M68K_SR_X s' = c" "sr_flag M68K_SR_V s' = ov"
    "\<not> sr_flag M68K_SR_N s'" "\<not> sr_flag M68K_SR_Z s'"
    by (auto simp: s' ex_def cl_def Let_def sr_flag_clear sr_bit_defs)
  ultimately show "sr_flag M68K_SR_C s' = odd (if left then x * 2 ^ n div 2 ^ operand_bits sz else x div 2 ^ (n - 1))"
    "sr_flag M68K_SR_X s' = sr_flag M68K_SR_C s'"
    "sr_flag M68K_SR_V s' = (ty = 0 \<and> left \<and> \<not> signed_fits sz (x * 2 ^ n))"
    "\<not> sr_flag M68K_SR_N s'" "\<not> sr_flag M68K_SR_Z s'"
    by (simp_all only: ov_def simp_thms)
  show "ccr_only s s'"
    unfolding s' ex_def cl_def Let_def
    by (intro ccr_only_if ccr_only_steps ccr_only_refl; simp add: sr_bit_defs)
qed


lemma merge_size_values:
  "uval sz (merge_size sz w r) = uval sz r" "sval sz (merge_size sz w r) = sval sz r"
  "merge_size sz w r AND NOT (value_mask sz) = w AND NOT (value_mask sz)"
proof -
  have m: "merge_size sz w r AND value_mask sz = r AND value_mask sz"
    unfolding merge_size_def size_masks by (rule bit_word_eqI) (auto simp: bit_simps)
  show u: "uval sz (merge_size sz w r) = uval sz r" unfolding uval_mask(1) m ..
  then show "sval sz (merge_size sz w r) = sval sz r" by (simp only: sval_uval)
  show "merge_size sz w r AND NOT (value_mask sz) = w AND NOT (value_mask sz)"
    unfolding merge_size_def size_masks by (rule bit_word_eqI) (auto simp: bit_simps)
qed

lemma shift_body_registers:
  "shift_body ty left n sz v s = (r, s') \<Longrightarrow> d_regs s' = d_regs s \<and> a_regs s' = a_regs s \<and> pc s' = pc s"
  by (auto simp: shift_body_def sr_set_if_def sr_clear_def Let_def split: prod.splits if_splits)

lemma exec_shift_body:
  assumes sz: "size_code (bits opcode 6 3) = Some sz"
    and ty: "ty = bits opcode 3 3" and left: "left = (bits opcode 8 1 \<noteq> 0)"
    and r: "r = bits opcode 0 7"
    and n: "n = (if bits opcode 5 1 \<noteq> 0 then unat (d_regs s (bits opcode 9 7) AND 63)
      else if bits opcode 9 7 = 0 then 8 else bits opcode 9 7)" "0 < n"
    and v: "v = d_regs s r AND value_mask sz" and b: "shift_body ty left n sz v s = (w, s1)"
  shows "m68k_exec_shift env opcode s =
      Ret () (set_d r (merge_size sz (d_regs s r) w)
        (sr_set_if (w = 0) M68K_SR_Z (sr_set_if (w AND msb_mask sz \<noteq> 0) M68K_SR_N s1)))"
proof -
  have size: "bits opcode 6 3 \<noteq> 3" "(if bits opcode 6 3 = 0 then SIZE_BYTE
      else if bits opcode 6 3 = 1 then SIZE_WORD else SIZE_LONG) = sz"
    using sz by (auto simp: size_code_def split: if_splits)
  show ?thesis
    unfolding m68k_exec_shift_def Let_def size if_not_P [OF size(1)] n(1) [symmetric] ty [symmetric]
      left [symmetric] r [symmetric] v [symmetric]
    using n(2) shift_body_registers [OF b] by (simp add: b sr_set_if_def)
qed

text \<open>C30: ASL, ASR, LSL and LSR on a data register, for every size and every count but zero: a left shift multiplies
  by a power of two modulo the operand size, an arithmetic right shift divides the signed
  and a logical right shift the unsigned operand by it, rounding down; carry and extend hold
  the last bit shifted out, overflow is set exactly by an arithmetic left shift whose signed
  product does not fit the size, and the rest of the register and all others are kept.\<close>

theorem shift_meaning:
  assumes sz: "size_code (bits opcode 6 3) = Some sz"
    and ty: "ty = bits opcode 3 3" "ty = 0 \<or> ty = 1" and left: "left = (bits opcode 8 1 \<noteq> 0)"
    and r: "r = bits opcode 0 7"
    and n: "n = (if bits opcode 5 1 \<noteq> 0 then unat (d_regs s (bits opcode 9 7) AND 63)
      else if bits opcode 9 7 = 0 then 8 else bits opcode 9 7)" "0 < n"
    and x: "x = shift_value ty sz (d_regs s r)"
  shows "\<exists>s'. m68k_exec_shift env opcode s = Ret () s' \<and>
    (if left then uval sz (d_regs s' r) = (x * 2 ^ n) mod 2 ^ operand_bits sz
     else shift_value ty sz (d_regs s' r) = x div 2 ^ n) \<and>
    d_regs s' r AND NOT (value_mask sz) = d_regs s r AND NOT (value_mask sz) \<and>
    (\<forall>j. j \<noteq> r \<longrightarrow> d_regs s' j = d_regs s j) \<and> a_regs s' = a_regs s \<and> pc s' = pc s \<and>
    sr_flag M68K_SR_C s' = odd (if left then x * 2 ^ n div 2 ^ operand_bits sz else x div 2 ^ (n - 1)) \<and>
    sr_flag M68K_SR_X s' = sr_flag M68K_SR_C s' \<and>
    sr_flag M68K_SR_V s' = (ty = 0 \<and> left \<and> \<not> signed_fits sz (x * 2 ^ n)) \<and>
    sr_flag M68K_SR_N s' = (sval sz (d_regs s' r) < 0) \<and> sr_flag M68K_SR_Z s' = (uval sz (d_regs s' r) = 0)"
proof -
  define v where "v = d_regs s r AND value_mask sz"
  obtain w s1 where b: "shift_body ty left n sz v s = (w, s1)" by (metis surj_pair)
  have v: "v = v AND value_mask sz" "x = shift_value ty sz v"
    by (simp_all add: v_def and.assoc x shift_value_def masked_values)
  note m = shift_body_meaning [OF v(1) ty(2) n(2) v(2) b] and k = shift_body_registers [OF b]
  have "m68k_exec_shift env opcode s =
      Ret () (set_d r (merge_size sz (d_regs s r) w)
        (sr_set_if (w = 0) M68K_SR_Z (sr_set_if (w AND msb_mask sz \<noteq> 0) M68K_SR_N s1)))"
    by (rule exec_shift_body [OF sz ty(1) left r n v_def b])
  moreover have "(w = 0) = (uval sz w = 0)"
    using m(2) mask_uval [of w sz] by metis
  moreover have "shift_value ty sz (merge_size sz (d_regs s r) w) = shift_value ty sz w"
    by (simp add: shift_value_def merge_size_values)
  ultimately show ?thesis
    using m(1,3-7) k
    by (simp add: merge_size_values msb_sval sr_bit_defs)
qed

lemma shift_meaning_witness:
  "\<exists>s'. m68k_exec_shift no_callbacks 0xE341 (set_d 1 0x12344001 trap_state) = Ret () s' \<and>
     uval SIZE_WORD (d_regs s' 1) = 0x8002 \<and> sr_flag M68K_SR_V s'"
proof -
  define s where "s = set_d 1 0x12344001 trap_state"
  have "\<exists>s'. m68k_exec_shift no_callbacks 0xE341 s = Ret () s' \<and>
    (if True then uval SIZE_WORD (d_regs s' 1) = (0x4001 * 2 ^ 1) mod 2 ^ operand_bits SIZE_WORD
     else shift_value 0 SIZE_WORD (d_regs s' 1) = 0x4001 div 2 ^ 1) \<and>
    d_regs s' 1 AND NOT (value_mask SIZE_WORD) = d_regs s 1 AND NOT (value_mask SIZE_WORD) \<and>
    (\<forall>j. j \<noteq> 1 \<longrightarrow> d_regs s' j = d_regs s j) \<and> a_regs s' = a_regs s \<and> pc s' = pc s \<and>
    sr_flag M68K_SR_C s' = odd (if True then 0x4001 * 2 ^ 1 div 2 ^ operand_bits SIZE_WORD else 0x4001 div 2 ^ (1 - 1) :: int) \<and>
    sr_flag M68K_SR_X s' = sr_flag M68K_SR_C s' \<and>
    sr_flag M68K_SR_V s' = (0 = (0 :: nat) \<and> True \<and> \<not> signed_fits SIZE_WORD (0x4001 * 2 ^ 1)) \<and>
    sr_flag M68K_SR_N s' = (sval SIZE_WORD (d_regs s' 1) < 0) \<and>
    sr_flag M68K_SR_Z s' = (uval SIZE_WORD (d_regs s' 1) = 0)"
    by (rule shift_meaning) (simp_all add: bits_def size_code_def s_def shift_value_def sval_def)
  then show ?thesis
    unfolding s_def by (auto simp: operand_bits_def signed_fits_def)
qed

subsection \<open>What the rotates compute\<close>

text \<open>One step of each rotate on the bits of a value below its size, and of the rotates
  through extend on the ring of those bits and the extend bit.\<close>

lemma bit_left_step: "bit (push_bit 1 (v :: u32) AND mask b) k = (0 < k \<and> k < b \<and> k < 32 \<and> bit v (k - 1))"
  by (simp only: bit_and_iff bit_push_bit_iff bit_mask_iff possible_bit_word) auto

lemma bit_or_set:
  "bit (w OR 1 :: u32) k = (bit w k \<or> k = 0)" "bit (w OR 2 ^ j :: u32) k = (bit w k \<or> k = j \<and> j < 32)"
  by (auto simp: bit_or_iff bit_1_iff bit_exp_iff possible_bit_word)

definition ring :: "nat \<Rightarrow> bool \<Rightarrow> u32 \<Rightarrow> nat \<Rightarrow> bool" where
  "ring b x w i = (if i < b then bit w i else x)"

lemma left_step:
  fixes v w :: u32
  assumes "0 < b" "b \<le> 32" and w: "w = (if c then (push_bit 1 v AND mask b) OR 1 else push_bit 1 v AND mask b)"
  shows "Suc i < b \<Longrightarrow> bit w (Suc i) = bit v i" and "bit w 0 = c" and "w = w AND mask b"
proof -
  have b: "bit w k = (0 < k \<and> k < b \<and> bit v (k - 1) \<or> c \<and> k = 0)" for k
    using assms(1,2) by (cases c) (auto simp only: w if_True if_False bit_or_set bit_left_step)
  show "Suc i < b \<Longrightarrow> bit w (Suc i) = bit v i" "bit w 0 = c" by (simp_all add: b)
  show "w = w AND mask b"
    by (rule bit_word_eqI) (use assms(1) in \<open>auto simp: b bit_and_iff bit_mask_iff possible_bit_word\<close>)
qed

lemma right_step:
  fixes v w :: u32
  assumes "0 < b" "b \<le> 32" and v: "v = v AND mask b"
    and w: "w = (if c then drop_bit 1 v OR 2 ^ (b - 1) else drop_bit 1 v)"
  shows "Suc i < b \<Longrightarrow> bit w i = bit v (Suc i)" and "bit w (b - 1) = c" and "w = w AND mask b"
proof -
  have top: "\<not> bit v k" if "b \<le> k" for k
    using that arg_cong [OF v, of "\<lambda>w. bit w k"] by (simp add: bit_simps)
  have b: "bit w k = (bit v (Suc k) \<or> c \<and> k = b - 1)" for k
    using assms(1,2)
    by (cases c) (auto simp only: w if_True if_False bit_or_set bit_drop_bit_eq comp_apply plus_1_eq_Suc)
  show "Suc i < b \<Longrightarrow> bit w i = bit v (Suc i)" "bit w (b - 1) = c"
    using top [of b] assms(1) by (auto simp: b)
  show "w = w AND mask b"
  proof (rule bit_word_eqI)
    fix n assume "n < LENGTH(32)"
    then show "bit w n = bit (w AND mask b) n"
      using top [of "Suc n"] assms(1) by (cases "b \<le> Suc n") (auto simp: b bit_and_iff bit_mask_iff possible_bit_word)
  qed
qed


lemma result_bits_apart:
  "M68K_SR_N AND M68K_SR_X = 0" "M68K_SR_Z AND M68K_SR_X = 0" "M68K_SR_N AND M68K_SR_C = 0"
  "M68K_SR_Z AND M68K_SR_C = 0" "M68K_SR_N AND M68K_SR_V = 0" "M68K_SR_Z AND M68K_SR_V = 0"
  "M68K_SR_N AND M68K_SR_Z = 0" "M68K_SR_Z AND M68K_SR_N = 0" "M68K_SR_N \<noteq> 0" "M68K_SR_Z \<noteq> 0"
  by (simp_all add: sr_bit_defs)

lemma rotate_index: "0 < b \<Longrightarrow> ((i + 1) mod b + n) mod b = (i + Suc n) mod (b :: nat)"
  "0 < b \<Longrightarrow> ((i + n) mod b + 1) mod b = (i + Suc n) mod b"
  by (simp_all add: mod_simps ac_simps)

lemma rol_loop_bits:
  assumes b: "0 < b" "b \<le> 32" and "v = v AND mask b" and "(r, c') = rol_loop n (mask b) (2 ^ (b - 1)) v c"
  shows "(\<forall>i<b. bit r ((i + n) mod b) = bit v i) \<and> c' = (if n = 0 then c else bit r 0) \<and> r = r AND mask b"
  using assms(3,4)
proof (induction n arbitrary: v c)
  case 0
  then show ?case by simp
next
  case (Suc n)
  define w where "w = (if bit v (b - 1) then (push_bit 1 v AND mask b) OR 1 else push_bit 1 v AND mask b)"
  note step = left_step [OF b w_def]
  have e: "(r, c') = rol_loop n (mask b) (2 ^ (b - 1)) w (bit v (b - 1))"
    using Suc(3) by (simp only: rol_loop.simps(2) Let_def and_pow w_def)
  have one: "bit w ((i + 1) mod b) = bit v i" if "i < b" for i
    using that step(1,2) by (cases "Suc i = b") (auto simp: mod_less)
  have "bit r ((i + Suc n) mod b) = bit v i" if "i < b" for i
    using Suc(1) [OF step(3) e] one [OF that] b(1) by (metis rotate_index(1) mod_less_divisor)
  then show ?case
    using Suc(1) [OF step(3) e] step(2) e by (cases n) auto
qed

lemma ror_loop_bits:
  assumes b: "0 < b" "b \<le> 32" and "v = v AND mask b" and "(r, c') = ror_loop n (2 ^ (b - 1)) v c"
  shows "(\<forall>i<b. bit r i = bit v ((i + n) mod b)) \<and> c' = (if n = 0 then c else bit r (b - 1)) \<and> r = r AND mask b"
  using assms(3,4)
proof (induction n arbitrary: v c)
  case 0
  then show ?case by simp
next
  case (Suc n)
  define w where "w = (if bit v 0 then drop_bit 1 v OR 2 ^ (b - 1) else drop_bit 1 v)"
  note step = right_step [OF b Suc(2) w_def]
  have e: "(r, c') = ror_loop n (2 ^ (b - 1)) w (bit v 0)"
    using Suc(3) by (simp only: ror_loop.simps(2) Let_def and_bit0_iff w_def)
  have one: "bit w i = bit v ((i + 1) mod b)" if "i < b" for i
    using that step(1,2) by (cases "Suc i = b") (auto simp: mod_less)
  have "bit r i = bit v ((i + Suc n) mod b)" if "i < b" for i
    using Suc(1) [OF step(3) e] one [of "(i + n) mod b"] that b(1) by (metis rotate_index(2) mod_less_divisor)
  then show ?case
    using Suc(1) [OF step(3) e] step(2) e by (cases n) auto
qed

lemma roxl_loop_bits:
  assumes b: "0 < b" "b \<le> 32" and "v = v AND mask b"
    and "(r, x', c') = roxl_loop n (mask b) (2 ^ (b - 1)) v x c"
  shows "(\<forall>i\<le>b. ring b x' r ((i + n) mod Suc b) = ring b x v i) \<and> c' = (if n = 0 then c else x') \<and>
    r = r AND mask b"
  using assms(3,4)
proof (induction n arbitrary: v x c)
  case 0
  then show ?case by (simp add: le_imp_less_Suc)
next
  case (Suc n)
  define w where "w = (if x then (push_bit 1 v AND mask b) OR 1 else push_bit 1 v AND mask b)"
  note step = left_step [OF b w_def]
  have e: "(r, x', c') = roxl_loop n (mask b) (2 ^ (b - 1)) w (bit v (b - 1)) (bit v (b - 1))"
    using Suc(3) by (simp only: roxl_loop.simps(2) Let_def and_pow w_def)
  have one: "ring b (bit v (b - 1)) w ((i + 1) mod Suc b) = ring b x v i" if "i \<le> b" for i
    using that step(1) [of i] step(2) b(1)
    by (cases "i = b"; cases "Suc i = b") (auto simp: ring_def mod_less)
  have "ring b x' r ((i + Suc n) mod Suc b) = ring b x v i" if "i \<le> b" for i
    using Suc(1) [OF step(3) e] one [OF that]
    by (metis rotate_index(1) mod_less_divisor less_Suc_eq_le zero_less_Suc)
  then show ?case
    using Suc(1) [OF step(3) e] e by (cases n) auto
qed

lemma roxr_loop_bits:
  assumes b: "0 < b" "b \<le> 32" and "v = v AND mask b"
    and "(r, x', c') = roxr_loop n (2 ^ (b - 1)) v x c"
  shows "(\<forall>i\<le>b. ring b x' r i = ring b x v ((i + n) mod Suc b)) \<and> c' = (if n = 0 then c else x') \<and>
    r = r AND mask b"
  using assms(3,4)
proof (induction n arbitrary: v x c)
  case 0
  then show ?case by (simp add: le_imp_less_Suc)
next
  case (Suc n)
  define w where "w = (if x then drop_bit 1 v OR 2 ^ (b - 1) else drop_bit 1 v)"
  note step = right_step [OF b Suc(2) w_def]
  have e: "(r, x', c') = roxr_loop n (2 ^ (b - 1)) w (bit v 0) (bit v 0)"
    using Suc(3) by (simp only: roxr_loop.simps(2) Let_def and_bit0_iff w_def)
  have one: "ring b (bit v 0) w i = ring b x v ((i + 1) mod Suc b)" if "i \<le> b" for i
    using that step(1) [of i] step(2) b(1)
    by (cases "i = b"; cases "Suc i = b") (auto simp: ring_def)
  have "ring b x' r i = ring b x v ((i + Suc n) mod Suc b)" if "i \<le> b" for i
    using Suc(1) [OF step(3) e] one [of "(i + n) mod Suc b"] that
    by (metis rotate_index(2) mod_less_divisor less_Suc_eq_le zero_less_Suc)
  then show ?case
    using Suc(1) [OF step(3) e] e by (cases n) auto
qed


lemma rotate_body_meaning:
  assumes v: "v = v AND value_mask sz" and "ty = 2 \<or> ty = 3" and n: "0 < n"
    and b: "b = operand_bits sz" and m: "m = (if ty = 2 then Suc b else b)"
    and body: "shift_body ty left n sz v s = (r, s')"
  shows "\<forall>i<m. if left then ring b (sr_flag M68K_SR_X s') r ((i + n) mod m) = ring b (sr_flag M68K_SR_X s) v i
      else ring b (sr_flag M68K_SR_X s') r i = ring b (sr_flag M68K_SR_X s) v ((i + n) mod m)"
    and "r = r AND value_mask sz"
    and "sr_flag M68K_SR_C s' = (if ty = 2 then sr_flag M68K_SR_X s' else bit r (if left then 0 else b - 1))"
    and "ty = 3 \<Longrightarrow> sr_flag M68K_SR_X s' = sr_flag M68K_SR_X s"
    and "\<not> sr_flag M68K_SR_V s'" "\<not> sr_flag M68K_SR_N s'" "\<not> sr_flag M68K_SR_Z s'"
proof -
  note bb = operand_bits_bounds [of sz, folded b]
  have masks: "value_mask sz = mask b" "msb_mask sz = 2 ^ (b - 1)" by (simp_all add: size_masks b)
  note vm = v [unfolded masks]
  let ?x = "sr_flag M68K_SR_X s"
  obtain x' c' r' where rox: "(r', x', c') = (if left then roxl_loop n (mask b) (2 ^ (b - 1)) v ?x False
      else roxr_loop n (2 ^ (b - 1)) v ?x False)" by (metis prod_cases3)
  obtain c'' r'' where ro: "(r'', c'') = (if left then rol_loop n (mask b) (2 ^ (b - 1)) v False
      else ror_loop n (2 ^ (b - 1)) v False)" by (metis surj_pair)
  have "(r, s') = (if ty = 2 then (r', sr_set_if x' M68K_SR_X (sr_set_if c' M68K_SR_C
        (sr_clear (M68K_SR_N OR M68K_SR_Z OR M68K_SR_V OR M68K_SR_C OR M68K_SR_X) s)))
      else (r'', sr_set_if c'' M68K_SR_C (sr_clear (M68K_SR_N OR M68K_SR_Z OR M68K_SR_V OR M68K_SR_C) s)))"
    using body assms(2) rox ro
    by (cases left) (auto simp: shift_body_def Let_def masks split: prod.splits)
  then have r: "r = (if ty = 2 then r' else r'')"
    and s': "s' = (if ty = 2 then sr_set_if x' M68K_SR_X (sr_set_if c' M68K_SR_C
        (sr_clear (M68K_SR_N OR M68K_SR_Z OR M68K_SR_V OR M68K_SR_C OR M68K_SR_X) s))
      else sr_set_if c'' M68K_SR_C (sr_clear (M68K_SR_N OR M68K_SR_Z OR M68K_SR_V OR M68K_SR_C) s))"
    by (auto split: if_splits)
  have x: "sr_flag M68K_SR_X s' = (if ty = 2 then x' else ?x)"
    "sr_flag M68K_SR_C s' = (if ty = 2 then c' else c'')"
    "\<not> sr_flag M68K_SR_V s'" "\<not> sr_flag M68K_SR_N s'" "\<not> sr_flag M68K_SR_Z s'"
    unfolding s' by (auto simp: sr_flag_clear sr_bit_defs) (auto simp: sr_flag_def)
  have two: "(\<forall>i\<le>b. if left then ring b x' r' ((i + n) mod Suc b) = ring b ?x v i
      else ring b x' r' i = ring b ?x v ((i + n) mod Suc b)) \<and> c' = x' \<and> r' = r' AND mask b"
    using roxl_loop_bits [OF bb vm, of r' x' c' n ?x False] roxr_loop_bits [OF bb vm, of r' x' c' n ?x False] rox n
    by (cases left) auto
  have three: "(\<forall>i<b. if left then bit r'' ((i + n) mod b) = bit v i else bit r'' i = bit v ((i + n) mod b)) \<and>
      c'' = bit r'' (if left then 0 else b - 1) \<and> r'' = r'' AND mask b"
    using rol_loop_bits [OF bb vm, of r'' c'' n False] ror_loop_bits [OF bb vm, of r'' c'' n False] ro n
    by (cases left) auto
  show "\<forall>i<m. if left then ring b (sr_flag M68K_SR_X s') r ((i + n) mod m) = ring b ?x v i
      else ring b (sr_flag M68K_SR_X s') r i = ring b ?x v ((i + n) mod m)"
  proof (cases "ty = 2")
    case True
    then show ?thesis using conjunct1 [OF two] by (simp only: x r m if_True less_Suc_eq_le refl)
  next
    case False
    have k: "ring b c w i = bit w i" "ring b c w ((i + n) mod b) = bit w ((i + n) mod b)" if "i < b" for c w i
      using that by (simp_all add: ring_def)
    show ?thesis using conjunct1 [OF three] False by (simp add: x r m k)
  qed
  show "r = r AND value_mask sz"
    using two three unfolding r masks by presburger
  show "sr_flag M68K_SR_C s' = (if ty = 2 then sr_flag M68K_SR_X s' else bit r (if left then 0 else b - 1))"
    using conjunct1 [OF conjunct2 [OF two]] conjunct1 [OF conjunct2 [OF three]] by (simp add: x r)
  show "ty = 3 \<Longrightarrow> sr_flag M68K_SR_X s' = ?x" by (simp add: x)
  show "\<not> sr_flag M68K_SR_V s'" "\<not> sr_flag M68K_SR_N s'" "\<not> sr_flag M68K_SR_Z s'" by (rule x)+
qed


text \<open>C31: ROL, ROR, ROXL and ROXR on a data register, for every size and every count but zero: they rotate the ring of
  the operand's bits, for the forms through extend the ring of the bits and the extend
  flag, by the count; the carry is the bit that crossed the end last, a plain
  rotate keeps extend, and the rest of the register and all others are kept.\<close>

theorem rotate_meaning:
  assumes sz: "size_code (bits opcode 6 3) = Some sz"
    and ty: "ty = bits opcode 3 3" "ty = 2 \<or> ty = 3" and left: "left = (bits opcode 8 1 \<noteq> 0)"
    and r: "r = bits opcode 0 7"
    and n: "n = (if bits opcode 5 1 \<noteq> 0 then unat (d_regs s (bits opcode 9 7) AND 63)
      else if bits opcode 9 7 = 0 then 8 else bits opcode 9 7)" "0 < n"
    and b: "b = operand_bits sz" and m: "m = (if ty = 2 then Suc b else b)"
  shows "\<exists>s'. m68k_exec_shift env opcode s = Ret () s' \<and>
    (\<forall>i<m. if left
       then ring b (sr_flag M68K_SR_X s') (d_regs s' r) ((i + n) mod m) = ring b (sr_flag M68K_SR_X s) (d_regs s r) i
       else ring b (sr_flag M68K_SR_X s') (d_regs s' r) i = ring b (sr_flag M68K_SR_X s) (d_regs s r) ((i + n) mod m)) \<and>
    d_regs s' r AND NOT (value_mask sz) = d_regs s r AND NOT (value_mask sz) \<and>
    (\<forall>j. j \<noteq> r \<longrightarrow> d_regs s' j = d_regs s j) \<and> a_regs s' = a_regs s \<and> pc s' = pc s \<and>
    sr_flag M68K_SR_C s' = (if ty = 2 then sr_flag M68K_SR_X s' else bit (d_regs s' r) (if left then 0 else b - 1)) \<and>
    (ty = 3 \<longrightarrow> sr_flag M68K_SR_X s' = sr_flag M68K_SR_X s) \<and> \<not> sr_flag M68K_SR_V s' \<and>
    sr_flag M68K_SR_N s' = (sval sz (d_regs s' r) < 0) \<and> sr_flag M68K_SR_Z s' = (uval sz (d_regs s' r) = 0)"
proof -
  define v where "v = d_regs s r AND value_mask sz"
  obtain w s1 where body: "shift_body ty left n sz v s = (w, s1)" by (metis surj_pair)
  have v: "v = v AND value_mask sz" by (simp add: v_def and.assoc)
  note k = rotate_body_meaning [OF v ty(2) n(2) b m body]
  have bv: "bit (merge_size sz x y) i = bit y i" "bit (x AND value_mask sz) i = bit x i" if "i < b" for x y i
    using that operand_bits_bounds(2) [of sz]
    by (auto simp: merge_size_def size_masks bit_simps b)
  have rv: "ring b x (merge_size sz u y) i = ring b x y i" "ring b x (u AND value_mask sz) i = ring b x u i" for x y u i
    by (simp_all add: ring_def bv)
  have s': "m68k_exec_shift env opcode s =
      Ret () (set_d r (merge_size sz (d_regs s r) w)
        (sr_set_if (w = 0) M68K_SR_Z (sr_set_if (w AND msb_mask sz \<noteq> 0) M68K_SR_N s1)))"
    by (rule exec_shift_body [OF sz ty(1) left r n v_def body])
  have z: "(w = 0) = (uval sz w = 0)"
    using k(2) mask_uval [of w sz] by metis
  have c: "bit (merge_size sz (d_regs s r) w) (if left then 0 else b - 1) = bit w (if left then 0 else b - 1)"
    using operand_bits_bounds(1) [of sz] by (simp add: bv b)
  show ?thesis
    using k(1) [unfolded v_def rv] k(3-7) shift_body_registers [OF body]
    by (simp add: s' z c rv merge_size_values msb_sval result_bits_apart)
qed

lemma rotate_meaning_witness:
  "\<exists>s'. m68k_exec_shift no_callbacks 0xE251 (set_d 1 0x3 trap_state) = Ret () s' \<and> sr_flag M68K_SR_C s'"
proof -
  define s where "s = set_d 1 0x3 trap_state"
  have "\<exists>s'. m68k_exec_shift no_callbacks 0xE251 s = Ret () s' \<and>
    (\<forall>i<17. if False
       then ring 16 (sr_flag M68K_SR_X s') (d_regs s' 1) ((i + 1) mod 17) = ring 16 (sr_flag M68K_SR_X s) (d_regs s 1) i
       else ring 16 (sr_flag M68K_SR_X s') (d_regs s' 1) i = ring 16 (sr_flag M68K_SR_X s) (d_regs s 1) ((i + 1) mod 17)) \<and>
    d_regs s' 1 AND NOT (value_mask SIZE_WORD) = d_regs s 1 AND NOT (value_mask SIZE_WORD) \<and>
    (\<forall>j. j \<noteq> 1 \<longrightarrow> d_regs s' j = d_regs s j) \<and> a_regs s' = a_regs s \<and> pc s' = pc s \<and>
    sr_flag M68K_SR_C s' = (if 2 = (2 :: nat) then sr_flag M68K_SR_X s' else bit (d_regs s' 1) (if False then 0 else 16 - 1)) \<and>
    (2 = (3 :: nat) \<longrightarrow> sr_flag M68K_SR_X s' = sr_flag M68K_SR_X s) \<and> \<not> sr_flag M68K_SR_V s' \<and>
    sr_flag M68K_SR_N s' = (sval SIZE_WORD (d_regs s' 1) < 0) \<and>
    sr_flag M68K_SR_Z s' = (uval SIZE_WORD (d_regs s' 1) = 0)"
    by (rule rotate_meaning) (simp_all add: bits_def size_code_def operand_bits_def)
  then obtain s' where s': "m68k_exec_shift no_callbacks 0xE251 s = Ret () s'"
      "\<And>i. i < 17 \<Longrightarrow> ring 16 (sr_flag M68K_SR_X s') (d_regs s' 1) i = ring 16 (sr_flag M68K_SR_X s) (d_regs s 1) ((i + 1) mod 17)"
      "sr_flag M68K_SR_C s' = sr_flag M68K_SR_X s'"
    by auto
  have "sr_flag M68K_SR_X s' = ring 16 (sr_flag M68K_SR_X s') (d_regs s' 1) 16" by (simp add: ring_def)
  also have "\<dots>" using s'(2) [of 16] by (simp add: ring_def s_def)
  finally show ?thesis using s' unfolding s_def by auto
qed

end
