(* ===== verification/M68k_Move.thy ===== *)
theory M68k_Move
  imports M68k_Logic
begin

section \<open>Data movement\<close>

text \<open>
  The handlers of \<open>src/m68k/ops_move.c\<close>: MOVE and MOVEA with the staged commits that
  a faulting destination write can observe, MOVEQ, LEA, PEA, LINK, UNLK, MOVEM, EXG,
  SWAP, the moves of SR, CCR and USP, MOVEP and MOVES. MOVEP reads its bytes from left to
  right, an order that C leaves open. The theorems are about the exchanges, LINK and UNLK.
\<close>

subsection \<open>MOVE\<close>

definition move_size :: "nat \<Rightarrow> M68kSize option" where
  "move_size size_bits =
     (if size_bits = 1 then Some SIZE_BYTE
      else if size_bits = 3 then Some SIZE_WORD
      else if size_bits = 2 then Some SIZE_LONG
      else None)"

definition ccr_mask :: u16 where
  "ccr_mask = M68K_SR_N OR M68K_SR_Z OR M68K_SR_V OR M68K_SR_C"

text \<open>The condition codes of the moved value.\<close>

definition move_flags :: "M68kSize \<Rightarrow> u32 \<Rightarrow> u16" where
  "move_flags sz v =
     (let negative = (case sz of
            SIZE_BYTE \<Rightarrow> sint (ucast v :: u8) < 0
          | SIZE_WORD \<Rightarrow> sint (ucast v :: u16) < 0
          | SIZE_LONG \<Rightarrow> sint v < 0);
          zero = (case sz of
            SIZE_BYTE \<Rightarrow> (ucast v :: u8) = 0
          | SIZE_WORD \<Rightarrow> (ucast v :: u16) = 0
          | SIZE_LONG \<Rightarrow> v = 0)
      in (if negative then M68K_SR_N else 0) OR (if zero then M68K_SR_Z else 0))"

text \<open>The condition codes that a faulting long write leaves visible.\<close>

definition move_fault_flags :: "nat \<Rightarrow> bool \<Rightarrow> bool \<Rightarrow> u32 \<Rightarrow> u16 \<Rightarrow> u16 \<Rightarrow> u16" where
  "move_fault_flags dest_mode abs_long_dest src_reg_imm v full_flags old_flags =
     (if dest_mode = 2 \<or> dest_mode = 3 \<or> (abs_long_dest \<and> \<not> src_reg_imm)
      then (if src_reg_imm then old_flags
            else (if v AND 0x8000 \<noteq> 0 then M68K_SR_N else 0) OR
                 (if (ucast v :: u16) = 0 then M68K_SR_Z else 0))
      else if (dest_mode = 5 \<or> dest_mode = 6) \<and> src_reg_imm
      then (old_flags AND (M68K_SR_V OR M68K_SR_C)) OR
           (if v AND 0x80000000 \<noteq> 0 then M68K_SR_N else 0) OR
           (if drop_bit 16 v = 0 then M68K_SR_Z else 0)
      else full_flags)"

definition set_ccr :: "u16 \<Rightarrow> 'h cpu \<Rightarrow> 'h cpu" where
  "set_ccr flags s = s\<lparr>sr := (sr s AND NOT ccr_mask) OR flags\<rparr>"

text \<open>The destination: \<open>(An)+\<close> and \<open>-(An)\<close> are resolved here, with the register
  value to commit after the write, if any.\<close>

definition move_dest ::
  "'h host_callbacks \<Rightarrow> nat \<Rightarrow> nat \<Rightarrow> M68kSize \<Rightarrow> 'h cpu \<Rightarrow> ('h, M68kEA \<times> u32 option) out" where
  "move_dest env dest_mode dest_reg sz s =
     (if dest_mode = 3 \<or> dest_mode = 4
      then (let step = ea_step sz dest_reg;
                s = spend (m68k_ea_cycles dest_mode dest_reg sz) s
            in if dest_mode = 3
               then (let a = a_regs s dest_reg
                     in Ret (zero_ea\<lparr>address := a\<rparr>, Some (a + step)) s)
               else (let a = a_regs s dest_reg - step
                     in if sz = SIZE_LONG then Ret (zero_ea\<lparr>address := a\<rparr>, Some a) s
                        else Ret (zero_ea\<lparr>address := a\<rparr>, None) (set_a dest_reg a s)))
      else andthen (m68k_calc_ea_addr env dest_mode dest_reg sz s) (\<lambda>ea s.
           Ret (ea, None) s))"

text \<open>The write to a memory destination: what a fault would see is set up before it,
  with the cycles refunded that a faulting write does not spend.\<close>

definition move_fault_refund :: "M68kSize \<Rightarrow> nat \<Rightarrow> bool \<Rightarrow> bool \<Rightarrow> int" where
  "move_fault_refund sz dest_mode abs_long_dest src_reg_imm =
     (let refund = (if sz = SIZE_LONG then (if dest_mode = 4 then 2 else 4) else 0)
      in if abs_long_dest \<and> \<not> src_reg_imm then refund + 4 else refund)"

definition move_prepare ::
  "nat \<Rightarrow> bool \<Rightarrow> nat \<Rightarrow> bool \<Rightarrow> M68kSize \<Rightarrow> u32 \<Rightarrow> u32 \<Rightarrow> 'h cpu \<Rightarrow> 'h cpu" where
  "move_prepare src_mode src_reg_imm dest_mode abs_long_dest sz v pc_after_src s =
     (let full_flags = move_flags sz v;
          s = s\<lparr>fault_pc := pc_after_src + 2\<rparr>;
          s = (if abs_long_dest \<and> src_mode \<le> 1 then s\<lparr>fault_pc := fault_pc s + 2\<rparr> else s);
          s = s\<lparr>fault_pc_valid := True\<rparr>;
          s = (if sz = SIZE_LONG
               then set_ccr (move_fault_flags dest_mode abs_long_dest src_reg_imm v full_flags
                              (sr s AND ccr_mask)) s
               else set_ccr full_flags s);
          refund = move_fault_refund sz dest_mode abs_long_dest src_reg_imm;
          s = s\<lparr>cycles_remaining := cycles_remaining s + refund\<rparr>
      in if dest_mode = 4 \<and> sz \<noteq> SIZE_LONG then spend 2 s else s)"

definition move_to_memory ::
  "'h host_callbacks \<Rightarrow> nat \<Rightarrow> nat \<Rightarrow> nat \<Rightarrow> nat \<Rightarrow> M68kSize \<Rightarrow> u32 \<Rightarrow> u32 \<Rightarrow> u32 option \<Rightarrow> u32 \<Rightarrow>
   'h cpu \<Rightarrow> ('h, unit) out" where
  "move_to_memory env src_mode src_reg dest_mode dest_reg sz v dest_addr commit pc_after_src s =
     (let full_flags = move_flags sz v;
          src_reg_imm = (src_mode \<le> 1 \<or> (src_mode = 7 \<and> src_reg = 4));
          abs_long_dest = (dest_mode = 7 \<and> dest_reg = 1);
          refund = move_fault_refund sz dest_mode abs_long_dest src_reg_imm;
          s = move_prepare src_mode src_reg_imm dest_mode abs_long_dest sz v pc_after_src s
      in if dest_mode = 4 \<and> sz = SIZE_LONG
      then andthen (m68k_write_16 env (dest_addr + 2) (ucast v) s) (\<lambda>_ s.
           andthen (m68k_write_16 env dest_addr (ucast (drop_bit 16 v)) s) (\<lambda>_ s.
           let s = spend refund s;
               s = (case commit of None \<Rightarrow> s | Some c \<Rightarrow> set_a dest_reg c s)
           in Ret () (set_ccr full_flags s)))
      else (let s = (if dest_mode = 4 \<and> dest_addr AND 1 \<noteq> 0
                     then (case m68k_peek_word env pc_after_src s of
                             (w, s) \<Rightarrow> s\<lparr>fault_bus_word := w\<rparr>\<lparr>fault_bus_word_valid := True\<rparr>)
                     else s)
            in andthen (m68k_write_size env dest_addr v sz s) (\<lambda>_ s.
               let s = spend refund s;
                   s = s\<lparr>fault_bus_word_valid := False\<rparr>;
                   s = (case commit of None \<Rightarrow> s | Some c \<Rightarrow> set_a dest_reg c s)
               in Ret () (if sz = SIZE_LONG then set_ccr full_flags s else s))))"

definition m68k_exec_move :: "'h host_callbacks \<Rightarrow> u16 \<Rightarrow> 'h cpu \<Rightarrow> ('h, unit) out" where
  "m68k_exec_move env opcode s =
     (case move_size (bits opcode 12 0x3) of
        None \<Rightarrow> Ret () s
      | Some sz \<Rightarrow>
          (let dest_reg = bits opcode 9 0x7;
               dest_mode = bits opcode 6 0x7;
               src_mode = bits opcode 3 0x7;
               src_reg = bits opcode 0 0x7
           in if (dest_mode = 7 \<and> dest_reg > 1) \<or> (dest_mode = 1 \<and> sz = SIZE_BYTE)
              then m68k_exception env 4 s
              else andthen (m68k_calc_ea env src_mode src_reg sz s) (\<lambda>src_ea s.
                let pc_after_src = pc s; v = ea_value src_ea
                in andthen (move_dest env dest_mode dest_reg sz s) (\<lambda>(dest_ea, commit) s.
                if is_reg dest_ea \<and> \<not> is_addr dest_ea
                then (let s = set_d (reg_num dest_ea)
                                (merge_size sz (d_regs s (reg_num dest_ea)) v) s
                      in Ret () (set_ccr (move_flags sz v) s))
                else if is_reg dest_ea \<and> is_addr dest_ea
                then (let val = (if sz = SIZE_WORD then sext16 v else v)
                      in Ret () (set_a (reg_num dest_ea) val s))
                else move_to_memory env src_mode src_reg dest_mode dest_reg sz v
                       (address dest_ea) commit pc_after_src s))))"

subsection \<open>MOVEQ, LEA, PEA, LINK, UNLK\<close>

definition m68k_exec_moveq :: "'h host_callbacks \<Rightarrow> u16 \<Rightarrow> 'h cpu \<Rightarrow> ('h, unit) out" where
  "m68k_exec_moveq env opcode s =
     (let reg = bits opcode 9 0x7;
          data = sext8 (opcode AND 0xFF);
          s = set_d reg data s
      in Ret () (update_flags_logic data SIZE_LONG s))"

definition m68k_exec_lea :: "'h host_callbacks \<Rightarrow> u16 \<Rightarrow> 'h cpu \<Rightarrow> ('h, unit) out" where
  "m68k_exec_lea env opcode s =
     (let reg_idx = bits opcode 9 0x7;
          mode = bits opcode 3 0x7;
          reg = bits opcode 0 0x7
      in andthen (m68k_calc_ea_ctl env mode reg False s) (\<lambda>ea s.
         Ret () (set_a reg_idx (address ea) s)))"

definition m68k_exec_pea :: "'h host_callbacks \<Rightarrow> u16 \<Rightarrow> 'h cpu \<Rightarrow> ('h, unit) out" where
  "m68k_exec_pea env opcode s =
     (let mode = bits opcode 3 0x7;
          reg = bits opcode 0 0x7
      in andthen (m68k_calc_ea_ctl env mode reg False s) (\<lambda>ea s.
         m68k_push_32 env (address ea) s))"

definition m68k_exec_link :: "'h host_callbacks \<Rightarrow> u16 \<Rightarrow> 'h cpu \<Rightarrow> ('h, unit) out" where
  "m68k_exec_link env opcode s =
     (let reg = bits opcode 0 0x7
      in andthen (m68k_fetch env s) (\<lambda>w s.
         let displacement = sext16 w
         in andthen (m68k_push_32 env (a_regs s reg) s) (\<lambda>_ s.
            let s = set_a reg (a_regs s 7) s
            in Ret () (set_a 7 (a_regs s 7 + displacement) s))))"

definition m68k_exec_unlk :: "'h host_callbacks \<Rightarrow> u16 \<Rightarrow> 'h cpu \<Rightarrow> ('h, unit) out" where
  "m68k_exec_unlk env opcode s =
     (let reg = bits opcode 0 0x7;
          frame_sp = a_regs s reg;
          s = s\<lparr>fault_pc := pc s + 2\<rparr>;
          s = s\<lparr>fault_pc_valid := True\<rparr>;
          s = spend 4 s
      in andthen (m68k_read_32 env frame_sp s) (\<lambda>v s.
         let s = set_a 7 (frame_sp + 4) s
         in Ret () (set_a reg v s)))"

subsection \<open>MOVEM\<close>

definition movem_invalid :: "bool \<Rightarrow> nat \<Rightarrow> nat \<Rightarrow> bool" where
  "movem_invalid mem_to_reg mode reg =
     (mode < 2 \<or> (mode = 7 \<and> reg = 4) \<or> (mode = 7 \<and> reg > 4) \<or>
      (mem_to_reg \<and> mode = 4) \<or>
      (\<not> mem_to_reg \<and> (mode = 3 \<or> (mode = 7 \<and> (reg = 2 \<or> reg = 3)))))"

text \<open>The bodies of the three transfer loops, over the running address.\<close>

definition movem_load :: "'h host_callbacks \<Rightarrow> u16 \<Rightarrow> M68kSize \<Rightarrow> nat \<Rightarrow> u32 \<Rightarrow> 'h cpu \<Rightarrow> ('h, u32) out" where
  "movem_load env rmask sz i addr s =
     (if rmask AND push_bit i 1 \<noteq> 0
      then andthen (m68k_read_size env addr sz s) (\<lambda>val s.
           let s = spend (if sz = SIZE_LONG then 8 else 4) s;
               val = (if sz \<noteq> SIZE_LONG then sext16 val else val);
               s = (if i < 8 then set_d i val s else set_a (i - 8) val s)
           in Ret (addr + size_bytes sz) s)
      else Ret addr s)"

definition movem_predec ::
  "'h host_callbacks \<Rightarrow> u16 \<Rightarrow> M68kSize \<Rightarrow> nat \<Rightarrow> u32 \<Rightarrow> nat \<Rightarrow> u32 \<Rightarrow> 'h cpu \<Rightarrow> ('h, u32) out" where
  "movem_predec env rmask sz reg initial_an i addr s =
     (if rmask AND push_bit i 1 \<noteq> 0
      then (let reg_idx = 15 - i;
                addr = addr - size_bytes sz;
                val = (if reg_idx \<ge> 8 \<and> reg_idx - 8 = reg then initial_an
                       else if reg_idx < 8 then d_regs s reg_idx else a_regs s (reg_idx - 8))
            in andthen (if sz = SIZE_LONG
                        then andthen (m68k_write_16 env (addr + 2) (ucast val) s) (\<lambda>_ s.
                             m68k_write_16 env addr (ucast (drop_bit 16 val)) s)
                        else m68k_write_size env addr (val AND 0xFFFF) sz s) (\<lambda>_ s.
               Ret addr (spend (if sz = SIZE_LONG then 8 else 4) s)))
      else Ret addr s)"

definition movem_store :: "'h host_callbacks \<Rightarrow> u16 \<Rightarrow> M68kSize \<Rightarrow> nat \<Rightarrow> u32 \<Rightarrow> 'h cpu \<Rightarrow> ('h, u32) out" where
  "movem_store env rmask sz i addr s =
     (if rmask AND push_bit i 1 \<noteq> 0
      then (let val = (if i < 8 then d_regs s i else a_regs s (i - 8));
                val = (if sz \<noteq> SIZE_LONG then val AND 0xFFFF else val)
            in andthen (m68k_write_size env addr val sz s) (\<lambda>_ s.
               let s = spend (if sz = SIZE_LONG then 8 else 4) s
               in Ret (addr + size_bytes sz) s))
      else Ret addr s)"

definition m68k_exec_movem :: "'h host_callbacks \<Rightarrow> u16 \<Rightarrow> 'h cpu \<Rightarrow> ('h, unit) out" where
  "m68k_exec_movem env opcode s =
     (let mem_to_reg = (opcode AND 0x0400 \<noteq> 0);
          sz = (if opcode AND 0x0040 \<noteq> 0 then SIZE_LONG else SIZE_WORD);
          mode = bits opcode 3 0x7;
          reg = bits opcode 0 0x7
      in if movem_invalid mem_to_reg mode reg then m68k_exception env 4 s
      else andthen (m68k_fetch env s) (\<lambda>rmask s.
        andthen (if (mode = 4 \<and> \<not> mem_to_reg) \<or> mode = 3 then Ret (a_regs s reg) s
                 else andthen (m68k_calc_ea_addr_nocost env mode reg sz s) (\<lambda>ea s.
                      Ret (address ea) s)) (\<lambda>addr s.
        let s = spend (m68k_movem_ea_cycles mode reg mem_to_reg) s;
            s = (if mem_to_reg then s\<lparr>cycles_remaining := cycles_remaining s + 4\<rparr> else s);
            s = s\<lparr>fault_pc := pc s + 2\<rparr>;
            s = s\<lparr>fault_pc_valid := True\<rparr>
        in if mem_to_reg
           then (let s = (if mode = 7 \<and> (reg = 2 \<or> reg = 3)
                          then s\<lparr>operand_program_space := True\<rparr> else s)
                 in andthen (for_upto 16 0 (movem_load env rmask sz) addr s) (\<lambda>addr s.
                    let s = s\<lparr>operand_program_space := False\<rparr>;
                        s = spend 4 s
                    in Ret () (if mode = 3 then set_a reg addr s else s)))
           else if mode = 4
           then andthen (for_upto 16 0 (movem_predec env rmask sz reg (a_regs s reg)) addr s)
                  (\<lambda>addr s. Ret () (set_a reg addr s))
           else andthen (for_upto 16 0 (movem_store env rmask sz) addr s) (\<lambda>addr s. Ret () s))))"

subsection \<open>EXG and SWAP\<close>

definition m68k_exec_exg :: "'h host_callbacks \<Rightarrow> u16 \<Rightarrow> 'h cpu \<Rightarrow> ('h, unit) out" where
  "m68k_exec_exg env opcode s =
     (let rx = bits opcode 9 0x7;
          ry = bits opcode 0 0x7;
          opmode = bits opcode 3 0x1F
      in if opmode = 0x08
         then (let val_rx = d_regs s rx; val_ry = d_regs s ry; s = set_d rx val_ry s
               in Ret () (set_d ry val_rx s))
         else if opmode = 0x09
         then (let val_rx = a_regs s rx; val_ry = a_regs s ry; s = set_a rx val_ry s
               in Ret () (set_a ry val_rx s))
         else if opmode = 0x11
         then (let val_rx = d_regs s rx; val_ry = a_regs s ry; s = set_d rx val_ry s
               in Ret () (set_a ry val_rx s))
         else Ret () s)"

definition m68k_exec_swap :: "'h host_callbacks \<Rightarrow> u16 \<Rightarrow> 'h cpu \<Rightarrow> ('h, unit) out" where
  "m68k_exec_swap env opcode s =
     (let reg = bits opcode 0 0x7;
          val = d_regs s reg;
          result = push_bit 16 val OR drop_bit 16 val;
          s = set_d reg result s
      in Ret () (update_flags_logic result SIZE_LONG s))"

subsection \<open>Moves of SR, CCR and USP\<close>

text \<open>MOVE from SR and from CCR: to a data register, or to memory after a read of it.\<close>

definition store_sr_word ::
  "'h host_callbacks \<Rightarrow> M68kEA \<Rightarrow> u16 \<Rightarrow> 'h cpu \<Rightarrow> ('h, unit) out" where
  "store_sr_word env ea w s =
     (if is_reg ea \<and> \<not> is_addr ea
      then Ret () (set_d (reg_num ea) ((d_regs s (reg_num ea) AND 0xFFFF0000) OR ucast w) s)
      else andthen (m68k_read_size env (address ea) SIZE_WORD s) (\<lambda>_ s.
           m68k_write_size env (address ea) (ucast w) SIZE_WORD s))"

definition m68k_exec_move_sr :: "'h host_callbacks \<Rightarrow> u16 \<Rightarrow> 'h cpu \<Rightarrow> ('h, unit) out" where
  "m68k_exec_move_sr env opcode s =
     (let mode = bits opcode 3 0x7;
          reg = bits opcode 0 0x7
      in if opcode AND 0xFFC0 = 0x46C0
      then (if not_data_source mode reg then m68k_exception env 4 s
            else if \<not> sr_flag M68K_SR_S s then privilege_violation env s
            else andthen (m68k_calc_ea env mode reg SIZE_WORD s) (\<lambda>ea s.
                 Ret () (m68k_set_sr (ucast (ea_value ea)) s)))
      else if opcode AND 0xFFC0 = 0x40C0
      then (if not_data_alterable mode reg then m68k_exception env 4 s
            else if model s \<ge> M68K_MODEL_68010 \<and> \<not> sr_flag M68K_SR_S s
            then privilege_violation env s
            else andthen (m68k_calc_ea_addr env mode reg SIZE_WORD s) (\<lambda>ea s.
                 if is_reg ea \<and> \<not> is_addr ea then store_sr_word env ea (sr s) s
                 else andthen (m68k_read_size env (address ea) SIZE_WORD s) (\<lambda>_ s.
                      m68k_write_size env (address ea) (ucast (sr s)) SIZE_WORD s)))
      else if opcode AND 0xFFC0 = 0x42C0
      then (if not_data_alterable mode reg then m68k_exception env 4 s
            else andthen (m68k_calc_ea_addr env mode reg SIZE_WORD s) (\<lambda>ea s.
                 let ccr = sr s AND 0x00FF
                 in store_sr_word env ea ccr s))
      else Ret () s)"

definition m68k_exec_move_usp :: "'h host_callbacks \<Rightarrow> u16 \<Rightarrow> 'h cpu \<Rightarrow> ('h, unit) out" where
  "m68k_exec_move_usp env opcode s =
     (if \<not> sr_flag M68K_SR_S s then privilege_violation env s
      else (let reg = bits opcode 0 0x7;
                to_usp = (opcode AND 0x8 = 0)
            in if to_usp then Ret () (s\<lparr>usp := a_regs s reg\<rparr>)
               else Ret () (set_a reg (usp s) s)))"

definition m68k_exec_move_ccr :: "'h host_callbacks \<Rightarrow> u16 \<Rightarrow> 'h cpu \<Rightarrow> ('h, unit) out" where
  "m68k_exec_move_ccr env opcode s =
     (let mode = bits opcode 3 0x7;
          reg = bits opcode 0 0x7
      in if not_data_source mode reg then m68k_exception env 4 s
      else andthen (m68k_calc_ea env mode reg SIZE_WORD s) (\<lambda>ea s.
        let data = (ucast (ea_value ea AND 0x1F) :: u16)
        in Ret () (s\<lparr>sr := (sr s AND 0xFF00) OR data\<rparr>)))"

subsection \<open>MOVEP and MOVES\<close>

definition m68k_exec_movep :: "'h host_callbacks \<Rightarrow> u16 \<Rightarrow> 'h cpu \<Rightarrow> ('h, unit) out" where
  "m68k_exec_movep env opcode s =
     (let data_reg = bits opcode 9 0x7;
          addr_reg = bits opcode 0 0x7;
          opmode = bits opcode 6 0x7
      in andthen (m68k_fetch env s) (\<lambda>w s.
        let addr = a_regs s addr_reg + sext16 w
        in if opmode = 4
        then (let old = d_regs s data_reg AND 0xFFFF0000
              in andthen (m68k_read_8 env addr s) (\<lambda>b1 s.
                 andthen (m68k_read_8 env (addr + 2) s) (\<lambda>b0 s.
                 Ret () (set_d data_reg (old OR push_bit 8 (ucast b1) OR ucast b0) s))))
        else if opmode = 5
        then andthen (m68k_read_8 env addr s) (\<lambda>b3 s.
             andthen (m68k_read_8 env (addr + 2) s) (\<lambda>b2 s.
             andthen (m68k_read_8 env (addr + 4) s) (\<lambda>b1 s.
             andthen (m68k_read_8 env (addr + 6) s) (\<lambda>b0 s.
             Ret () (set_d data_reg (push_bit 24 (ucast b3) OR push_bit 16 (ucast b2) OR
                                     push_bit 8 (ucast b1) OR ucast b0) s)))))
        else if opmode = 6
        then andthen (m68k_write_8 env addr (ucast (drop_bit 8 (d_regs s data_reg) AND 0xFF)) s)
               (\<lambda>_ s. m68k_write_8 env (addr + 2) (ucast (d_regs s data_reg AND 0xFF)) s)
        else if opmode = 7
        then andthen (m68k_write_8 env addr (ucast (drop_bit 24 (d_regs s data_reg) AND 0xFF)) s)
               (\<lambda>_ s.
             andthen (m68k_write_8 env (addr + 2)
                        (ucast (drop_bit 16 (d_regs s data_reg) AND 0xFF)) s) (\<lambda>_ s.
             andthen (m68k_write_8 env (addr + 4)
                        (ucast (drop_bit 8 (d_regs s data_reg) AND 0xFF)) s) (\<lambda>_ s.
             m68k_write_8 env (addr + 6) (ucast (d_regs s data_reg AND 0xFF)) s)))
        else Ret () s))"

definition m68k_exec_moves :: "'h host_callbacks \<Rightarrow> u16 \<Rightarrow> 'h cpu \<Rightarrow> ('h, unit) out" where
  "m68k_exec_moves env opcode s =
     (let mode = bits opcode 3 0x7;
          reg = bits opcode 0 0x7
      in if mode < 2 \<or> (mode = 7 \<and> reg > 1) then m68k_exception env 4 s
      else if \<not> sr_flag M68K_SR_S s then privilege_violation env s
      else case size_code (bits opcode 6 0x3) of
        None \<Rightarrow> Ret () s
      | Some sz \<Rightarrow>
          andthen (m68k_fetch env s) (\<lambda>ext s.
          if ext AND 0x07FF \<noteq> 0 then m68k_exception env 4 s
          else (let is_a = (bits ext 15 1 \<noteq> 0);
                    rnum = bits ext 12 0x7;
                    to_ea = (bits ext 11 1 \<noteq> 0)
                in andthen (if to_ea then m68k_calc_ea_addr env mode reg sz s
                            else m68k_calc_ea env mode reg sz s) (\<lambda>ea s.
                   if to_ea
                   then (let val = (if is_a then a_regs s rnum else d_regs s rnum)
                         in m68k_write_size env (address ea) val sz s)
                   else (let val = ea_value ea
                         in if is_a
                            then (let val = (if sz = SIZE_BYTE then sext8 (val AND 0xFF)
                                             else if sz = SIZE_WORD then sext16 (val AND 0xFFFF)
                                             else val)
                                  in Ret () (set_a rnum val s))
                            else Ret () (set_d rnum (merge_size sz (d_regs s rnum) val) s))))))"

lemma sr_ok_move_flags [simp]: "sr_ok (move_flags sz v)"
  by (simp add: move_flags_def Let_def)

lemma sr_ok_ccr_mask [simp]: "sr_ok ccr_mask"
  by (simp add: ccr_mask_def)

lemma sr_ok_move_fault_flags [simp]:
  "sr_ok f \<Longrightarrow> sr_ok g \<Longrightarrow> sr_ok (move_fault_flags m a i v f g)"
  by (simp add: move_fault_flags_def)

lemma move_fault_refund_le: "move_fault_refund sz dm a i \<le> 8"
  by (simp add: move_fault_refund_def Let_def)

lemma movem_cycles_ge:
  assumes "\<not> movem_invalid m2r m r" and "m \<le> 7"
  shows "(if m2r then 12 else 8) \<le> m68k_movem_ea_cycles m r m2r"
proof -
  have "m = 2 \<or> m = 3 \<or> m = 4 \<or> m = 5 \<or> m = 6 \<or> m = 7 \<and> (r = 0 \<or> r = 1 \<or> r = 2 \<or> r = 3)"
  proof -
    have "\<not> m < 2" "m = 7 \<longrightarrow> \<not> 3 < r"
      using assms(1) by (auto simp: movem_invalid_def)
    then show ?thesis using assms(2) by presburger
  qed
  then show ?thesis
    using assms(1) unfolding movem_invalid_def m68k_movem_ea_cycles_def by (elim disjE) auto
qed

subsection \<open>Safety\<close>

context instruction begin

lemma moveq_keeps:
  assumes "cpu_inv p fresh c s" and "bound_ok t c"
  shows "keeps (cpu_inv p quiet c) (jump_inv p c) (m68k_exec_moveq env opcode s)"
  using assms unfolding m68k_exec_moveq_def Let_def
  by (auto intro!: handler_intros)

lemma link_keeps:
  assumes "cpu_inv p fresh c s" and "bound_ok t c"
  shows "keeps (cpu_inv p quiet c) (jump_inv p c) (m68k_exec_link env opcode s)"
  using assms unfolding m68k_exec_link_def Let_def
  by (auto intro!: handler_intros)

lemma unlk_keeps:
  assumes "cpu_inv p fresh c s" and "bound_ok t c"
  shows "keeps (cpu_inv p quiet c) (jump_inv p c) (m68k_exec_unlk env opcode s)"
  using assms unfolding m68k_exec_unlk_def Let_def
  by (auto intro!: handler_intros)

lemma exg_keeps:
  assumes "cpu_inv p fresh c s" and "bound_ok t c"
  shows "keeps (cpu_inv p quiet c) (jump_inv p c) (m68k_exec_exg env opcode s)"
  using assms unfolding m68k_exec_exg_def Let_def
  by (auto intro!: handler_intros)

lemma swap_keeps:
  assumes "cpu_inv p fresh c s" and "bound_ok t c"
  shows "keeps (cpu_inv p quiet c) (jump_inv p c) (m68k_exec_swap env opcode s)"
  using assms unfolding m68k_exec_swap_def Let_def
  by (auto intro!: handler_intros)

lemma move_usp_keeps:
  assumes "cpu_inv p fresh c s" and "bound_ok t c"
  shows "keeps (cpu_inv p quiet c) (jump_inv p c) (m68k_exec_move_usp env opcode s)"
  using assms unfolding m68k_exec_move_usp_def Let_def
  by (auto intro!: handler_intros privilege_violation_keeps)

lemma move_ccr_keeps:
  assumes "cpu_inv p fresh c s" and "bound_ok t c"
  shows "keeps (cpu_inv p quiet c) (jump_inv p c) (m68k_exec_move_ccr env opcode s)"
  using assms unfolding m68k_exec_move_ccr_def Let_def
  by (auto intro!: handler_intros)

lemma movep_keeps:
  assumes "cpu_inv p fresh c s" and "bound_ok t c"
  shows "keeps (cpu_inv p quiet c) (jump_inv p c) (m68k_exec_movep env opcode s)"
  using assms unfolding m68k_exec_movep_def Let_def
  by (auto intro!: handler_intros)

lemma store_sr_word_keeps:
  assumes "cpu_inv p w c s" and bound: "bound_ok t c"
  shows "keeps (cpu_inv p w c) (jump_inv p c) (store_sr_word env ea x s)"
  using assms unfolding store_sr_word_def
  by (auto intro!: keeps_andthen read_keeps write_keeps st)

lemma move_sr_keeps:
  assumes "cpu_inv p fresh c s" and "bound_ok t c"
  shows "keeps (cpu_inv p quiet c) (jump_inv p c) (m68k_exec_move_sr env opcode s)"
  using assms unfolding m68k_exec_move_sr_def Let_def
  by (auto intro!: handler_intros privilege_violation_keeps store_sr_word_keeps inv_set_sr)

lemma moves_keeps:
  assumes "cpu_inv p fresh c s" and "bound_ok t c"
  shows "keeps (cpu_inv p quiet c) (jump_inv p c) (m68k_exec_moves env opcode s)"
  using assms unfolding m68k_exec_moves_def Let_def
  by (auto split: option.split intro!: handler_intros privilege_violation_keeps)

lemma lea_keeps:
  assumes "cpu_inv p fresh c s" and "bound_ok t c"
  shows "keeps (paid c) (jump_inv p c) (m68k_exec_lea env opcode s)"
  using assms unfolding m68k_exec_lea_def Let_def
  by (intro keeps_bind [OF calc_ea_ctl_keeps]) (auto simp: bits_7_le paid_lower)

lemma pea_keeps:
  assumes "cpu_inv p fresh c s" and "bound_ok t c"
  shows "keeps (cpu_inv p quiet c) (jump_inv p c) (m68k_exec_pea env opcode s)"
proof -
  have "keeps (cpu_inv p quiet c) (jump_inv p c) (m68k_push_32 env a s')"
    if "cpu_inv p fresh (lower 4 c) s'" for a s'
    using inv_raise [OF that] assms(2) by (intro stack_keeps st) (simp_all add: fresh_quiet)
  then show ?thesis
    using assms unfolding m68k_exec_pea_def Let_def
    by (intro keeps_bind [OF calc_ea_ctl_keeps]) (auto simp: bits_7_le)
qed

lemma move_dest_keeps:
  assumes "cpu_inv p fresh c s" and "bound_ok t c"
  shows "keeps (cpu_inv p fresh (lower (if m = 4 then 6 else 0) c)) (jump_inv p c)
    (move_dest env m r sz s)"
proof -
  have n: "6 \<le> m68k_ea_cycles 4 r sz"
    by (simp add: m68k_ea_cycles_def m68k_ea_cycle_table_def)
  show ?thesis
    unfolding move_dest_def Let_def
    using assms n inv_spend_ge [OF assms(1) n]
    by (auto intro!: keeps_andthen calc_ea_keeps inv_cycles ea_cycles_nonneg)
qed

lemma inv_set_ccr: "cpu_inv p w c s \<Longrightarrow> sr_ok x \<Longrightarrow> cpu_inv p w c (set_ccr x s)"
  by (simp add: set_ccr_def inv_sr_upd)

text \<open>A long write is refunded up to 8 cycles while it can still fault.\<close>

lemma refunded_write_keeps:
  assumes "cpu_inv p w (lower (- r) c) s" and "bound_ok t c" and "r \<le> 8"
  shows "keeps (cpu_inv p w (lower (- r) c)) (jump_inv p (lower (- 8) c)) (m68k_write_16 env a v16 s)"
    and "keeps (cpu_inv p w (lower (- r) c)) (jump_inv p (lower (- 8) c)) (m68k_write_size env a v32 sz s)"
proof -
  have b: "bound_ok t (lower (- r) c)" using assms(2) by simp
  have j: "jump_inv p (lower (- r) c) s' \<Longrightarrow> jump_inv p (lower (- 8) c) s'" for s'
    using jump_inv_raise [of p "8 - r" "lower (- 8) c" s'] assms(3) by simp
  note k = write_keeps [OF assms(1) b st]
  show "keeps (cpu_inv p w (lower (- r) c)) (jump_inv p (lower (- 8) c)) (m68k_write_16 env a v16 s)"
    by (rule keeps_mono [OF k(2)]) (auto intro: j)
  show "keeps (cpu_inv p w (lower (- r) c)) (jump_inv p (lower (- 8) c)) (m68k_write_size env a v32 sz s)"
    by (rule keeps_mono [OF k(4)]) (auto intro: j)
qed

text \<open>The two forms of the write: low word first for a predecremented long, and one
  access otherwise, with the prefetched word latched when it may fault.\<close>

lemma move_long_predec_keeps:
  assumes "cpu_inv p fresh (lower (- r) c) s" and "bound_ok t c" and "r \<le> 8" and "sr_ok fl"
  shows "keeps (cpu_inv p fresh c) (jump_inv p (lower (- 8) c))
    (andthen (m68k_write_16 env a v16 s) (\<lambda>_ s.
     andthen (m68k_write_16 env a' v16' s) (\<lambda>_ s.
     let s = spend r s;
         s = (case commit of None \<Rightarrow> s | Some x \<Rightarrow> set_a n x s)
     in Ret () (set_ccr fl s))))"
  unfolding Let_def
  using assms
  by (intro keeps_bind [OF refunded_write_keeps(1)])
     (auto split: option.split intro!: inv_set_ccr inv_refunded(2))

lemma move_write_keeps:
  assumes "cpu_inv p fresh (lower (- r) c) s" and "bound_ok t c" and "r \<le> 8" and "sr_ok fl"
  shows "keeps (cpu_inv p fresh c) (jump_inv p (lower (- 8) c))
    (let s = (if b then (case m68k_peek_word env a s of
                (w, s) \<Rightarrow> s\<lparr>fault_bus_word := w\<rparr>\<lparr>fault_bus_word_valid := True\<rparr>) else s)
     in andthen (m68k_write_size env a' v sz s) (\<lambda>_ s.
        let s = spend r s;
            s = s\<lparr>fault_bus_word_valid := False\<rparr>;
            s = (case commit of None \<Rightarrow> s | Some x \<Rightarrow> set_a n x s)
        in Ret () (if l then set_ccr fl s else s)))"
proof -
  let ?w = "fresh\<lparr>latches := {Bus_word}\<rparr>"
  have le: "perm_le fresh ?w"
    by (simp add: perm_le_def fresh_def)
  define s1 where "s1 = (if b then (case m68k_peek_word env a s of
      (w, s) \<Rightarrow> s\<lparr>fault_bus_word := w\<rparr>\<lparr>fault_bus_word_valid := True\<rparr>) else s)"
  have "cpu_inv p fresh (lower (- r) c) (snd (m68k_peek_word env a s))"
    using assms by (intro peek_word_inv) simp_all
  moreover have "cpu_inv p ?w c' (s'\<lparr>fault_bus_word := x\<rparr>\<lparr>fault_bus_word_valid := True\<rparr>)"
    if "cpu_inv p fresh c' s'" for c' s' x
    using inv_bus_word(1) [where w = fresh and s = "s'\<lparr>fault_bus_word := x\<rparr>"] that by simp
  ultimately have s1: "cpu_inv p ?w (lower (- r) c) s1"
    using inv_weaken [OF assms(1) le] by (auto simp: s1_def split: prod.split)
  have fin: "cpu_inv p fresh c (s'\<lparr>cycles_remaining := cycles_remaining s' - r\<rparr>
      \<lparr>fault_bus_word_valid := False\<rparr>)" if "cpu_inv p ?w (lower (- r) c) s'" for s'
    using inv_bus_word(2) [where w = fresh and L = "{}", OF inv_refunded(2) [OF that order_refl]]
    by simp
  show ?thesis
    unfolding s1_def [symmetric] Let_def
    using s1 assms
    by (intro keeps_bind [OF refunded_write_keeps(2)])
       (auto split: option.split intro!: inv_set_ccr fin)
qed

lemma move_prepare_inv:
  assumes "cpu_inv p w c s"
  shows "cpu_inv p w (lower (- move_fault_refund sz dm al ri) c) (move_prepare sm ri dm al sz v pcs s)"
  using assms unfolding move_prepare_def Let_def
  by (auto intro!: inv_cycles inv_refunded(1) inv_set_ccr)

lemma move_to_memory_keeps:
  assumes "cpu_inv p fresh c s" and "bound_ok t c"
  shows "keeps (cpu_inv p fresh c) (jump_inv p (lower (- 8) c))
    (move_to_memory env sm sreg dm dr sz v a commit pcs s)"
  unfolding move_to_memory_def Let_def
  using assms
  by (intro keeps_if move_long_predec_keeps [unfolded Let_def] move_write_keeps [unfolded Let_def]
      move_prepare_inv) (simp_all add: move_fault_refund_le)

text \<open>MOVE is paid for by its destination when that is \<open>-(An)\<close>.\<close>

lemma move_keeps:
  assumes "cpu_inv p fresh c s" and "bound_ok t c" and size: "bits opcode 12 3 \<noteq> 0"
  shows "keeps (if bits opcode 6 7 = 4 then paid c else cpu_inv p quiet c)
    (jump_inv p (lower (- 8) c)) (m68k_exec_move env opcode s)"
proof -
  let ?m = "bits opcode 6 7"
  let ?E = "jump_inv p (lower (- 8) c)"
  define J where "J = (if ?m = 4 then paid c else cpu_inv p quiet c)"
  define d where "d = lower (if ?m = 4 then 6 else 0) c"
  have b: "bound_ok t d" using assms(2) by (simp add: d_def)
  obtain sz where sz: "move_size (bits opcode 12 3) = Some sz"
    using size bits_3_less [of opcode 12]
    by (cases "bits opcode 12 3 = 1"; cases "bits opcode 12 3 = 2"; simp add: move_size_def)
  have up: "?E s'" if "jump_inv p c s'" for s'
    using jump_inv_raise [of p 8 "lower (- 8) c"] that by simp
  have up': "?E s'" if "jump_inv p (lower (- 8) d) s'" for s'
    using jump_inv_raise [of p 6 "lower (- 8) c"] that by (auto simp: d_def split: if_splits)
  have J: "J s'" if "cpu_inv p fresh d s'" for s'
    using that inv_raise [of p fresh 2 "lower 4 c" s']
    by (auto simp: J_def d_def intro: paid_lower fresh_quiet)
  have exc: "keeps J ?E (m68k_exception env 4 s)"
    using paid_exception [OF assms(1,2), of 4] fresh_exception [OF assms(1,2), of 4]
    by (simp add: J_def)
  have src: "keeps (cpu_inv p fresh c) ?E (m68k_calc_ea env m r z s)" for m r z
    by (rule keeps_mono [OF calc_ea_keeps(1) [OF assms(1) latches_fresh assms(2)] _ up])
  have dest: "keeps (cpu_inv p fresh d) ?E (move_dest env ?m r z s')" if "cpu_inv p fresh c s'"
    for r z s'
    unfolding d_def by (rule keeps_mono [OF move_dest_keeps [OF that assms(2)] _ up])
  have mem: "keeps J ?E (move_to_memory env sm sreg dm dr z v a commit pcs s')"
    if "cpu_inv p fresh d s'" for sm sreg dm dr z v a commit pcs s'
    by (rule keeps_mono [OF move_to_memory_keeps [OF that b] J up'])
  show ?thesis
    unfolding m68k_exec_move_def Let_def sz J_def [symmetric] option.case
    by (auto split: prod.split intro!: exc keeps_if keeps_bind [OF src] keeps_bind [OF dest] mem J
        inv_set_ccr)
qed

lemma movem_body_keeps:
  assumes "cpu_inv p w c s" and bound: "bound_ok t c"
  shows "keeps (cpu_inv p w c) (jump_inv p c) (movem_load env m sz i a s)"
    and "keeps (cpu_inv p w c) (jump_inv p c) (movem_predec env m sz r ia i a s)"
    and "keeps (cpu_inv p w c) (jump_inv p c) (movem_store env m sz i a s)"
  using assms unfolding movem_load_def movem_predec_def movem_store_def Let_def
  by (auto intro!: keeps_andthen read_keeps write_keeps st inv_cycles)

lemma movem_loop_keeps:
  assumes "cpu_inv p w c s" and bound: "bound_ok t c"
  shows "keeps (cpu_inv p w c) (jump_inv p c) (for_upto n i (movem_load env m sz) a s)"
    and "keeps (cpu_inv p w c) (jump_inv p c) (for_upto n i (movem_predec env m sz r ia) a s)"
    and "keeps (cpu_inv p w c) (jump_inv p c) (for_upto n i (movem_store env m sz) a s)"
  by (rule keeps_for_upto [where I = "cpu_inv p w c", OF assms(1)], erule movem_body_keeps [OF _ bound])+

text \<open>The transfers start with at least 8 cycles paid.\<close>

lemma movem_transfer_keeps:
  assumes "cpu_inv p fresh (lower 8 c) s" and bound: "bound_ok t c"
  shows "keeps (paid c) (jump_inv p c)
    (andthen (for_upto 16 0 (movem_load env m sz) a
        (if q then s\<lparr>operand_program_space := True\<rparr> else s)) (\<lambda>addr s.
      let s = s\<lparr>operand_program_space := False\<rparr>; s = spend 4 s
      in Ret () (if q' then set_a r addr s else s)))"
    and "keeps (paid c) (jump_inv p c)
    (andthen (for_upto 16 0 (movem_predec env m sz r ia) a s) (\<lambda>addr s. Ret () (set_a r addr s)))"
    and "keeps (paid c) (jump_inv p c)
    (andthen (for_upto 16 0 (movem_store env m sz) a s) (\<lambda>addr s. Ret () s))"
proof -
  let ?w = "fresh\<lparr>latches := {Program_space}\<rparr>"
  have b: "bound_ok t (lower 8 c)" using bound by simp
  have pd: "paid c s'" if "cpu_inv p fresh (lower 8 c) s'" for s'
    using inv_raise [of p fresh 4 "lower 4 c" s'] that by (auto intro: paid_lower)
  note up = jump_inv_raise [where n = 8 and c = c and p = p]
  have "cpu_inv p ?w (lower 8 c) (if q then s\<lparr>operand_program_space := True\<rparr> else s)"
    using inv_program_space(1) [OF assms(1)] inv_weaken [OF assms(1), of ?w]
    by (simp add: perm_le_def fresh_def)
  note l = movem_loop_keeps(1) [OF this b]
  have fin: "paid c (s'\<lparr>operand_program_space := False, cycles_remaining := cycles_remaining s' - 4\<rparr>)"
    if "cpu_inv p ?w (lower 8 c) s'" for s'
    using inv_program_space(2) [where w = fresh and L = "{}" and c = "lower 8 c" and s = s'] that
    by (auto intro!: pd inv_cycles)
  show "keeps (paid c) (jump_inv p c)
    (andthen (for_upto 16 0 (movem_load env m sz) a
        (if q then s\<lparr>operand_program_space := True\<rparr> else s)) (\<lambda>addr s.
      let s = s\<lparr>operand_program_space := False\<rparr>; s = spend 4 s
      in Ret () (if q' then set_a r addr s else s)))"
    by (rule keeps_bind [OF keeps_mono [OF l _ up]], assumption, assumption, simp)
       (use fin in \<open>auto simp: Let_def\<close>)
  show "keeps (paid c) (jump_inv p c)
    (andthen (for_upto 16 0 (movem_predec env m sz r ia) a s) (\<lambda>addr s. Ret () (set_a r addr s)))"
    by (rule keeps_bind [OF keeps_mono [OF movem_loop_keeps(2) [OF assms(1) b] _ up]],
        assumption, assumption, simp) (use pd in auto)
  show "keeps (paid c) (jump_inv p c)
    (andthen (for_upto 16 0 (movem_store env m sz) a s) (\<lambda>addr s. Ret () s))"
    by (rule keeps_bind [OF keeps_mono [OF movem_loop_keeps(3) [OF assms(1) b] _ up]],
        assumption, assumption, simp) (use pd in auto)
qed

lemma movem_keeps:
  assumes "cpu_inv p fresh c s" and "bound_ok t c"
  shows "keeps (paid c) (jump_inv p c) (m68k_exec_movem env opcode s)"
proof -
  let ?m2r = "opcode AND 0x0400 \<noteq> 0"
  let ?m = "bits opcode 3 7" let ?r = "bits opcode 0 7"
  have start: "cpu_inv p fresh (lower 8 c)
      (let s = spend (m68k_movem_ea_cycles ?m ?r ?m2r) s;
           s = (if ?m2r then s\<lparr>cycles_remaining := cycles_remaining s + 4\<rparr> else s);
           s = s\<lparr>fault_pc := pc s + 2\<rparr>
       in s\<lparr>fault_pc_valid := True\<rparr>)"
    if "cpu_inv p fresh c s" "\<not> movem_invalid ?m2r ?m ?r" for s
    using movem_cycles_ge [OF that(2) bits_7_le] inv_spend_ge [OF that(1), of 8 "m68k_movem_ea_cycles ?m ?r ?m2r"]
      inv_spend_ge [OF that(1), of 8 "m68k_movem_ea_cycles ?m ?r ?m2r - 4"]
    by (auto simp: Let_def algebra_simps split: if_splits)
  have pre: "keeps (cpu_inv p fresh c) (jump_inv p c)
      (if (?m = 4 \<and> \<not> ?m2r) \<or> ?m = 3 then Ret (a_regs s ?r) s
       else andthen (m68k_calc_ea_addr_nocost env ?m ?r sz s) (\<lambda>ea s. Ret (address ea) s))"
    if "cpu_inv p fresh c s" for s sz
    using that assms(2) by (auto intro!: keeps_andthen calc_ea_keeps)
  show ?thesis
    unfolding m68k_exec_movem_def
    using assms
    by (simp only: Let_def)
       (intro keeps_if paid_exception keeps_bind_fresh fetch_keeps pre
        movem_transfer_keeps [unfolded Let_def] start [unfolded Let_def] st; simp)
qed

end

subsection \<open>Exchanges\<close>

lemma swap_halves:
  "ucast (push_bit 16 v OR drop_bit 16 v :: u32) = (ucast (drop_bit 16 v) :: u16)"
  "ucast (drop_bit 16 (push_bit 16 v :: u32)) = (ucast v :: u16)"
  "push_bit 16 (drop_bit 16 v) OR drop_bit 16 (push_bit 16 v) = (v :: u32)"
proof -
  show "ucast (push_bit 16 v OR drop_bit 16 v :: u32) = (ucast (drop_bit 16 v) :: u16)"
    "ucast (drop_bit 16 (push_bit 16 v :: u32)) = (ucast v :: u16)"
    by (rule bit_word_eqI, auto simp: bit_simps dest: bit_imp_le_length)+
  show "push_bit 16 (drop_bit 16 v) OR drop_bit 16 (push_bit 16 v) = v"
    by (rule bit_word_eqI) (auto simp: bit_simps dest: bit_imp_le_length)
qed

text \<open>C34: SWAP exchanges the halves of a data register and sets N and Z from the result; EXG exchanges
  two data registers (opmode 8), two address registers (opmode 9) or a data and an address
  register (opmode 17) and leaves every other register and the status register alone; and either
  one done twice gives every register back.\<close>

theorem exchange_involutive:
  assumes "r = bits opcode 0 7" and "q = bits opcode 9 7"
  shows "(\<exists>s1 s2. m68k_exec_swap env opcode s = Ret () s1 \<and> m68k_exec_swap env opcode s1 = Ret () s2 \<and>
      ucast (d_regs s1 r) = (ucast (drop_bit 16 (d_regs s r)) :: u16) \<and>
      ucast (drop_bit 16 (d_regs s1 r)) = (ucast (d_regs s r) :: u16) \<and>
      sr_flag M68K_SR_N s1 = (sint (d_regs s1 r) < 0) \<and> sr_flag M68K_SR_Z s1 = (d_regs s1 r = 0) \<and>
      d_regs s2 = d_regs s \<and> a_regs s2 = a_regs s \<and> pc s2 = pc s) \<and>
    (\<exists>s1 s2. m68k_exec_exg env opcode s = Ret () s1 \<and> m68k_exec_exg env opcode s1 = Ret () s2 \<and>
      (bits opcode 3 0x1F = 0x08 \<longrightarrow>
         d_regs s1 = (d_regs s)(q := d_regs s r, r := d_regs s q) \<and> a_regs s1 = a_regs s) \<and>
      (bits opcode 3 0x1F = 0x09 \<longrightarrow>
         a_regs s1 = (a_regs s)(q := a_regs s r, r := a_regs s q) \<and> d_regs s1 = d_regs s) \<and>
      (bits opcode 3 0x1F = 0x11 \<longrightarrow>
         d_regs s1 = (d_regs s)(q := a_regs s r) \<and> a_regs s1 = (a_regs s)(r := d_regs s q)) \<and>
      sr s1 = sr s \<and> s2 = s)"
proof (rule conjI)
  show "\<exists>s1 s2. m68k_exec_swap env opcode s = Ret () s1 \<and> m68k_exec_swap env opcode s1 = Ret () s2 \<and>
      ucast (d_regs s1 r) = (ucast (drop_bit 16 (d_regs s r)) :: u16) \<and>
      ucast (drop_bit 16 (d_regs s1 r)) = (ucast (d_regs s r) :: u16) \<and>
      sr_flag M68K_SR_N s1 = (sint (d_regs s1 r) < 0) \<and> sr_flag M68K_SR_Z s1 = (d_regs s1 r = 0) \<and>
      d_regs s2 = d_regs s \<and> a_regs s2 = a_regs s \<and> pc s2 = pc s"
    using assms
    by (simp add: m68k_exec_swap_def Let_def swap_halves update_flags_logic_bits sval_def uval_def uint_0_iff)
  have "m68k_exec_exg env opcode s = Ret () s1 \<Longrightarrow> m68k_exec_exg env opcode s1 = Ret () s" for s1
    by (auto simp: m68k_exec_exg_def Let_def split: if_splits)
  moreover have "\<exists>s1. m68k_exec_exg env opcode s = Ret () s1 \<and> sr s1 = sr s \<and>
      (bits opcode 3 0x1F = 0x08 \<longrightarrow>
         d_regs s1 = (d_regs s)(q := d_regs s r, r := d_regs s q) \<and> a_regs s1 = a_regs s) \<and>
      (bits opcode 3 0x1F = 0x09 \<longrightarrow>
         a_regs s1 = (a_regs s)(q := a_regs s r, r := a_regs s q) \<and> d_regs s1 = d_regs s) \<and>
      (bits opcode 3 0x1F = 0x11 \<longrightarrow>
         d_regs s1 = (d_regs s)(q := a_regs s r) \<and> a_regs s1 = (a_regs s)(r := d_regs s q))"
    using assms by (auto simp: m68k_exec_exg_def Let_def)
  ultimately show "\<exists>s1 s2. m68k_exec_exg env opcode s = Ret () s1 \<and> m68k_exec_exg env opcode s1 = Ret () s2 \<and>
      (bits opcode 3 0x1F = 0x08 \<longrightarrow>
         d_regs s1 = (d_regs s)(q := d_regs s r, r := d_regs s q) \<and> a_regs s1 = a_regs s) \<and>
      (bits opcode 3 0x1F = 0x09 \<longrightarrow>
         a_regs s1 = (a_regs s)(q := a_regs s r, r := a_regs s q) \<and> d_regs s1 = d_regs s) \<and>
      (bits opcode 3 0x1F = 0x11 \<longrightarrow>
         d_regs s1 = (d_regs s)(q := a_regs s r) \<and> a_regs s1 = (a_regs s)(r := d_regs s q)) \<and>
      sr s1 = sr s \<and> s2 = s"
    by blast
qed

lemma exchange_involutive_witness:
  "\<exists>s1 s2. m68k_exec_swap no_callbacks 0x4841 (set_d 1 0x12345678 trap_state) = Ret () s1 \<and>
     m68k_exec_swap no_callbacks 0x4841 s1 = Ret () s2 \<and> ucast (d_regs s1 1) = (0x1234 :: u16)"
  using exchange_involutive [of 1 "0x4841" _ no_callbacks "set_d 1 0x12345678 trap_state"]
  by (auto simp: bits_def)

subsection \<open>Stack frames\<close>

text \<open>C35: LINK and UNLK are inverse: after LINK An, for any An but the stack pointer, the register
  points at its saved value and the stack pointer is the displacement away from it; whatever
  happens to the stack pointer in between, UNLK An then restores both registers; no other
  register, no byte outside the saved long word and no flag changes. (Plain bus, even stack
  pointer, the extension word and the saved long word in bound memory.)\<close>

theorem link_unlk_roundtrip:
  assumes "plain_bus env" and r: "bits opcode 0 7 = r" "bits opcode' 0 7 = r" "r \<noteq> 7"
    and "even (pc s)" "in_ram s (pc s) 2"
    and "even (a_regs s 7)" and "in_ram s (a_regs s 7 - 4) 4"
    and d: "d = sext16 (get16 (ram s) (mask_address_24 (pc s)))"
  shows "\<exists>s1. m68k_exec_link env opcode s = Ret () s1 \<and>
    a_regs s1 r = a_regs s 7 - 4 \<and> a_regs s1 7 = a_regs s 7 - 4 + d \<and>
    (\<forall>x. x \<notin> span (mask_address_24 (a_regs s 7 - 4)) 4 \<longrightarrow> ram s1 x = ram s x) \<and>
    (\<exists>s2. m68k_exec_unlk env opcode' (set_a 7 sp s1) = Ret () s2 \<and>
      a_regs s2 = a_regs s \<and> d_regs s2 = d_regs s \<and> sr s2 = sr s \<and> pc s2 = pc s + 2)"
  using assms
  by (simp add: m68k_exec_link_def m68k_exec_unlk_def fetch_plain m68k_push_32_def push_plain Let_def
      m68k_read_32_def plain_accesses even_word be32.put_outside in_ram_def fun_upd_twist)

lemma link_unlk_roundtrip_witness:
  "\<exists>s1. m68k_exec_link no_callbacks 0x4E56 trap_state = Ret () s1 \<and> a_regs s1 6 = 0x7FC \<and>
     (\<exists>s2. m68k_exec_unlk no_callbacks 0x4E5E (set_a 7 0x100 s1) = Ret () s2 \<and> a_regs s2 = a_regs trap_state)"
proof -
  have "in_ram trap_state (pc trap_state) 2" "in_ram trap_state (a_regs trap_state 7 - 4) 4"
    by (simp_all add: in_trap_state)
  from link_unlk_roundtrip [OF plain_bus_no_callbacks _ _ _ _ this(1) _ this(2) refl,
      where opcode = "0x4E56" and opcode' = "0x4E5E" and r = 6 and sp = "0x100"]
  show ?thesis by (auto simp: bits_def)
qed

end
