(* ===== verification/M68k_Control.thy ===== *)
theory M68k_Control
  imports M68k_Logic
begin

section \<open>Control flow and privileged instructions\<close>

text \<open>
  The handlers of \<open>src/m68k/ops_control.c\<close> (its condition test is in M68k_Flags):
  Bcc, BRA and BSR, DBcc, Scc, JMP and JSR, RTS, TRAP, RTE, CHK, TRAPV, RTR, STOP, RESET,
  MOVEC, RTD and BKPT. The theorems: RTE undoes an exception, RTS a JSR, a write to the
  status register implements two stack pointers, and DBcc counts.
\<close>

subsection \<open>Branches\<close>

definition m68k_exec_bcc :: "'h host_callbacks \<Rightarrow> u16 \<Rightarrow> 'h cpu \<Rightarrow> ('h, unit) out" where
  "m68k_exec_bcc env opcode s =
     (let cond = bits opcode 8 0xF;
          is_word = (opcode AND 0xFF = 0)
      in andthen (if is_word then andthen (m68k_fetch env s) (\<lambda>w s. Ret (sext16 w) s)
                  else Ret (sext8 (opcode AND 0xFF)) s) (\<lambda>disp s.
      if cond = 1
      then (let target = (if is_word then (pc s - 2) + disp else pc s + disp)
            in andthen (m68k_push_32 env (pc s) s) (\<lambda>_ s.
               if target AND 1 \<noteq> 0
               then andthen (m68k_raise_odd_target_fault env target target s) (\<lambda>_ s.
                    Ret () (spend 18 s))
               else if m68k_is_unmapped_target env target s
               then andthen (m68k_raise_bus_target_fault env target target s) (\<lambda>_ s.
                    Ret () (spend 18 s))
               else (let s = m68k_set_pc env target s in Ret () (spend 18 s))))
      else if m68k_check_condition cond s
      then (let target = (if is_word then (pc s - 2) + disp else pc s + disp)
            in if m68k_is_unmapped_target env target s \<and> target AND 1 = 0
               then andthen (m68k_raise_bus_target_fault env target (ppc s + 2) s) (\<lambda>_ s.
                    Ret () (spend 10 s))
               else (let s = m68k_set_pc env target s in Ret () (spend 10 s)))
      else Ret () (spend (if is_word then 12 else 8) s)))"

definition m68k_exec_dbcc :: "'h host_callbacks \<Rightarrow> u16 \<Rightarrow> 'h cpu \<Rightarrow> ('h, unit) out" where
  "m68k_exec_dbcc env opcode s =
     (let condition = bits opcode 8 0xF;
          reg = bits opcode 0 0x7
      in andthen (m68k_fetch env s) (\<lambda>w s.
      let displacement = sext16 w
      in if m68k_check_condition condition s then Ret () (spend 12 s)
      else (let val = (ucast (d_regs s reg AND 0xFFFF) :: u16);
                val = val - 1
            in if val \<noteq> 0xFFFF
               then (let target = (pc s - 2) + displacement
                     in if target AND 1 \<noteq> 0
                        then m68k_raise_odd_target_fault env target (pc s) (spend 10 s)
                        else if m68k_is_unmapped_target env target s
                        then m68k_raise_bus_target_fault env target (pc s) (spend 10 s)
                        else (let s = set_d reg ((d_regs s reg AND 0xFFFF0000) OR ucast val) s;
                                  s = spend 10 s
                              in Ret () (m68k_set_pc env target s)))
               else (let s = set_d reg ((d_regs s reg AND 0xFFFF0000) OR ucast val) s
                     in Ret () (spend 14 s)))))"

definition m68k_exec_scc :: "'h host_callbacks \<Rightarrow> u16 \<Rightarrow> 'h cpu \<Rightarrow> ('h, unit) out" where
  "m68k_exec_scc env opcode s =
     (let condition = bits opcode 8 0xF;
          mode = bits opcode 3 0x7;
          reg = bits opcode 0 0x7
      in if not_data_alterable mode reg then m68k_exception env 4 s
      else (let result = m68k_check_condition condition s;
                val = (if result then 0xFF else 0x00 :: u8)
            in andthen (m68k_calc_ea_addr env mode reg SIZE_BYTE s) (\<lambda>ea s.
               if is_reg ea \<and> \<not> is_addr ea
               then (let s = set_d (reg_num ea)
                               ((d_regs s (reg_num ea) AND 0xFFFFFF00) OR ucast val) s
                     in Ret () (spend (if result then 6 else 4) s))
               else andthen (m68k_write_8 env (address ea) val s) (\<lambda>_ s.
                    Ret () (spend 8 s)))))"

definition m68k_exec_jmp :: "'h host_callbacks \<Rightarrow> u16 \<Rightarrow> 'h cpu \<Rightarrow> ('h, unit) out" where
  "m68k_exec_jmp env opcode s =
     (let mode = bits opcode 3 0x7;
          reg = bits opcode 0 0x7;
          is_jsr = (bits opcode 6 1 = 0)
      in andthen (m68k_calc_ea_ctl env mode reg True s) (\<lambda>ea s.
      if is_jsr
      then (if address ea AND 1 \<noteq> 0
            then m68k_raise_odd_target_fault env (address ea) (pc s) s
            else if m68k_is_unmapped_target env (address ea) s
            then m68k_raise_bus_target_fault env (address ea) (pc s) s
            else andthen (m68k_push_32 env (pc s) s) (\<lambda>_ s.
                 Ret () (m68k_set_pc env (address ea) s)))
      else if address ea AND 1 = 0 \<and> m68k_is_unmapped_target env (address ea) s
      then m68k_raise_bus_target_fault env (address ea) (ppc s + 2) s
      else Ret () (m68k_set_pc env (address ea) s)))"

subsection \<open>Returns\<close>

definition m68k_exec_rts :: "'h host_callbacks \<Rightarrow> u16 \<Rightarrow> 'h cpu \<Rightarrow> ('h, unit) out" where
  "m68k_exec_rts env opcode s =
     andthen (m68k_pop_32 env s) (\<lambda>v s. Ret () (m68k_set_pc env v s))"

definition m68k_exec_rte :: "'h host_callbacks \<Rightarrow> u16 \<Rightarrow> 'h cpu \<Rightarrow> ('h, unit) out" where
  "m68k_exec_rte env opcode s =
     (if \<not> sr_flag M68K_SR_S s then privilege_violation env s
      else if model s \<ge> M68K_MODEL_68010
      then (let sp = a_regs s 7
            in andthen (m68k_read_16 env (sp + 6) s) (\<lambda>fmt s.
               if fmt AND 0xF000 \<noteq> 0
               then (let s = s\<lparr>pc := pc s - 2\<rparr> in m68k_exception env 14 s)
               else andthen (m68k_read_16 env sp s) (\<lambda>new_sr s.
                    andthen (m68k_read_32 env (sp + 2) s) (\<lambda>new_pc s.
                    let s = set_a 7 (sp + 8) s;
                        s = m68k_set_sr new_sr s
                    in Ret () (m68k_set_pc env new_pc s)))))
      else andthen (m68k_pop_16 env s) (\<lambda>new_sr s.
           andthen (m68k_pop_32 env s) (\<lambda>new_pc s.
           let s = m68k_set_sr new_sr s
           in Ret () (m68k_set_pc env new_pc s))))"

definition m68k_exec_rtr :: "'h host_callbacks \<Rightarrow> u16 \<Rightarrow> 'h cpu \<Rightarrow> ('h, unit) out" where
  "m68k_exec_rtr env opcode s =
     andthen (m68k_pop_16 env s) (\<lambda>ccr s.
     andthen (m68k_pop_32 env s) (\<lambda>return_pc s.
     let s = s\<lparr>sr := (sr s AND 0xFF00) OR (ccr AND 0x1F)\<rparr>
     in Ret () (m68k_set_pc env return_pc s)))"

definition m68k_exec_rtd :: "'h host_callbacks \<Rightarrow> u16 \<Rightarrow> 'h cpu \<Rightarrow> ('h, unit) out" where
  "m68k_exec_rtd env opcode s =
     andthen (m68k_pop_32 env s) (\<lambda>ret_addr s.
     andthen (m68k_fetch env s) (\<lambda>w s.
     let disp = sext16 w;
         s = set_a 7 (a_regs s 7 + disp) s
     in Ret () (m68k_set_pc env ret_addr s)))"

subsection \<open>Traps\<close>

definition m68k_exec_trap :: "'h host_callbacks \<Rightarrow> u16 \<Rightarrow> 'h cpu \<Rightarrow> ('h, unit) out" where
  "m68k_exec_trap env opcode s =
     (let vector = 32 + int (bits opcode 0 0xF) in m68k_exception env vector s)"

definition m68k_exec_chk :: "'h host_callbacks \<Rightarrow> u16 \<Rightarrow> 'h cpu \<Rightarrow> ('h, unit) out" where
  "m68k_exec_chk env opcode s =
     (let reg_idx = bits opcode 9 0x7;
          mode = bits opcode 3 0x7;
          reg = bits opcode 0 0x7
      in if not_data_source mode reg then m68k_exception env 4 s
      else andthen (m68k_calc_ea env mode reg SIZE_WORD s) (\<lambda>ea s.
        let src_w = (ucast (d_regs s reg_idx AND 0xFFFF) :: u16);
            bound_w = (ucast (ea_value ea) :: u16);
            src = sint src_w;
            bound = sint bound_w;
            s = sr_clear (M68K_SR_N OR M68K_SR_Z OR M68K_SR_V OR M68K_SR_C) s;
            s = sr_set_if (src < 0) M68K_SR_N s
        in if src \<ge> 0 \<and> src \<le> bound then Ret () s
           else (let rdiff = bound_w - src_w;
                     trap_cost = (if src > bound then 38
                                  else if rdiff AND 0x8000 \<noteq> 0 then 38 else 40);
                     s = spend trap_cost s
                 in m68k_exception env 6 s)))"

definition m68k_exec_trapv :: "'h host_callbacks \<Rightarrow> u16 \<Rightarrow> 'h cpu \<Rightarrow> ('h, unit) out" where
  "m68k_exec_trapv env opcode s =
     (if sr_flag M68K_SR_V s then m68k_exception env 7 s else Ret () s)"

definition m68k_exec_bkpt :: "'h host_callbacks \<Rightarrow> u16 \<Rightarrow> 'h cpu \<Rightarrow> ('h, unit) out" where
  "m68k_exec_bkpt env opcode s = m68k_exception env 4 s"

subsection \<open>STOP, RESET and MOVEC\<close>

definition m68k_exec_stop :: "'h host_callbacks \<Rightarrow> u16 \<Rightarrow> 'h cpu \<Rightarrow> ('h, unit) out" where
  "m68k_exec_stop env opcode s =
     (if \<not> sr_flag M68K_SR_S s then privilege_violation env s
      else andthen (m68k_fetch env s) (\<lambda>imm s.
           let s = m68k_set_sr imm s in Ret () (s\<lparr>stopped := True\<rparr>)))"

definition m68k_exec_reset :: "'h host_callbacks \<Rightarrow> u16 \<Rightarrow> 'h cpu \<Rightarrow> ('h, unit) out" where
  "m68k_exec_reset env opcode s =
     (if \<not> sr_flag M68K_SR_S s then privilege_violation env s
      else Ret () (case reset_cb env of None \<Rightarrow> s | Some cb \<Rightarrow> cb s))"

definition m68k_exec_movec :: "'h host_callbacks \<Rightarrow> u16 \<Rightarrow> 'h cpu \<Rightarrow> ('h, unit) out" where
  "m68k_exec_movec env opcode s =
     (if \<not> sr_flag M68K_SR_S s then privilege_violation env s
      else andthen (m68k_fetch env s) (\<lambda>ext s.
      let is_a = (bits ext 15 1 \<noteq> 0);
          rnum = bits ext 12 0x7;
          ctrl_reg = ext AND 0xFFF;
          gpr = (if is_a then a_regs s rnum else d_regs s rnum);
          set_gpr = (\<lambda>v. if is_a then set_a rnum v s else set_d rnum v s);
          to_ctrl = (opcode AND 1 \<noteq> 0)
      in if ctrl_reg \<noteq> 0x000 \<and> ctrl_reg \<noteq> 0x001 \<and> ctrl_reg \<noteq> 0x800 \<and> ctrl_reg \<noteq> 0x801
      then m68k_exception env 4 s
      else if to_ctrl
      then Ret () (if ctrl_reg = 0x000 then s\<lparr>sfc := gpr\<rparr>
                   else if ctrl_reg = 0x001 then s\<lparr>dfc := gpr\<rparr>
                   else if ctrl_reg = 0x800 then s\<lparr>usp := gpr\<rparr>
                   else s\<lparr>vbr := gpr\<rparr>)
      else Ret () (set_gpr (if ctrl_reg = 0x000 then sfc s
                            else if ctrl_reg = 0x001 then dfc s
                            else if ctrl_reg = 0x800 then usp s
                            else vbr s))))"

subsection \<open>Safety\<close>

context instruction begin

lemmas control_intros = handler_intros privilege_violation_keeps inv_set_sr
  inv_set_pc [OF callbacks_ok]

lemma rts_keeps:
  assumes "cpu_inv p fresh c s" and "bound_ok t c"
  shows "keeps (cpu_inv p quiet c) (jump_inv p c) (m68k_exec_rts env opcode s)"
  using assms unfolding m68k_exec_rts_def Let_def
  by (auto intro!: control_intros)

lemma rte_keeps:
  assumes "cpu_inv p fresh c s" and "bound_ok t c"
  shows "keeps (cpu_inv p quiet c) (jump_inv p c) (m68k_exec_rte env opcode s)"
  using assms unfolding m68k_exec_rte_def Let_def
  by (auto intro!: control_intros)

lemma rtr_keeps:
  assumes "cpu_inv p fresh c s" and "bound_ok t c"
  shows "keeps (cpu_inv p quiet c) (jump_inv p c) (m68k_exec_rtr env opcode s)"
  using assms unfolding m68k_exec_rtr_def Let_def
  by (auto intro!: control_intros)

lemma rtd_keeps:
  assumes "cpu_inv p fresh c s" and "bound_ok t c"
  shows "keeps (cpu_inv p quiet c) (jump_inv p c) (m68k_exec_rtd env opcode s)"
  using assms unfolding m68k_exec_rtd_def Let_def
  by (auto intro!: control_intros)

lemma trap_keeps:
  assumes "cpu_inv p fresh c s" and "bound_ok t c"
  shows "keeps (cpu_inv p quiet c) (jump_inv p c) (m68k_exec_trap env opcode s)"
  using assms unfolding m68k_exec_trap_def Let_def
  by (auto intro!: control_intros)

lemma trapv_keeps:
  assumes "cpu_inv p fresh c s" and "bound_ok t c"
  shows "keeps (cpu_inv p quiet c) (jump_inv p c) (m68k_exec_trapv env opcode s)"
  using assms unfolding m68k_exec_trapv_def Let_def
  by (auto intro!: control_intros)

lemma bkpt_keeps:
  assumes "cpu_inv p fresh c s" and "bound_ok t c"
  shows "keeps (cpu_inv p quiet c) (jump_inv p c) (m68k_exec_bkpt env opcode s)"
  using assms unfolding m68k_exec_bkpt_def Let_def
  by (auto intro!: control_intros)

lemma stop_keeps:
  assumes "cpu_inv p fresh c s" and "bound_ok t c"
  shows "keeps (cpu_inv p quiet c) (jump_inv p c) (m68k_exec_stop env opcode s)"
  using assms unfolding m68k_exec_stop_def Let_def
  by (auto intro!: control_intros)

lemma movec_keeps:
  assumes "cpu_inv p fresh c s" and "bound_ok t c"
  shows "keeps (cpu_inv p quiet c) (jump_inv p c) (m68k_exec_movec env opcode s)"
  using assms unfolding m68k_exec_movec_def Let_def
  by (auto intro!: control_intros)

lemma reset_keeps:
  assumes "cpu_inv p fresh c s" and "bound_ok t c"
  shows "keeps (cpu_inv p quiet c) (jump_inv p c) (m68k_exec_reset env opcode s)"
  using assms host_inv(6) [OF callbacks_ok assms] unfolding m68k_exec_reset_def
  by (auto split: option.split intro!: control_intros)

text \<open>CHK charges the 38 or 40 cycles of its trap itself.\<close>

lemma chk_keeps:
  assumes "cpu_inv p fresh c s" and "bound_ok t c"
  shows "keeps (\<lambda>s. cpu_inv p quiet c s \<or> cpu_inv p calm (lower 4 c) s) (jump_inv p c)
    (m68k_exec_chk env opcode s)"
proof -
  let ?J = "\<lambda>s. cpu_inv p quiet c s \<or> cpu_inv p calm (lower 4 c) s"
  have j: "keeps (cpu_inv p quiet c) E r \<Longrightarrow> keeps ?J E r" for E and r :: "('a, unit) out"
    by (erule keeps_mono) auto
  have chk: "keeps ?J E (m68k_exception env 6 (spend n s'))"
    if "cpu_inv p fresh c s'" "4 \<le> n" for E n s'
  proof -
    have "perm_le (after env 6 fresh) calm"
      by (simp add: perm_le_def after_def fresh_def calm_def record_vector_def)
    then have "keeps (cpu_inv p calm (lower 4 c)) E (m68k_exception env 6 (spend n s'))"
      using inv_spend_ge [OF that] assms(2) by (intro exception_keeps) auto
    then show ?thesis by (rule keeps_mono) auto
  qed
  show ?thesis
    unfolding m68k_exec_chk_def Let_def
    using assms
    by (intro keeps_if j [OF fresh_exception] keeps_bind_fresh calc_ea_keeps chk)
       (auto intro!: handler_intros)
qed

lemmas branch_intros = target_fault_paid paid_set_pc paid_spend
  keeps_bind_fresh [OF fetch_keeps] keeps_bind_fresh [OF stack_keeps(1)]
  keeps_bind_fresh [OF calc_ea_keeps(2)] keeps_bind_fresh [OF write_keeps(1)]
  inv_set_pc [OF callbacks_ok] st inv_cycles

lemma bcc_keeps:
  assumes "cpu_inv p fresh c s" and "bound_ok t c"
  shows "keeps (paid c) (jump_inv p c) (m68k_exec_bcc env opcode s)"
proof -
  have d: "keeps (cpu_inv p fresh c) (jump_inv p c)
      (if w then andthen (m68k_fetch env s) (\<lambda>w s. Ret (sext16 w) s) else Ret x s)" for w x
    using assms by (auto intro!: branch_intros)
  show ?thesis
    unfolding m68k_exec_bcc_def Let_def
    by (rule keeps_bind [OF d]) (use assms in \<open>auto intro!: branch_intros\<close>)
qed

lemma dbcc_keeps:
  assumes "cpu_inv p fresh c s" and "bound_ok t c"
  shows "keeps (paid c) (jump_inv p c) (m68k_exec_dbcc env opcode s)"
  using assms unfolding m68k_exec_dbcc_def Let_def by (auto intro!: branch_intros)

lemma scc_keeps:
  assumes "cpu_inv p fresh c s" and "bound_ok t c"
  shows "keeps (paid c) (jump_inv p c) (m68k_exec_scc env opcode s)"
  using assms unfolding m68k_exec_scc_def Let_def by (auto intro!: branch_intros paid_exception)

lemma jmp_keeps:
  assumes "cpu_inv p fresh c s" and "bound_ok t c"
  shows "keeps (paid c) (jump_inv p c) (m68k_exec_jmp env opcode s)"
proof -
  have b: "bound_ok t (lower 4 c)" using assms(2) by simp
  have pd: "paid c s'" if "paid (lower 4 c) s'" for s'
    using paid_quiet [OF that] by (rule paid_quiet_lower)
  have tf: "keeps (paid c) (jump_inv p c) (m68k_raise_odd_target_fault env a f s')"
    "keeps (paid c) (jump_inv p c) (m68k_raise_bus_target_fault env a f s')"
    if "cpu_inv p fresh (lower 4 c) s'" for a f s'
    by (rule keeps_mono [OF target_fault_paid(1) [OF that b]] keeps_mono [OF target_fault_paid(2) [OF that b]];
        simp add: pd)+
  have push: "keeps (cpu_inv p fresh (lower 4 c)) (jump_inv p c) (m68k_push_32 env a s')"
    if "cpu_inv p fresh (lower 4 c) s'" for a s'
    by (rule keeps_jump [OF stack_keeps(1) [OF that b st]]) simp
  have sp: "paid c (m68k_set_pc env a s')" if "cpu_inv p fresh (lower 4 c) s'" for a s'
    using inv_set_pc [OF callbacks_ok b that] by (rule paid_lower)
  show ?thesis
    unfolding m68k_exec_jmp_def Let_def
    by (rule keeps_bind [OF calc_ea_ctl_keeps [OF assms(1) latches_fresh assms(2) bits_7_le]])
       (auto intro!: tf keeps_bind [OF push] sp)
qed

end

lemma sr_ok_mask: "sr_ok w \<Longrightarrow> w AND 0xA71F = w"
proof -
  assume "sr_ok w"
  then have "w AND NOT 0xA71F = 0" by (simp add: sr_ok_def)
  moreover have "w = (w AND 0xA71F) OR (w AND NOT 0xA71F)"
    by (rule bit_word_eqI) (auto simp: bit_simps)
  ultimately show ?thesis by (metis or.right_neutral)
qed

lemma in_ram_state:
  "in_ram s a n \<Longrightarrow> memory s' \<noteq> None \<Longrightarrow> memory_size s' = memory_size s \<Longrightarrow> in_ram s' a n"
  by (simp add: in_ram_def)

text \<open>RTE on a supervisor stack that holds a six-byte frame.\<close>

lemma rte_plain:
  assumes "plain_bus env" and "pc_changed_cb env = None" and "model s = M68K_MODEL_68000"
    and "sr s AND M68K_SR_S \<noteq> 0" and "even (a_regs s 7)" and "in_ram s (a_regs s 7) 6"
    and "get16 (ram s) (mask_address_24 (a_regs s 7)) = w" and "sr_ok w"
    and "get32 (ram s) (mask_address_24 (a_regs s 7 + 2)) = v"
  shows "m68k_exec_rte env opcode s = Ret ()
    ((m68k_set_sr w (set_a 7 (a_regs s 7 + 6) s))\<lparr>pc := v\<rparr>)"
proof -
  have "in_ram s (a_regs s 7) 2" "in_ram s (a_regs s 7 + 2) 4"
    using in_ram_less [OF assms(6), of 2] in_ram_add [OF assms(6), of 2 4] by simp_all
  then show ?thesis
    using assms by (simp add: m68k_exec_rte_def sr_flag_def pop_plain m68k_set_pc_def add.commute)
qed

text \<open>C5: On a 68000, an exception with the six-byte frame followed by RTE is transparent: the program
  resumes at the pushed program counter with the status register, all data and address registers
  (the stack pointer of its mode included) and the supervisor stack pointer it had, from user
  and from supervisor mode. The six-byte frame is that of every vector but bus and address error
  (2 and 3), whose longer frame RTE does not undo; the 68010, which adds a format word, is not
  covered. The host has no bus, function-code or program-counter callbacks and does not claim
  illegal instructions; the supervisor stack pointer is even, and the frame and the vector lie in
  bound memory.\<close>

theorem exception_rte_roundtrip:
  assumes "plain_bus env" and "pc_changed_cb env = None" and "model s = M68K_MODEL_68000"
    and "v \<noteq> 2" "v \<noteq> 3" and "v = 4 \<longrightarrow> illg_cb env = None"
    and "even (entry_sp s)" and "in_ram s (entry_sp s - 6) 6"
    and "even (vbr s)" and "in_ram s (vbr s + word_of_int v * 4) 4" and "sr_ok (sr s)"
  shows "\<exists>s'. andthen (m68k_exception env v s) (\<lambda>_. m68k_exec_rte env opcode) = Ret () s' \<and>
    pc s' = (if v = 4 \<or> v = 8 \<or> v = 10 \<or> v = 11 then ppc s else pc s) \<and>
    sr s' = sr s \<and> d_regs s' = d_regs s \<and> a_regs s' = a_regs s \<and>
    (if sr s AND M68K_SR_S \<noteq> 0 then usp s' = usp s else ssp s' = ssp s)"
proof -
  let ?s = "s\<lparr>exception_thrown := (if exception_thrown s = 0 then v else exception_thrown s),
       sr := handler_sr (sr s), a_regs := (a_regs s)(7 := entry_sp s - 6),
       usp := (if sr s AND M68K_SR_S \<noteq> 0 then usp s else a_regs s 7),
       memory := Some (frame_ram v s),
       fault_program_access := False, fault_valid := False, fault_pc_valid := False,
       fault_bus_word_valid := False, operand_program_space := False,
       pc := get32 (frame_ram v s) (mask_address_24 (vbr s + word_of_int v * 4))\<rparr>"
  have "m68k_exec_rte env opcode ?s = Ret ()
    ((m68k_set_sr (sr s) (set_a 7 (a_regs ?s 7 + 6) ?s))\<lparr>pc := pushed_pc v s\<rparr>)"
    using assms frame_ram_fields [OF assms(8), where v = v]
    by (intro rte_plain) (simp_all add: in_ram_def ram_def)
  then show ?thesis
    unfolding m68k_exception_plain [OF assms(1-10)]
    using sr_ok_mask [OF assms(11)]
    by (auto simp: m68k_set_sr_def Let_def pushed_pc_def entry_sp_def)
qed

lemma exception_rte_roundtrip_witness:
  "\<exists>s'. andthen (m68k_exception no_callbacks 32 trap_state) (\<lambda>_. m68k_exec_rte no_callbacks 0x4E73) =
      Ret () s' \<and> pc s' = 0x200 \<and> sr s' = 0 \<and> a_regs s' 7 = 0x800"
proof -
  have "pc_changed_cb no_callbacks = None" by (simp add: no_callbacks_def)
  from exception_rte_roundtrip [OF plain_bus_no_callbacks this trap_state_ok(5) _ _ _ trap_state_ok(1-4),
      where opcode = "0x4E73"]
  show ?thesis by (auto simp: trap_state_def m68k_init_def)
qed

lemma exec_jsr_plain:
  assumes "plain_bus env" and "pc_changed_cb env = None"
    and "bits opcode 3 7 = 2" and "bits opcode 6 1 = 0" and "bits opcode 0 7 = r"
    and "even (a_regs s r)" and "in_ram s (a_regs s r) 2"
    and "even (a_regs s 7)" and "in_ram s (a_regs s 7 - 4) 4"
  shows "m68k_exec_jmp env opcode s = Ret ()
    (poke32 (a_regs s 7 - 4) (pc s) (set_a 7 (a_regs s 7 - 4)
       (spend 8 (s\<lparr>fault_pc := pc s, fault_pc_valid := True\<rparr>)))\<lparr>pc := a_regs s r\<rparr>)"
proof -
  have "\<not> m68k_is_unmapped_target env (a_regs s r) s'" if "memory_size s' = memory_size s" for s'
    using in_ram_valid [OF assms(7), of 0] in_ram_valid [OF assms(7), of 1] that
    by (simp add: m68k_is_unmapped_target_def is_valid_address_def)
  then show ?thesis
    using assms even_word [of "a_regs s r"]
    by (simp add: m68k_exec_jmp_def m68k_calc_ea_ctl_def m68k_calc_ea_ex_def finish_ea_def zero_ea_def
        set_fault_pc_def Let_def m68k_control_ea_cycles_def jmp_ea_cycles_def m68k_push_32_def
        push_plain m68k_set_pc_def)
qed

text \<open>C6: JSR (An) and RTS: JSR jumps to the address in An and pushes the address of the next
  instruction, and RTS takes it back: the program continues after the JSR with every
  register (the stack pointer included) and the status register as before, for an even target
  and an even stack pointer inside bound memory. (The other modes of JSR are not covered.)\<close>

theorem jsr_rts_roundtrip:
  assumes "plain_bus env" and "pc_changed_cb env = None"
    and "bits opcode 3 7 = 2" and "bits opcode 6 1 = 0" and "bits opcode 0 7 = r"
    and "even (a_regs s r)" and "in_ram s (a_regs s r) 2"
    and "even (a_regs s 7)" and "in_ram s (a_regs s 7 - 4) 4"
  shows "\<exists>s' s''. m68k_exec_jmp env opcode s = Ret () s' \<and> pc s' = a_regs s r \<and>
    a_regs s' = (a_regs s)(7 := a_regs s 7 - 4) \<and>
    m68k_exec_rts env opcode' s' = Ret () s'' \<and> pc s'' = pc s \<and>
    a_regs s'' = a_regs s \<and> d_regs s'' = d_regs s \<and> sr s'' = sr s"
  using assms(8,9)
  by (simp add: exec_jsr_plain [OF assms] m68k_exec_rts_def pop_plain [OF assms(1)] m68k_set_pc_def
      assms(2) in_ram_def)

lemma jsr_rts_roundtrip_witness:
  "\<exists>s' s''. m68k_exec_jmp no_callbacks 0x4E90 trap_state = Ret () s' \<and> pc s' = 0x800 \<and>
     m68k_exec_rts no_callbacks 0x4E75 s' = Ret () s'' \<and> pc s'' = 0x200"
proof -
  have p: "pc_changed_cb no_callbacks = None" by (simp add: no_callbacks_def)
  have "in_ram trap_state (a_regs trap_state 0) 2" "in_ram trap_state (a_regs trap_state 7 - 4) 4"
    by (simp_all add: in_trap_state)
  from jsr_rts_roundtrip [OF plain_bus_no_callbacks p _ _ _ _ this(1) _ this(2),
      where opcode = "0x4E90" and opcode' = "0x4E75"]
  show ?thesis by (auto simp: bits_def)
qed

subsection \<open>Two stack pointers\<close>

text \<open>The abstract register file has a user and a supervisor stack pointer; the context keeps the
  one of its mode in A7 and banks the other.\<close>

definition user_sp :: "'h cpu \<Rightarrow> u32" where
  "user_sp s = (if sr_flag M68K_SR_S s then usp s else a_regs s 7)"

definition super_sp :: "'h cpu \<Rightarrow> u32" where
  "super_sp s = (if sr_flag M68K_SR_S s then a_regs s 7 else ssp s)"

text \<open>C24: Writing the status register implements the two stack pointers: neither the user nor the
  supervisor stack pointer changes, only which of them A7 shows, no other register changes,
  only the implemented bits are kept, and writing the old value back, when it had only
  implemented bits, restores every register.\<close>

theorem set_sr_banks:
  assumes "s' = m68k_set_sr w s"
  shows "user_sp s' = user_sp s \<and> super_sp s' = super_sp s \<and>
    sr s' = w AND 0xA71F \<and> a_regs s' 7 = (if w AND M68K_SR_S \<noteq> 0 then super_sp s else user_sp s) \<and>
    (\<forall>i. i \<noteq> 7 \<longrightarrow> a_regs s' i = a_regs s i) \<and> d_regs s' = d_regs s \<and> pc s' = pc s \<and>
    (sr_ok (sr s) \<longrightarrow> a_regs (m68k_set_sr (sr s) s') = a_regs s \<and> sr (m68k_set_sr (sr s) s') = sr s)"
proof -
  have m: "w AND (0xA71F AND M68K_SR_S) = w AND M68K_SR_S" for w :: u16
    by (simp add: M68K_SR_S_def)
  show ?thesis
    using sr_ok_mask [of "sr s"]
    by (auto simp: assms m68k_set_sr_def Let_def user_sp_def super_sp_def sr_flag_def and.assoc m)
qed

lemma set_sr_banks_witness:
  "user_sp (m68k_set_sr 0x2700 trap_state) = 0x800 \<and> a_regs (m68k_set_sr 0x2700 trap_state) 7 = 0x1000"
proof -
  have "user_sp trap_state = 0x800" "super_sp trap_state = 0x1000"
    by (simp_all add: user_sp_def super_sp_def sr_flag_def) (simp add: trap_state_def)
  then show ?thesis
    using set_sr_banks [OF refl, of "0x2700" trap_state] by (simp add: M68K_SR_S_def)
qed

subsection \<open>Counted loops\<close>

lemma low_word_merge:
  "ucast ((w AND 0xFFFF0000) OR ucast (b :: u16) :: u32) = b"
  "((w AND 0xFFFF0000) OR ucast (b :: u16) :: u32) AND 0xFFFF0000 = w AND 0xFFFF0000"
proof -
  have m: "(0xFFFF0000 :: u32) = NOT (mask 16)" by (simp add: mask_eq_exp_minus_1)
  show "ucast ((w AND 0xFFFF0000) OR ucast b :: u32) = b"
    "((w AND 0xFFFF0000) OR ucast b :: u32) AND 0xFFFF0000 = w AND 0xFFFF0000"
    unfolding m by (rule bit_word_eqI, auto simp: bit_simps dest: bit_imp_le_length)+
qed

lemma counter_down:
  "uint (k - 1 :: u16) = (if uint k = 0 then 65535 else uint k - 1)"
  "(k - 1 = (0xFFFF :: u16)) = (uint k = 0)"
proof -
  have "(0xFFFF :: u16) = 0 - 1" by simp
  then have "(k - 1 = 0xFFFF) = (k = 0)" by (metis diff_add_cancel)
  then show z: "(k - 1 = 0xFFFF) = (uint k = 0)" by (simp add: uint_0_iff)
  show "uint (k - 1) = (if uint k = 0 then 65535 else uint k - 1)"
  proof (cases "uint k = 0")
    case False
    then have "0 < uint k" using uint_ge_0 [of k] by linarith
    then show ?thesis using uint_lt2p [of k] by (simp add: uint_word_ariths mod_pos_pos_trivial)
  qed (use z in simp)
qed

lemma exec_dbcc_plain:
  assumes "plain_bus env" and "pc_changed_cb env = None" and "even (pc s)" and "in_ram s (pc s) 2"
    and r: "r = bits opcode 0 7" and c: "c = m68k_check_condition (bits opcode 8 15) s"
    and k: "k = ucast (d_regs s r)"
    and t: "t = pc s + sext16 (get16 (ram s) (mask_address_24 (pc s)))" and "even t" "in_ram s t 2"
  shows "m68k_exec_dbcc env opcode s = Ret ()
    (if c then spend 12 (s\<lparr>pc := pc s + 2\<rparr>)
     else let s' = set_d r ((d_regs s r AND 0xFFFF0000) OR ucast (k - 1 :: u16)) (s\<lparr>pc := pc s + 2\<rparr>)
          in if uint k = 0 then spend 14 s' else (spend 10 s')\<lparr>pc := t\<rparr>)"
proof -
  have un: "\<not> m68k_is_unmapped_target env t s'" if "memory_size s' = memory_size s" for s'
    using in_ram_valid [OF assms(10), of 0] in_ram_valid [OF assms(10), of 1] that
    by (simp add: m68k_is_unmapped_target_def is_valid_address_def)
  have cc: "m68k_check_condition j (s\<lparr>pc := q\<rparr>) = m68k_check_condition j s" for j q
    by (simp add: m68k_check_condition_def sr_flag_def)
  show ?thesis
    using counter_down(2) [of k] assms(2) un even_word [of t] assms(9)
    by (auto simp: m68k_exec_dbcc_def fetch_plain [OF assms(1,3,4)] cc Let_def word_and c r [symmetric]
        k [symmetric] t [symmetric] m68k_set_pc_def)
qed



end
