(* ===== verification/M68k_Step.thy ===== *)
theory M68k_Step
  imports M68k_Arith M68k_Bit M68k_Move M68k_Control
begin

section \<open>The instruction cycle\<close>

text \<open>
  \<open>m68k_step_ex\<close> of \<open>src/m68k/m68k.c\<close>: the interrupt check, the opcode fetch, the
  dispatch on the opcode and what follows every instruction (the cost of an exception,
  the fault on an odd program counter, the trace trap), all under the \<open>setjmp\<close> that a
  faulting access jumps to; and \<open>m68k_execute\<close>, which steps until the timeslice is
  used up. The dispatch is one definition per group of opcodes with the same high
  nibble; each returns the cycles the C code assigns to \<open>cycles\<close>, and a \<open>Longjmp\<close>
  skips the rest of the instruction as in C. The theorems: every step returns to a context between
  instructions, \<open>m68k_execute\<close> returns, user mode cannot execute a privileged
  instruction, and when an interrupt is taken and what it does.
\<close>

subsection \<open>Interrupts\<close>

definition check_interrupts :: "'h host_callbacks \<Rightarrow> 'h cpu \<Rightarrow> ('h, bool) out" where
  "check_interrupts env s =
     (if irq_level s = 0 then Ret False s
      else (let current_level = int (bits (sr s) 8 0x7);
                take = (if irq_level s = 7 then nmi_pending s else irq_level s > current_level)
      in if take
      then (let serviced_level = irq_level s;
                s = (case fc_cb env of None \<Rightarrow> s | Some cb \<Rightarrow> cb s 7);
                (vector, s) = (case int_ack env of
                    None \<Rightarrow> (24 + serviced_level, s)
                  | Some cb \<Rightarrow>
                      (case cb s serviced_level of
                         (ack, s) \<Rightarrow>
                           (if ack = - 1 then (24 + serviced_level, s)
                            else if ack = - 2 then (24, s)
                            else (uint (word_of_int ack AND 0xFF :: u32), s))))
            in andthen (m68k_exception env vector s) (\<lambda>_ s.
               let s = s\<lparr>sr := sr s AND NOT 0x0700\<rparr>;
                   s = s\<lparr>sr := sr s OR push_bit 8 (word_of_int serviced_level)\<rparr>;
                   s = s\<lparr>nmi_pending := False\<rparr>;
                   s = (if int_ack env = None then s\<lparr>irq_level := 0\<rparr> else s);
                   s = s\<lparr>stopped := False\<rparr>
               in Ret True s))
      else Ret False s))"

subsection \<open>Base costs\<close>

definition imm_alu_cycles :: "u16 \<Rightarrow> int" where
  "imm_alu_cycles opcode =
     (let is_long = (bits opcode 6 0x3 = 2);
          reg_dest = (opcode AND 0x38 = 0)
      in if reg_dest then (if is_long then 8 else 4) else (if is_long then 12 else 8))"

definition alu_base_cycles :: "bool \<Rightarrow> M68kSize \<Rightarrow> nat \<Rightarrow> nat \<Rightarrow> int" where
  "alu_base_cycles reg_to_ea sz ea_mode ea_reg =
     (if \<not> reg_to_ea
      then (if sz = SIZE_LONG
            then (if ea_mode \<le> 1 \<or> (ea_mode = 7 \<and> ea_reg = 4) then 8 else 6)
            else 4)
      else if ea_mode = 0 then (if sz = SIZE_LONG then 8 else 4)
      else (if sz = SIZE_LONG then 12 else 8))"

text \<open>The size the ALU dispatches read from the opmode (\<open>or_sz\<close>, \<open>sub_sz\<close>, ...).\<close>

definition opmode_size :: "nat \<Rightarrow> M68kSize" where
  "opmode_size opmode =
     (if opmode \<le> 2
      then (if opmode = 0 then SIZE_BYTE else if opmode = 1 then SIZE_WORD else SIZE_LONG)
      else (if opmode = 4 then SIZE_BYTE else if opmode = 5 then SIZE_WORD else SIZE_LONG))"

text \<open>ADDA and SUBA: word = 8; long = 8 for register or immediate sources, else 6.\<close>

definition address_alu_cycles :: "nat \<Rightarrow> nat \<Rightarrow> nat \<Rightarrow> int" where
  "address_alu_cycles opmode mode reg =
     (if opmode = 7 then (if mode \<le> 1 \<or> (mode = 7 \<and> reg = 4) then 8 else 6) else 8)"

text \<open>The unary read-modify-write instructions NEGX, CLR, NEG and NOT.\<close>

definition unary_cycles :: "u16 \<Rightarrow> int" where
  "unary_cycles opcode =
     (let is_long = (bits opcode 6 3 = 2)
      in if bits opcode 3 0x7 = 0 then (if is_long then 6 else 4)
         else (if is_long then 12 else 8))"

subsection \<open>Dispatch\<close>

text \<open>\<open>handler(cpu, opcode); cycles = n; goto done;\<close>\<close>

definition costing :: "int \<Rightarrow> ('h, unit) out \<Rightarrow> ('h, int) out" where
  "costing n r = andthen r (\<lambda>_ s. Ret n s)"

text \<open>What is left when no group matches.\<close>

definition dispatch_unmatched :: "'h host_callbacks \<Rightarrow> u16 \<Rightarrow> 'h cpu \<Rightarrow> ('h, int) out" where
  "dispatch_unmatched env opcode s =
     costing 34
       (if opcode AND 0xF000 = 0xA000 then m68k_exception env 10 s
        else if opcode AND 0xF000 = 0xF000 then m68k_exception env 11 s
        else m68k_exception env 4 s)"

text \<open>Instructions of later models on the 68000.\<close>

definition from_68010 :: "'h host_callbacks \<Rightarrow> 'h cpu \<Rightarrow> ('h, int) out \<Rightarrow> ('h, int) out" where
  "from_68010 env s r =
     (if model s < M68K_MODEL_68010 then costing 34 (m68k_exception env 4 s) else r)"

definition dispatch_static_bit :: "'h host_callbacks \<Rightarrow> u16 \<Rightarrow> 'h cpu \<Rightarrow> ('h, int) out" where
  "dispatch_static_bit env opcode s =
     (let subop = bits opcode 6 0x3;
          breg = (opcode AND 0x38 = 0);
          (bhi, s) = (if breg
            then (case m68k_peek_word env (pc s) s of
                    (w, s) \<Rightarrow> (if w AND 31 \<ge> 16 then 1 else 0, s))
            else (0 :: int, s))
      in if subop = 0 then costing (if breg then 10 else 8) (m68k_exec_btst env opcode s)
         else if subop = 1
         then costing (if breg then 10 + 2 * bhi else 12) (m68k_exec_bchg env opcode s)
         else if subop = 2
         then costing (if breg then 12 + 2 * bhi else 12) (m68k_exec_bclr env opcode s)
         else costing (if breg then 10 + 2 * bhi else 12) (m68k_exec_bset env opcode s))"

definition dispatch_dynamic_bit :: "'h host_callbacks \<Rightarrow> u16 \<Rightarrow> 'h cpu \<Rightarrow> ('h, int) out" where
  "dispatch_dynamic_bit env opcode s =
     (if bits opcode 3 0x7 = 1
      then costing (if bits opcode 6 0x1 \<noteq> 0 then 24 else 16) (m68k_exec_movep env opcode s)
      else (let subop = bits opcode 6 0x3;
                bit_hi = (if d_regs s (bits opcode 9 0x7) AND 31 \<ge> 16 then 1 else 0 :: int);
                reg_dest = (opcode AND 0x38 = 0);
                imm_dest = (opcode AND 0x3F = 0x3C)
            in if subop = 0
               then costing (if reg_dest then 6 else if imm_dest then 6 else 4)
                      (m68k_exec_btst env opcode s)
               else if subop = 1
               then costing (if reg_dest then 6 + 2 * bit_hi else 8) (m68k_exec_bchg env opcode s)
               else if subop = 2
               then costing (if reg_dest then 8 + 2 * bit_hi else 8) (m68k_exec_bclr env opcode s)
               else costing (if reg_dest then 6 + 2 * bit_hi else 8)
                      (m68k_exec_bset env opcode s)))"

definition dispatch_line_0 :: "'h host_callbacks \<Rightarrow> u16 \<Rightarrow> 'h cpu \<Rightarrow> ('h, int) out" where
  "dispatch_line_0 env opcode s =
     (let top4 = bits opcode 8 0xF
      in if bits opcode 6 0x3 = 3 \<and> (top4 = 0x0 \<or> top4 = 0x2 \<or> top4 = 0x4 \<or>
                                      top4 = 0x6 \<or> top4 = 0xA \<or> top4 = 0xC)
      then costing 34 (m68k_exception env 4 s)
      else if top4 = 0x0E
      then (if model s < M68K_MODEL_68010 \<or> bits opcode 6 0x3 = 3
            then costing 34 (m68k_exception env 4 s)
            else costing 4 (m68k_exec_moves env opcode s))
      else if top4 = 0x00
      then costing (if opcode AND 0xFFBF = 0x003C then 20 else imm_alu_cycles opcode)
             (m68k_exec_ori env opcode s)
      else if top4 = 0x02
      then costing (if opcode AND 0xFFBF = 0x023C then 20 else imm_alu_cycles opcode)
             (m68k_exec_andi env opcode s)
      else if top4 = 0x04 then costing (imm_alu_cycles opcode) (m68k_exec_subi env opcode s)
      else if top4 = 0x06 then costing (imm_alu_cycles opcode) (m68k_exec_addi env opcode s)
      else if top4 = 0x0A
      then costing (if opcode AND 0xFFBF = 0x0A3C then 20 else imm_alu_cycles opcode)
             (m68k_exec_eori env opcode s)
      else if top4 = 0x0C
      then costing (if bits opcode 6 0x3 = 2 then (if opcode AND 0x38 = 0 then 6 else 4) else 4)
             (m68k_exec_cmpi env opcode s)
      else if top4 = 0x08 then dispatch_static_bit env opcode s
      else if opcode AND 0x0100 \<noteq> 0 then dispatch_dynamic_bit env opcode s
      else dispatch_unmatched env opcode s)"

definition dispatch_move :: "'h host_callbacks \<Rightarrow> u16 \<Rightarrow> 'h cpu \<Rightarrow> ('h, int) out" where
  "dispatch_move env opcode s =
     costing (if bits opcode 6 0x7 = 4 then (if bits opcode 12 0x3 = 2 then 2 else 0) else 4)
       (m68k_exec_move env opcode s)"

text \<open>The fixed encodings of line 4, in the order of the C code, and then the groups.\<close>

definition dispatch_line_4_groups :: "'h host_callbacks \<Rightarrow> u16 \<Rightarrow> 'h cpu \<Rightarrow> ('h, int) out" where
  "dispatch_line_4_groups env opcode s =
     (if opcode AND 0xF1C0 = 0x4180 then costing 10 (m68k_exec_chk env opcode s)
      else if opcode AND 0xF1C0 = 0x41C0 then costing 0 (m68k_exec_lea env opcode s)
      else if opcode AND 0xFB80 = 0x4880
      then (if bits opcode 3 0x7 = 0 then costing 4 (m68k_exec_ext env opcode s)
            else costing 0 (m68k_exec_movem env opcode s))
      else if opcode AND 0xFFF8 = 0x4E50 then costing 16 (m68k_exec_link env opcode s)
      else if opcode AND 0xFFF8 = 0x4E58 then costing 8 (m68k_exec_unlk env opcode s)
      else if opcode AND 0xFFC0 = 0x4AC0
      then costing (if opcode AND 0x38 = 0 then 4 else 10) (m68k_exec_tas env opcode s)
      else if opcode AND 0xFFC0 = 0x4800
      then costing (if opcode AND 0x38 = 0 then 6 else 8) (m68k_exec_nbcd env opcode s)
      else if opcode AND 0xFFC0 = 0x4840
      then (if bits opcode 3 0x7 = 0 then costing 4 (m68k_exec_swap env opcode s)
            else costing 8 (m68k_exec_pea env opcode s))
      else if opcode AND 0xFF00 = 0x4A00 then costing 4 (m68k_exec_tst env opcode s)
      else if opcode AND 0xFF00 = 0x4000
      then costing (unary_cycles opcode) (m68k_exec_negx env opcode s)
      else if opcode AND 0xFFC0 = 0x42C0
      then from_68010 env s
             (costing (if opcode AND 0x38 = 0 then 4 else 8) (m68k_exec_move_sr env opcode s))
      else if opcode AND 0xFF00 = 0x4200
      then costing (unary_cycles opcode) (m68k_exec_clr env opcode s)
      else if opcode AND 0xFF00 = 0x4400
      then costing (unary_cycles opcode) (m68k_exec_neg env opcode s)
      else if opcode AND 0xFF00 = 0x4600
      then costing (unary_cycles opcode) (m68k_exec_not env opcode s)
      else dispatch_unmatched env opcode s)"

definition dispatch_line_4 :: "'h host_callbacks \<Rightarrow> u16 \<Rightarrow> 'h cpu \<Rightarrow> ('h, int) out" where
  "dispatch_line_4 env opcode s =
     (if opcode = 0x4E70 then costing 132 (m68k_exec_reset env opcode s)
      else if opcode = 0x4E71 then Ret 4 s
      else if opcode = 0x4E72 then costing 4 (m68k_exec_stop env opcode s)
      else if opcode = 0x4E73 then costing 20 (m68k_exec_rte env opcode s)
      else if opcode = 0x4E75 then costing 16 (m68k_exec_rts env opcode s)
      else if opcode = 0x4E76 then costing 4 (m68k_exec_trapv env opcode s)
      else if opcode = 0x4E77 then costing 20 (m68k_exec_rtr env opcode s)
      else if opcode = 0x4E74 then from_68010 env s (costing 16 (m68k_exec_rtd env opcode s))
      else if opcode = 0x4E7A \<or> opcode = 0x4E7B
      then from_68010 env s (costing 12 (m68k_exec_movec env opcode s))
      else if opcode AND 0xFFF8 = 0x4848
      then from_68010 env s (costing 4 (m68k_exec_bkpt env opcode s))
      else if opcode AND 0xFFF0 = 0x4E40 then costing 34 (m68k_exec_trap env opcode s)
      else if opcode AND 0xFFF0 = 0x4E60 then costing 4 (m68k_exec_move_usp env opcode s)
      else if opcode AND 0xFFC0 = 0x4E80
      then andthen (m68k_exec_jmp env opcode s) (\<lambda>_ s.
           Ret (if exception_thrown s = 2 \<or> exception_thrown s = 3 then 0 else 8) s)
      else if opcode AND 0xFFC0 = 0x4EC0 then costing 0 (m68k_exec_jmp env opcode s)
      else if opcode AND 0xFFC0 = 0x40C0
      then costing (if opcode AND 0x38 = 0 then 6 else 8) (m68k_exec_move_sr env opcode s)
      else if opcode AND 0xFFC0 = 0x44C0 then costing 12 (m68k_exec_move_ccr env opcode s)
      else if opcode AND 0xFFC0 = 0x46C0 then costing 12 (m68k_exec_move_sr env opcode s)
      else dispatch_line_4_groups env opcode s)"

definition dispatch_line_5 :: "'h host_callbacks \<Rightarrow> u16 \<Rightarrow> 'h cpu \<Rightarrow> ('h, int) out" where
  "dispatch_line_5 env opcode s =
     (if opcode AND 0x00C0 = 0x00C0
      then (if bits opcode 3 0x7 = 1 then costing 0 (m68k_exec_dbcc env opcode s)
            else costing 0 (m68k_exec_scc env opcode s))
      else (let is_sub = (opcode AND 0x0100 \<noteq> 0);
                aq_mode = bits opcode 3 0x7;
                aq_size = bits opcode 6 0x3
            in costing (if aq_mode = 1 then 8
                        else if aq_mode = 0 \<and> aq_size = 2 then 8
                        else if aq_mode = 0 then 4
                        else if aq_size = 2 then 12 else 8)
                 (if is_sub then m68k_exec_subq env opcode s else m68k_exec_addq env opcode s)))"

definition dispatch_line_8 :: "'h host_callbacks \<Rightarrow> u16 \<Rightarrow> 'h cpu \<Rightarrow> ('h, int) out" where
  "dispatch_line_8 env opcode s =
     (let opmode = bits opcode 6 0x7;
          mode = bits opcode 3 0x7
      in if opmode = 3 \<or> opmode = 7 then costing 0 (m68k_exec_div env opcode s)
         else if opmode = 4 \<and> (mode = 0 \<or> mode = 1)
         then costing (if mode = 1 then 18 else 6) (m68k_exec_sbcd env opcode s)
         else costing (alu_base_cycles (bits opcode 8 1 \<noteq> 0) (opmode_size opmode) mode
                         (bits opcode 0 0x7))
                (m68k_exec_or env opcode s))"

text \<open>SUBX and ADDX, or SUB and ADD with their address forms.\<close>

definition dispatch_add_sub ::
  "('h host_callbacks \<Rightarrow> u16 \<Rightarrow> 'h cpu \<Rightarrow> ('h, unit) out) \<Rightarrow>
   ('h host_callbacks \<Rightarrow> u16 \<Rightarrow> 'h cpu \<Rightarrow> ('h, unit) out) \<Rightarrow>
   'h host_callbacks \<Rightarrow> u16 \<Rightarrow> 'h cpu \<Rightarrow> ('h, int) out" where
  "dispatch_add_sub exec_x exec env opcode s =
     (let opmode = bits opcode 6 0x7;
          mode = bits opcode 3 0x7;
          reg = bits opcode 0 0x7
      in if (opmode \<ge> 4 \<and> opmode \<le> 6) \<and> (mode = 0 \<or> mode = 1)
      then costing (if mode = 1 then (if opmode = 6 then 16 else 8)
                    else (if opmode = 6 then 8 else 4))
             (exec_x env opcode s)
      else costing (if opmode = 3 \<or> opmode = 7 then address_alu_cycles opmode mode reg
                    else alu_base_cycles (bits opcode 8 1 \<noteq> 0) (opmode_size opmode) mode reg)
             (exec env opcode s))"

definition dispatch_line_9 :: "'h host_callbacks \<Rightarrow> u16 \<Rightarrow> 'h cpu \<Rightarrow> ('h, int) out" where
  "dispatch_line_9 = dispatch_add_sub m68k_exec_subx m68k_exec_sub"

definition dispatch_line_B :: "'h host_callbacks \<Rightarrow> u16 \<Rightarrow> 'h cpu \<Rightarrow> ('h, int) out" where
  "dispatch_line_B env opcode s =
     (let opmode = bits opcode 6 0x7;
          mode = bits opcode 3 0x7;
          is_cmpm = (opmode \<ge> 4 \<and> opmode \<le> 6 \<and> mode = 1);
          is_eor = (opmode \<ge> 4 \<and> opmode \<le> 6 \<and> \<not> is_cmpm)
      in if is_eor
      then costing (alu_base_cycles True (opmode_size opmode) mode (bits opcode 0 0x7))
             (m68k_exec_eor env opcode s)
      else costing (if opmode = 3 \<or> opmode = 7 then 6
                    else if is_cmpm then (if opmode = 6 then 8 else 4)
                    else if opmode = 0 \<or> opmode = 1 then 4 else 6)
             (m68k_exec_cmp env opcode s))"

definition dispatch_line_C :: "'h host_callbacks \<Rightarrow> u16 \<Rightarrow> 'h cpu \<Rightarrow> ('h, int) out" where
  "dispatch_line_C env opcode s =
     (let opmode = bits opcode 6 0x7;
          mode = bits opcode 3 0x7;
          exg_form = bits opcode 3 0x1F
      in if opmode = 3 \<or> opmode = 7 then costing 0 (m68k_exec_mul env opcode s)
         else if opmode = 4 \<and> (mode = 0 \<or> mode = 1)
         then costing (if mode = 1 then 18 else 6) (m68k_exec_abcd env opcode s)
         else if (opmode = 5 \<and> exg_form = 0x08) \<or> (opmode = 5 \<and> exg_form = 0x09) \<or>
                 (opmode = 6 \<and> exg_form = 0x11)
         then costing 6 (m68k_exec_exg env opcode s)
         else costing (alu_base_cycles (bits opcode 8 1 \<noteq> 0) (opmode_size opmode) mode
                         (bits opcode 0 0x7))
                (m68k_exec_and env opcode s))"

definition dispatch_line_D :: "'h host_callbacks \<Rightarrow> u16 \<Rightarrow> 'h cpu \<Rightarrow> ('h, int) out" where
  "dispatch_line_D = dispatch_add_sub m68k_exec_addx m68k_exec_add"

definition dispatch_line_E :: "'h host_callbacks \<Rightarrow> u16 \<Rightarrow> 'h cpu \<Rightarrow> ('h, int) out" where
  "dispatch_line_E env opcode s =
     (let cycles = (if opcode AND 0x00C0 = 0x00C0 then 8
                    else (let sh_ir = (bits opcode 5 0x1 \<noteq> 0);
                              n = bits opcode 9 0x7;
                              sh_count = (if sh_ir then uint (d_regs s n AND 63)
                                          else if n = 0 then 8 else int n);
                              sh_size = bits opcode 6 0x3
                          in (if sh_size = 2 then 8 else 6) + 2 * sh_count))
      in costing cycles (m68k_exec_shift env opcode s))"

definition dispatch :: "'h host_callbacks \<Rightarrow> u16 \<Rightarrow> 'h cpu \<Rightarrow> ('h, int) out" where
  "dispatch env opcode s =
     (if opcode AND 0xF000 = 0x0000 then dispatch_line_0 env opcode s
      else if opcode AND 0xC000 = 0x0000 \<and> bits opcode 12 0x3 \<noteq> 0 then dispatch_move env opcode s
      else if opcode AND 0xF000 = 0x4000 then dispatch_line_4 env opcode s
      else if opcode AND 0xF000 = 0x5000 then dispatch_line_5 env opcode s
      else if opcode AND 0xF000 = 0x6000 then costing 0 (m68k_exec_bcc env opcode s)
      else if opcode AND 0xF100 = 0x7000 then costing 4 (m68k_exec_moveq env opcode s)
      else if opcode AND 0xF000 = 0x8000 then dispatch_line_8 env opcode s
      else if opcode AND 0xF000 = 0x9000 then dispatch_line_9 env opcode s
      else if opcode AND 0xF000 = 0xB000 then dispatch_line_B env opcode s
      else if opcode AND 0xF000 = 0xC000 then dispatch_line_C env opcode s
      else if opcode AND 0xF000 = 0xD000 then dispatch_line_D env opcode s
      else if opcode AND 0xF000 = 0xE000 then dispatch_line_E env opcode s
      else dispatch_unmatched env opcode s)"

subsection \<open>One step\<close>

text \<open>The switch on \<open>exception_thrown\<close>: what an exception makes of the cost.\<close>

definition exception_cost :: "int \<Rightarrow> int \<Rightarrow> int" where
  "exception_cost thrown_vector cycles =
     (if thrown_vector = 4 then 34
      else if thrown_vector = 5 then 38
      else if thrown_vector = 6 then 0
      else if thrown_vector = 7 \<or> thrown_vector = 8 then 34
      else cycles)"

text \<open>From the label \<open>done\<close> to the end of the function.\<close>

definition finish_step ::
  "'h host_callbacks \<Rightarrow> bool \<Rightarrow> bool \<Rightarrow> int \<Rightarrow> 'h cpu \<Rightarrow> ('h, unit) out" where
  "finish_step env check_exceptions trace_active cycles s =
     (let s = s\<lparr>fault_trap_active := False\<rparr>;
          cycles = exception_cost (exception_thrown s) cycles
      in andthen (if pc s AND 1 \<noteq> 0 \<and> \<not> in_address_error s
                  then m68k_raise_odd_target_fault env (pc s) (ppc s + 2) s
                  else Ret () s) (\<lambda>_ s.
         andthen (if \<not> group0_fault s \<and> check_exceptions \<and> trace_active \<and> \<not> stopped s
                  then m68k_exception env 9 s
                  else Ret () s) (\<lambda>_ s.
         Ret () (spend cycles s))))"

text \<open>What runs under the \<open>setjmp\<close>.\<close>

definition run_instruction ::
  "'h host_callbacks \<Rightarrow> bool \<Rightarrow> bool \<Rightarrow> 'h cpu \<Rightarrow> ('h, unit) out" where
  "run_instruction env check_exceptions trace_active s =
     (let s = s\<lparr>fault_trap_active := True\<rparr>;
          s = s\<lparr>ppc := pc s\<rparr>;
          s = s\<lparr>fault_pc_valid := False\<rparr>
      in andthen (m68k_fetch env s) (\<lambda>opcode s.
         if group0_fault s
         then (let s = s\<lparr>fault_trap_active := False\<rparr> in Ret () (spend 54 s))
         else (let s = s\<lparr>ir := opcode\<rparr>
               in andthen (dispatch env opcode s) (\<lambda>cycles s.
                  finish_step env check_exceptions trace_active cycles s))))"

text \<open>The second return of \<open>setjmp\<close>.\<close>

definition catch_fault :: "('h, unit) out \<Rightarrow> ('h, unit) out" where
  "catch_fault r =
     (case r of
        Longjmp s \<Rightarrow>
          (let s = s\<lparr>fault_trap_active := False\<rparr>
           in Ret () (spend (if group0_fault s then 54 else 34) s))
      | _ \<Rightarrow> r)"

definition m68k_step_ex :: "'h host_callbacks \<Rightarrow> bool \<Rightarrow> 'h cpu \<Rightarrow> ('h, unit) out" where
  "m68k_step_ex env check_exceptions s =
     (let s = s\<lparr>exception_thrown := 0\<rparr>;
          s = s\<lparr>in_address_error := False\<rparr>;
          s = s\<lparr>in_bus_error := False\<rparr>;
          s = s\<lparr>fault_program_access := False\<rparr>;
          s = s\<lparr>fault_valid := False\<rparr>;
          s = s\<lparr>group0_fault := False\<rparr>;
          s = s\<lparr>fault_trap_active := False\<rparr>
      in andthen (if check_exceptions then check_interrupts env s else Ret False s) (\<lambda>taken s'.
         if stopped s
         then (if taken then Ret () (spend 44 s') else Ret () (spend 4 s'))
         else if taken then Ret () (spend 44 s')
         else (let trace_active = (sr s' AND 0x8000 \<noteq> 0);
                   s = (case instr_hook_cb env of None \<Rightarrow> s' | Some cb \<Rightarrow> cb s' (pc s'))
               in catch_fault (run_instruction env check_exceptions trace_active s))))"

definition m68k_step :: "'h host_callbacks \<Rightarrow> 'h cpu \<Rightarrow> ('h, unit) out" where
  "m68k_step env s = m68k_step_ex env True s"

subsection \<open>Running a timeslice\<close>

text \<open>\<open>while (cpu->cycles_remaining > 0) m68k_step(cpu);\<close>. A loop that does not end is
  \<open>None\<close>.\<close>

partial_function (option) execute_loop ::
  "'h host_callbacks \<Rightarrow> 'h cpu \<Rightarrow> ('h, unit) out option" where
  "execute_loop env s =
     (if cycles_remaining s > 0
      then (case m68k_step env s of
              Ret _ s \<Rightarrow> execute_loop env s
            | Longjmp s \<Rightarrow> Some (Longjmp s)
            | Stuck \<Rightarrow> Some Stuck)
      else Some (Ret () s))"

definition m68k_execute :: "'h host_callbacks \<Rightarrow> int \<Rightarrow> 'h cpu \<Rightarrow> ('h, int) out option" where
  "m68k_execute env cycles_requested s =
     (let s = s\<lparr>cycles_remaining := cycles_remaining s + cycles_requested\<rparr>;
          s = s\<lparr>target_cycles := target_cycles s + cycles_requested\<rparr>;
          start_cycles_run = m68k_cycles_run s
      in map_option (\<lambda>r. andthen r (\<lambda>_ s. Ret (m68k_cycles_run s - start_cycles_run) s))
           (execute_loop env s))"

subsection \<open>Safety of a step\<close>

lemma exception_cost_ge: "0 \<le> n \<Longrightarrow> 0 \<le> exception_cost v n"
  "4 \<le> n \<Longrightarrow> v \<noteq> 6 \<Longrightarrow> 4 \<le> exception_cost v n"
  "v = 4 \<or> v = 5 \<Longrightarrow> 4 \<le> exception_cost v n"
  by (auto simp: exception_cost_def)

lemma address_cycles_ge: "4 \<le> imm_alu_cycles opcode" "4 \<le> alu_base_cycles b sz m r"
  "4 \<le> address_alu_cycles opm m r" "4 \<le> unary_cycles opcode"
  by (simp_all add: imm_alu_cycles_def alu_base_cycles_def address_alu_cycles_def
      unary_cycles_def Let_def)

text \<open>What every step costs at least. Only an illegal instruction that the host claims may
  be free: the C code charges nothing for a claimed MOVEM, DIV, MUL or Scc.\<close>

definition toll :: "'h host_callbacks \<Rightarrow> int" where
  "toll env = (if illg_cb env = None then 4 else 0)"

lemma toll_le: "toll env \<le> 4" "0 \<le> toll env"
  by (simp_all add: toll_def)

text \<open>\<open>billed p c n s\<close>: after the dispatch returned the cost \<open>n\<close>, the end of the
  step brings the cycles down by at least the toll.\<close>

definition billed :: "'h host_callbacks \<Rightarrow> ctl \<Rightarrow> int option \<Rightarrow> int \<Rightarrow> 'h cpu \<Rightarrow> bool" where
  "billed env p c n s \<longleftrightarrow>
     cpu_inv p calm (lower (toll env - exception_cost (exception_thrown s) n) c) s"

context instruction begin

lemma quiet_billed: "cpu_inv p quiet c s \<Longrightarrow> 4 \<le> n \<Longrightarrow> billed env p c n s"
proof -
  assume i: "cpu_inv p quiet c s" and n: "4 \<le> n"
  then have "exception_thrown s \<noteq> 6" by (auto simp: cpu_inv_def quiet_def)
  then have "toll env - exception_cost (exception_thrown s) n \<le> 0"
    using exception_cost_ge(2) [OF n] toll_le(1) [of env] by fastforce
  then show ?thesis
    unfolding billed_def using inv_calm [OF i] inv_bound [of p calm 0 c s] by (simp add: quiet_def)
qed

lemma calm_billed: "cpu_inv p calm (lower 4 c) s \<Longrightarrow> 0 \<le> n \<Longrightarrow> billed env p c n s"
  unfolding billed_def
  using exception_cost_ge(1) [of n "exception_thrown s"] toll_le(1) [of env]
  by (auto elim!: inv_bound)

lemma paid_billed:
  assumes "paid c s" and "0 \<le> n"
  shows "billed env p c n s"
proof -
  consider "cpu_inv p quiet (lower 4 c) s" | "cpu_inv p (quiet\<lparr>thrown := {4, 5}\<rparr>) c s"
    | "illg_cb env \<noteq> None" "cpu_inv p quiet c s"
    using assms(1) by (auto simp: paid_def)
  then show ?thesis
  proof cases
    case 1
    then show ?thesis using inv_calm [OF 1] assms(2) by (intro calm_billed) (simp_all add: quiet_def)
  next
    case 2
    then have "exception_thrown s = 4 \<or> exception_thrown s = 5" by (auto simp: cpu_inv_def)
    then have "toll env - exception_cost (exception_thrown s) n \<le> 0"
      using exception_cost_ge(3) [of "exception_thrown s" n] toll_le(1) [of env] by simp
    then show ?thesis
      unfolding billed_def using inv_calm [OF 2] inv_bound [of p calm 0 c s] by (simp add: quiet_def)
  next
    case 3
    then have "toll env - exception_cost (exception_thrown s) n \<le> 0"
      using exception_cost_ge(1) [OF assms(2), of "exception_thrown s"] by (auto simp: toll_def)
    then show ?thesis
      unfolding billed_def using inv_calm [OF 3(2)] inv_bound [of p calm 0 c s] by (simp add: quiet_def)
  qed
qed

lemma jump_refund: "jump_inv p c s \<Longrightarrow> jump_inv p (lower (- 8) c) s"
  using jump_inv_raise [of p 8 "lower (- 8) c" s] by simp

lemma costing_post:
  "keeps (cpu_inv p quiet c) (jump_inv p c) r \<Longrightarrow> 4 \<le> n \<Longrightarrow>
   post (billed env p c) (jump_inv p (lower (- 8) c)) (costing n r)"
  "keeps (paid c) (jump_inv p c) r \<Longrightarrow> 0 \<le> n \<Longrightarrow>
   post (billed env p c) (jump_inv p (lower (- 8) c)) (costing n r)"
  "keeps (cpu_inv p quiet c) (jump_inv p (lower (- 8) c)) r \<Longrightarrow> 4 \<le> n \<Longrightarrow>
   post (billed env p c) (jump_inv p (lower (- 8) c)) (costing n r)"
  "keeps (paid c) (jump_inv p (lower (- 8) c)) r \<Longrightarrow> 0 \<le> n \<Longrightarrow>
   post (billed env p c) (jump_inv p (lower (- 8) c)) (costing n r)"
  by (cases r; simp add: costing_def quiet_billed paid_billed jump_refund)+

lemma costing_exception:
  "cpu_inv p fresh c s \<Longrightarrow> bound_ok t c \<Longrightarrow> v \<noteq> 0 \<Longrightarrow> v \<noteq> 6 \<Longrightarrow>
   post (billed env p c) (jump_inv p (lower (- 8) c)) (costing 34 (m68k_exception env v s))"
  by (intro costing_post(1) fresh_exception) simp_all

lemma dispatch_unmatched_post:
  "cpu_inv p fresh c s \<Longrightarrow> bound_ok t c \<Longrightarrow>
   post (billed env p c) (jump_inv p (lower (- 8) c)) (dispatch_unmatched env opcode s)"
  unfolding dispatch_unmatched_def
  by (intro costing_post(1) keeps_if fresh_exception) simp_all

lemma from_68010_post:
  assumes "cpu_inv p fresh c s" and "bound_ok t c"
    and "post (billed env p c) (jump_inv p (lower (- 8) c)) r"
  shows "post (billed env p c) (jump_inv p (lower (- 8) c)) (from_68010 env s r)"
  unfolding from_68010_def using assms by (intro post_if costing_exception) simp_all

lemmas dispatch_intros = post_if costing_exception dispatch_unmatched_post from_68010_post

lemma dispatch_static_bit_post:
  assumes "cpu_inv p fresh c s" and "bound_ok t c"
  shows "post (billed env p c) (jump_inv p (lower (- 8) c)) (dispatch_static_bit env opcode s)"
proof -
  let ?breg = "opcode AND 0x38 = 0"
  obtain w s' where peek: "m68k_peek_word env (pc s) s = (w, s')" by fastforce
  have i: "cpu_inv p fresh c s'"
    using peek_word_inv [OF assms, of "pc s"] peek by simp
  show ?thesis
  proof (cases ?breg)
    case True
    show ?thesis
      unfolding dispatch_static_bit_def Let_def peek prod.case if_P [OF True]
      by (intro post_if costing_post(1) bit_keeps i assms(2)) simp_all
  next
    case False
    show ?thesis
      unfolding dispatch_static_bit_def Let_def prod.case if_not_P [OF False]
      by (intro post_if costing_post(1) bit_keeps assms) simp_all
  qed
qed

lemmas exec_keeps = add_keeps sub_keeps addq_keeps subq_keeps cmpi_keeps neg_keeps ext_keeps
  addi_keeps subi_keeps addx_keeps subx_keeps cmp_keeps abcd_keeps sbcd_keeps nbcd_keeps
  negx_keeps and_keeps or_keeps eor_keeps not_keeps clr_keeps tst_keeps shift_keeps
  immediate_keeps bit_keeps tas_keeps moveq_keeps link_keeps unlk_keeps exg_keeps swap_keeps
  move_usp_keeps move_ccr_keeps movep_keeps move_sr_keeps moves_keeps pea_keeps rts_keeps
  rte_keeps rtr_keeps rtd_keeps trap_keeps trapv_keeps bkpt_keeps stop_keeps movec_keeps
  reset_keeps

lemmas exec_paid = mul_keeps div_keeps lea_keeps movem_keeps bcc_keeps dbcc_keeps scc_keeps
  jmp_keeps

lemmas exec_posts = exec_keeps [THEN costing_post(1)] exec_paid [THEN costing_post(2)]

lemma dispatch_dynamic_bit_post:
  assumes "cpu_inv p fresh c s" and "bound_ok t c"
  shows "post (billed env p c) (jump_inv p (lower (- 8) c)) (dispatch_dynamic_bit env opcode s)"
  unfolding dispatch_dynamic_bit_def Let_def
  by (intro post_if exec_posts assms) simp_all

lemma dispatch_line_0_post:
  assumes "cpu_inv p fresh c s" and "bound_ok t c"
  shows "post (billed env p c) (jump_inv p (lower (- 8) c)) (dispatch_line_0 env opcode s)"
  unfolding dispatch_line_0_def Let_def
  by (intro dispatch_intros dispatch_static_bit_post dispatch_dynamic_bit_post exec_posts assms) (simp_all add: address_cycles_ge)

lemma dispatch_move_post:
  assumes "cpu_inv p fresh c s" and "bound_ok t c" and "bits opcode 12 3 \<noteq> 0"
  shows "post (billed env p c) (jump_inv p (lower (- 8) c)) (dispatch_move env opcode s)"
  unfolding dispatch_move_def
  using move_keeps [OF assms]
  by (cases "bits opcode 6 7 = 4") (simp_all add: costing_post(3,4))

lemma dispatch_line_4_groups_post:
  assumes "cpu_inv p fresh c s" and "bound_ok t c"
  shows "post (billed env p c) (jump_inv p (lower (- 8) c)) (dispatch_line_4_groups env opcode s)"
proof -
  have chk: "post (billed env p c) (jump_inv p (lower (- 8) c))
      (costing 10 (m68k_exec_chk env opcode s))"
    using chk_keeps [OF assms, of opcode]
    by (cases "m68k_exec_chk env opcode s")
       (auto simp: costing_def quiet_billed calm_billed jump_refund)
  show ?thesis
    unfolding dispatch_line_4_groups_def
    by (intro dispatch_intros chk exec_posts
        assms) (simp_all add: address_cycles_ge)
qed

lemma dispatch_line_4_post:
  assumes "cpu_inv p fresh c s" and "bound_ok t c"
  shows "post (billed env p c) (jump_inv p (lower (- 8) c)) (dispatch_line_4 env opcode s)"
proof -
  have nop: "post (billed env p c) (jump_inv p (lower (- 8) c)) (Ret 4 s)"
    by (simp add: quiet_billed fresh_quiet assms(1))
  have jsr: "post (billed env p c) (jump_inv p (lower (- 8) c))
      (andthen (m68k_exec_jmp env opcode s) (\<lambda>_ s.
         Ret (if exception_thrown s = 2 \<or> exception_thrown s = 3 then 0 else 8) s))"
    using jmp_keeps [OF assms, of opcode]
    by (cases "m68k_exec_jmp env opcode s") (simp_all add: paid_billed jump_refund)
  show ?thesis
    unfolding dispatch_line_4_def
    by (intro post_if nop jsr from_68010_post dispatch_line_4_groups_post
        exec_posts assms) simp_all
qed

lemma dispatch_add_sub_post:
  assumes "cpu_inv p fresh c s" and "bound_ok t c"
    and "keeps (cpu_inv p quiet c) (jump_inv p c) (exec_x env opcode s)"
    and "keeps (cpu_inv p quiet c) (jump_inv p c) (exec env opcode s)"
  shows "post (billed env p c) (jump_inv p (lower (- 8) c)) (dispatch_add_sub exec_x exec env opcode s)"
  unfolding dispatch_add_sub_def Let_def
  by (intro post_if costing_post(1) assms(3,4)) (simp_all add: address_cycles_ge)

lemma dispatch_line_E_post:
  assumes "cpu_inv p fresh c s" and "bound_ok t c"
  shows "post (billed env p c) (jump_inv p (lower (- 8) c)) (dispatch_line_E env opcode s)"
  unfolding dispatch_line_E_def Let_def
  by (intro costing_post(1) shift_keeps assms) simp

lemma dispatch_lines_post:
  assumes "cpu_inv p fresh c s" and "bound_ok t c"
  shows "post (billed env p c) (jump_inv p (lower (- 8) c)) (dispatch_line_5 env opcode s)"
    and "post (billed env p c) (jump_inv p (lower (- 8) c)) (dispatch_line_8 env opcode s)"
    and "post (billed env p c) (jump_inv p (lower (- 8) c)) (dispatch_line_B env opcode s)"
    and "post (billed env p c) (jump_inv p (lower (- 8) c)) (dispatch_line_C env opcode s)"
  unfolding dispatch_line_5_def dispatch_line_8_def dispatch_line_B_def dispatch_line_C_def Let_def
  by (intro post_if exec_posts
      keeps_if [THEN costing_post(1)] exec_keeps assms; simp add: address_cycles_ge)+

lemma dispatch_post:
  assumes "cpu_inv p fresh c s" and "bound_ok t c"
  shows "post (billed env p c) (jump_inv p (lower (- 8) c)) (dispatch env opcode s)"
  unfolding dispatch_def dispatch_line_9_def dispatch_line_D_def
  by (intro post_if dispatch_line_0_post dispatch_move_post dispatch_line_4_post
      dispatch_lines_post dispatch_add_sub_post dispatch_line_E_post dispatch_unmatched_post
      exec_posts exec_keeps assms) simp_all

end

text \<open>Before and after an instruction.\<close>

definition ready :: "'h cpu \<Rightarrow> bool" where
  "ready s \<longleftrightarrow> cpu_inv (ctl_of s) calm None s \<and> exception_depth s = 0"

definition idle :: "'h cpu \<Rightarrow> bool" where
  "idle s \<longleftrightarrow> ready s \<and> \<not> in_address_error s \<and> \<not> in_bus_error s \<and> \<not> fault_trap_active s"

definition idle_ctl :: "'h cpu \<Rightarrow> ctl" where
  "idle_ctl s = \<lparr>c_ae = False, c_be = False, c_depth = 0, c_trap = False,
     c_size = memory_size s, c_model = model s\<rparr>"

context machine begin

lemma finish_step_keeps:
  assumes i: "billed env p c n s" and b: "bound_ok t c"
    and p: "c_depth p = 0" "\<not> c_ae p" "\<not> c_be p"
  shows "post (\<lambda>_. cpu_inv (p\<lparr>c_trap := False\<rparr>) calm (lower (toll env) c)) E
      (finish_step env ce ta n s)"
proof -
  let ?p = "p\<lparr>c_trap := False\<rparr>"
  define k where "k = exception_cost (exception_thrown s) n"
  let ?c = "lower (toll env - k) c"
  have b': "bound_ok t ?c" using b by simp
  have i: "cpu_inv ?p calm ?c (s\<lparr>fault_trap_active := False\<rparr>)"
    and k': "exception_cost (exception_thrown (s\<lparr>fault_trap_active := False\<rparr>)) n = k"
    using i unfolding billed_def k_def by (auto intro: inv_set_trap)
  have odd: "keeps (cpu_inv ?p calm ?c) E (m68k_raise_odd_target_fault env a f s')"
    if "cpu_inv ?p calm ?c s'" for a f s'
    using raise_target_fault_keeps(1) [OF inv_spend_ge [OF that order_refl, of 50] _ _ b', where a = a and f = f and E = E] p
    by (auto elim!: keeps_mono intro: inv_weaken [OF _ after_calm(1)]
        dest: inv_bound [where m = "toll env - k"])
  have trace: "keeps (cpu_inv ?p calm ?c) E (m68k_exception env 9 s')"
    if "cpu_inv ?p calm ?c s'" for s'
    using that b' after_calm(2) by (intro exception_keeps [OF that]) auto
  have fin: "cpu_inv ?p calm (lower (toll env) c) (spend k s')" if "cpu_inv ?p calm ?c s'" for s'
    using inv_spend_ge [OF that order_refl, of k] by simp
  show ?thesis
    unfolding finish_step_def Let_def keeps_def [symmetric]
    unfolding k'
    using i
    by (intro keeps_bind [where I = "cpu_inv ?p calm ?c"] keeps_if)
       (simp_all only: keeps_Ret odd trace fin)
qed

end

context instruction begin

lemma catch_fault_post:
  assumes "post (\<lambda>_. cpu_inv (p\<lparr>c_trap := False\<rparr>) calm (lower (toll env) c))
    (jump_inv p (lower (- 8) c)) r"
  shows "post (\<lambda>_. cpu_inv (p\<lparr>c_trap := False\<rparr>) calm (lower (toll env) c)) (\<lambda>_. False)
    (catch_fault r)"
proof (cases r)
  case (Longjmp s)
  have i: "cpu_inv (p\<lparr>c_trap := False\<rparr>) calm (lower (- 8) c) (s\<lparr>fault_trap_active := False\<rparr>)"
    using assms Longjmp by (auto simp: jump_inv_def intro: inv_set_trap)
  have "cpu_inv (p\<lparr>c_trap := False\<rparr>) calm (lower (toll env) c) (spend n (s\<lparr>fault_trap_active := False\<rparr>))"
    if "34 \<le> n" for n
    using inv_bound [of _ calm 26 c _ "toll env"] inv_spend_ge [OF i that] toll_le(1) [of env] by simp
  then show ?thesis
    using Longjmp by (simp add: catch_fault_def Let_def)
qed (use assms in \<open>simp_all add: catch_fault_def\<close>)

lemma run_instruction_post:
  assumes i: "cpu_inv (p\<lparr>c_trap := b\<rparr>) fresh c s" and bound: "bound_ok t c"
  shows "post (\<lambda>_. cpu_inv (p\<lparr>c_trap := False\<rparr>) calm (lower (toll env) c))
    (jump_inv p (lower (- 8) c)) (run_instruction env ce ta s)"
proof -
  let ?J = "jump_inv p (lower (- 8) c)"
  let ?s = "s\<lparr>fault_trap_active := True\<rparr>\<lparr>ppc := pc s\<rparr>\<lparr>fault_pc_valid := False\<rparr>"
  have p: "p\<lparr>c_trap := True\<rparr> = p" "c_depth p = 0" "\<not> c_ae p" "\<not> c_be p"
    using running by (cases p; simp add: running_def)+
  have "cpu_inv p fresh c ?s"
    using inv_set_trap [OF i, of True] p(1) by simp
  then have fetch: "post (\<lambda>_. cpu_inv p fresh c) ?J (m68k_fetch env ?s)"
    by (intro post_mono [OF fetch_keeps [OF _ bound st, unfolded keeps_def]]) (auto intro: jump_refund)
  have abort: "cpu_inv (p\<lparr>c_trap := False\<rparr>) calm (lower (toll env) c)
      (spend 54 (s'\<lparr>fault_trap_active := False\<rparr>))" if "cpu_inv p fresh c s'" for s'
    using inv_spend_ge [OF inv_set_trap [OF inv_calm [OF that latches_fresh]], of "toll env" 54 False]
      toll_le(1) [of env] by simp
  have run: "post (\<lambda>_. cpu_inv (p\<lparr>c_trap := False\<rparr>) calm (lower (toll env) c)) ?J
      (andthen (dispatch env w (s'\<lparr>ir := w\<rparr>)) (\<lambda>n s. finish_step env ce ta n s))"
    if "cpu_inv p fresh c s'" for s' w
    using that bound p by (intro post_bind [OF dispatch_post] finish_step_keeps) simp_all
  show ?thesis
    unfolding run_instruction_def Let_def
    by (rule post_bind [where P = "\<lambda>_. cpu_inv p fresh c"])
       (use fetch abort run in \<open>auto\<close>)
qed

end

context machine begin

lemma acknowledge_inv:
  assumes "cpu_inv p w c s" and "bound_ok t c"
  shows "cpu_inv p w c (case fc_cb env of None \<Rightarrow> s | Some cb \<Rightarrow> cb s 7)"
    and "cpu_inv p w c (snd (case int_ack env of
       None \<Rightarrow> (24 + l, s)
     | Some cb \<Rightarrow>
         (case cb s l of
            (ack, s) \<Rightarrow>
              (if ack = - 1 then (24 + l, s)
               else if ack = - 2 then (24, s)
               else (uint (word_of_int ack AND 0xFF :: u32), s)))))"
proof -
  show "cpu_inv p w c (case fc_cb env of None \<Rightarrow> s | Some cb \<Rightarrow> cb s 7)"
    using host_inv(3) [OF callbacks_ok assms] assms(1) by (auto split: option.split)
  have "cpu_inv p w c s'" if "int_ack env = Some cb" "cb s l = (n, s')" for cb n s'
    using host_inv(2) [OF callbacks_ok assms that(1), of l] that(2) by simp
  then show "cpu_inv p w c (snd (case int_ack env of
       None \<Rightarrow> (24 + l, s)
     | Some cb \<Rightarrow>
         (case cb s l of
            (ack, s) \<Rightarrow>
              (if ack = - 1 then (24 + l, s)
               else if ack = - 2 then (24, s)
               else (uint (word_of_int ack AND 0xFF :: u32), s)))))"
    using assms(1) by (auto split: option.split prod.split)
qed

lemma check_interrupts_post:
  assumes i: "cpu_inv p calm c s" and b: "bound_ok t c"
  shows "post (\<lambda>taken s'. cpu_inv p calm c s' \<and> (\<not> taken \<longrightarrow> s' = s)) E (check_interrupts env s)"
proof -
  define s1 where "s1 = (case fc_cb env of None \<Rightarrow> s | Some cb \<Rightarrow> cb s 7)"
  let ?l = "irq_level s"
  define ack where "ack = (case int_ack env of
      None \<Rightarrow> (24 + ?l, s1)
    | Some cb \<Rightarrow>
        (case cb s1 (?l) of
           (ack, s) \<Rightarrow>
             (if ack = - 1 then (24 + ?l, s)
              else if ack = - 2 then (24, s)
              else (uint (word_of_int ack AND 0xFF :: u32), s))))"
  have l: "0 \<le> irq_level s" "irq_level s \<le> 7"
    using i by (simp_all add: cpu_inv_def)
  have lv: "sr_ok (push_bit 8 (word_of_int ?l))" "sr_ok 1792"
    using sr_ok_level [OF l] by (simp_all add: sr_ok_def)
  have "cpu_inv p calm c (snd ack)"
    unfolding ack_def s1_def
    using acknowledge_inv(2) [OF acknowledge_inv(1) [OF i b] b, of "irq_level s"] .
  moreover obtain v s2 where a: "ack = (v, s2)" by fastforce
  ultimately have "cpu_inv p calm c s2" by simp
  then have r: "keeps (cpu_inv p calm c) E (m68k_exception env v s2)"
    by (rule exception_keeps [OF _ b]) (simp_all add: after_calm(2), simp add: calm_def)
  show ?thesis
    unfolding check_interrupts_def Let_def s1_def [symmetric] ack_def [symmetric] a prod.case
    by (intro post_if post_bind [OF r [unfolded keeps_def]])
       (use i in \<open>simp_all only: post.simps, simp_all add: inv_irq inv_sr_upd lv\<close>)
qed


lemma m68k_step_ex_post:
  assumes r: "ready s" and b: "bound_ok t c" and w: "within c (cycles_remaining s)"
  shows "post (\<lambda>_. cpu_inv (idle_ctl s) calm (lower (toll env) c)) (\<lambda>_. False)
    (m68k_step_ex env ce s)"
proof -
  let ?p = "idle_ctl s"
  let ?q = "?p\<lparr>c_trap := True\<rparr>"
  define s1 where "s1 = s\<lparr>exception_thrown := 0\<rparr>\<lparr>in_address_error := False\<rparr>\<lparr>in_bus_error := False\<rparr>
    \<lparr>fault_program_access := False\<rparr>\<lparr>fault_valid := False\<rparr>\<lparr>group0_fault := False\<rparr>
    \<lparr>fault_trap_active := False\<rparr>"
  have i: "cpu_inv ?p fresh c s1"
    using r w by (simp add: s1_def ready_def cpu_inv_def calm_def fresh_def idle_ctl_def ctl_of_def)
  have ins: "instruction env t ?q"
    by (intro instruction.intro machine_axioms instruction_axioms.intro)
       (simp add: running_def idle_ctl_def)
  have q: "?q\<lparr>c_trap := False\<rparr> = ?p"
    by (simp add: idle_ctl_def)
  let ?int = "if ce then check_interrupts env s1 else Ret False s1"
  have int: "post (\<lambda>taken s'. cpu_inv ?p calm c s' \<and> (\<not> taken \<longrightarrow> s' = s1)) (\<lambda>_. False) ?int"
    using check_interrupts_post [OF inv_calm [OF i latches_fresh] b] inv_calm [OF i latches_fresh]
    by simp
  have idle: "cpu_inv ?p calm (lower (toll env) c) (spend n s')"
    if "cpu_inv ?p calm c s'" "4 \<le> n" for n s'
    using inv_spend_ge [OF that(1), of "toll env" n] that(2) toll_le(1) [of env] by simp
  have hook: "cpu_inv ?p fresh c (case instr_hook_cb env of None \<Rightarrow> s1 | Some cb \<Rightarrow> cb s1 a)" for a
    using host_inv(4) [OF callbacks_ok i b] i by (simp split: option.split)
  have run: "post (\<lambda>_. cpu_inv ?p calm (lower (toll env) c)) (\<lambda>_. False)
      (catch_fault (run_instruction env ce ta (case instr_hook_cb env of None \<Rightarrow> s1 | Some cb \<Rightarrow> cb s1 a)))"
    for a ta
    using instruction.catch_fault_post [OF ins instruction.run_instruction_post
        [OF ins _ b, where b = False], unfolded q] hook by simp
  show ?thesis
    unfolding m68k_step_ex_def Let_def s1_def [symmetric]
    by (rule post_bind [OF int], intro post_if; simp add: idle run)
qed

end

lemma idle_ctlD:
  "cpu_inv (idle_ctl s) calm c s' \<Longrightarrow>
   idle s' \<and> memory_size s' = memory_size s \<and> model s' = model s"
  by (auto simp: idle_def ready_def cpu_inv_def idle_ctl_def ctl_of_def)

lemma idle_ready: "idle s \<Longrightarrow> ready s"
  by (simp add: idle_def)

lemma ready_set_cycles [simp]:
  "ready (s\<lparr>cycles_remaining := n\<rparr>) = ready s" "ready (s\<lparr>target_cycles := n\<rparr>) = ready s"
  by (simp_all add: ready_def cpu_inv_def ctl_of_def)

lemma m68k_step_returns:
  assumes "host_ok t env" and "ready s"
  obtains s' where "m68k_step_ex env ce s = Ret () s'" "idle s'"
    "memory_size s' = memory_size s" "model s' = model s"
    "t \<Longrightarrow> cycles_remaining s' \<le> cycles_remaining s - toll env"
proof -
  let ?c = "if t then Some (cycles_remaining s) else None"
  have "bound_ok t ?c" "within ?c (cycles_remaining s)"
    by (simp_all add: bound_ok_def within_def)
  from machine.m68k_step_ex_post [OF machine.intro [OF assms(1)] assms(2) this, of ce]
  obtain s' where "m68k_step_ex env ce s = Ret () s'"
    and i: "cpu_inv (idle_ctl s) calm (lower (toll env) ?c) s'"
    by (cases "m68k_step_ex env ce s") auto
  then show ?thesis
    using that idle_ctlD [OF i] inv_within [OF i] by (auto simp: within_def lower_def split: if_splits)
qed

lemma execute_loop_returns:
  assumes "host_ok True env" and "illg_cb env = None" and "ready s"
  shows "\<exists>s'. execute_loop env s = Some (Ret () s') \<and> ready s' \<and> cycles_remaining s' \<le> 0"
  using assms(3)
proof (induction "nat (cycles_remaining s)" arbitrary: s rule: less_induct)
  case less
  show ?case
  proof (cases "0 < cycles_remaining s")
    case True
    obtain s1 where s1: "m68k_step env s = Ret () s1" "idle s1"
      "cycles_remaining s1 \<le> cycles_remaining s - toll env"
      using m68k_step_returns [OF assms(1) less.prems, of True] unfolding m68k_step_def by metis
    then have "nat (cycles_remaining s1) < nat (cycles_remaining s)"
      using True assms(2) by (simp add: toll_def)
    from less.hyps [OF this idle_ready [OF s1(2)]] show ?thesis
      using True s1(1) by (subst execute_loop.simps) simp
  next
    case False
    then show ?thesis using less.prems by (subst execute_loop.simps) simp
  qed
qed

text \<open>C1: Every step returns. From a context between instructions, whatever bytes the program
  counter points at, one step neither stays in a \<open>longjmp\<close> nor gets stuck; it comes back
  to a context between instructions, with the guards, the trap and the operand latches
  clear, at depth 0, with the memory binding and the model unchanged. With a host that adds
  no cycles it brings \<open>cycles_remaining\<close> down by 4 or more, unless the host claims illegal
  instructions.\<close>

theorem m68k_step_ex_safe:
  assumes "host_ok t env" and "ready s"
  shows "\<exists>s'. m68k_step_ex env ce s = Ret () s' \<and> idle s' \<and>
    memory_size s' = memory_size s \<and> model s' = model s \<and>
    (t \<longrightarrow> cycles_remaining s' \<le> cycles_remaining s - toll env)"
  using m68k_step_returns [OF assms, of ce] by metis

lemma ready_init: "ready (m68k_init (Some m) n h)"
  using m68k_init_inv [of m n h] by (simp add: ready_def m68k_init_def)

lemma m68k_step_ex_safe_witness:
  "\<exists>s'. m68k_step_ex no_callbacks True (m68k_init (Some (\<lambda>_. 0)) 0x1000 ()) = Ret () s' \<and> idle s' \<and>
    memory_size s' = 0x1000 \<and> model s' = M68K_MODEL_68000 \<and> cycles_remaining s' \<le> - 4"
  using m68k_step_ex_safe [OF host_ok_no_callbacks [of True] ready_init, of True]
  by (simp add: m68k_init_def toll_def no_callbacks_def)

text \<open>C2: \<open>m68k_execute\<close> returns for every program and every number of cycles, with the
  timeslice used up, when the host adds no cycles and does not claim illegal
  instructions.\<close>

theorem m68k_execute_returns:
  assumes "host_ok True env" and "illg_cb env = None" and "ready s"
  shows "\<exists>n s'. m68k_execute env cycles s = Some (Ret n s') \<and> ready s' \<and> cycles_remaining s' \<le> 0"
proof -
  let ?s = "s\<lparr>cycles_remaining := cycles_remaining s + cycles\<rparr>
    \<lparr>target_cycles := target_cycles s + cycles\<rparr>"
  obtain s' where "execute_loop env ?s = Some (Ret () s')" "ready s'" "cycles_remaining s' \<le> 0"
    using execute_loop_returns [OF assms(1,2), of ?s] assms(3) by auto
  then show ?thesis by (simp add: m68k_execute_def Let_def)
qed

lemma m68k_execute_returns_witness:
  "\<exists>n s'. m68k_execute no_callbacks 100 (m68k_init (Some (\<lambda>_. 0)) 0x1000 ()) = Some (Ret n s') \<and>
     ready s' \<and> cycles_remaining s' \<le> 0"
  by (rule m68k_execute_returns [OF host_ok_no_callbacks _ ready_init])
     (simp add: no_callbacks_def)

subsection \<open>Privileged instructions\<close>

lemma submask: "w AND m = v \<Longrightarrow> m AND k = k \<Longrightarrow> (w :: u16) AND k = v AND k"
  by (metis and.assoc)

lemma dispatch_line_4: "opcode AND 0xF000 = 0x4000 \<Longrightarrow> dispatch env opcode s = dispatch_line_4 env opcode s"
  and dispatch_line_0: "opcode AND 0xF000 = 0 \<Longrightarrow> dispatch env opcode s = dispatch_line_0 env opcode s"
proof -
  assume l: "opcode AND 0xF000 = 0x4000"
  have "opcode AND 0xC000 = 0x4000" using submask [OF l, of "0xC000"] by simp
  then show "dispatch env opcode s = dispatch_line_4 env opcode s" using l by (simp add: dispatch_def)
qed (simp add: dispatch_def)

text \<open>C23: The privileged instructions do nothing in user mode but raise the privilege violation: RESET,
  STOP, RTE, the immediate operations on SR, MOVE USP, MOVE to SR and (on the 68010) MOVEC
  leave every register and the bus alone and go straight to vector 8, with the program
  counter back on the instruction. (MOVE to SR with a valid data source only.)\<close>

theorem privileged_in_user_mode:
  assumes "\<not> sr_flag M68K_SR_S s"
    and "opcode \<in> {0x4E70, 0x4E72, 0x4E73, 0x027C, 0x007C, 0x0A7C} \<or> opcode AND 0xFFF0 = 0x4E60 \<or>
      (opcode AND 0xFFC0 = 0x46C0 \<and> \<not> not_data_source (bits opcode 3 7) (bits opcode 0 7)) \<or>
      (opcode \<in> {0x4E7A, 0x4E7B} \<and> model s = M68K_MODEL_68010)"
  shows "\<exists>n. dispatch env opcode s = costing n (m68k_exception env 8 (s\<lparr>pc := pc s - 2\<rparr>))"
proof -
  note priv = m68k_exec_stop_def m68k_exec_reset_def m68k_exec_rte_def m68k_exec_movec_def
    m68k_exec_andi_def m68k_exec_ori_def m68k_exec_eori_def m68k_exec_move_usp_def m68k_exec_move_sr_def
    immediate_to_sr_def privilege_violation_def from_68010_def Let_def assms(1)
  consider "opcode \<in> {0x4E70, 0x4E72, 0x4E73}" | "opcode \<in> {0x027C, 0x007C, 0x0A7C}"
    | "opcode AND 0xFFF0 = 0x4E60" 
    | "opcode AND 0xFFC0 = 0x46C0" "\<not> not_data_source (bits opcode 3 7) (bits opcode 0 7)"
    | "opcode \<in> {0x4E7A, 0x4E7B}" "model s = M68K_MODEL_68010"
    using assms(2) by blast
  then show ?thesis
  proof cases
    case 1
    then have "opcode AND 0xF000 = 0x4000" by auto
    then show ?thesis
      using 1 unfolding dispatch_line_4 [OF \<open>opcode AND 0xF000 = 0x4000\<close>] dispatch_line_4_def
      by (elim insertE emptyE; simp add: priv; blast)
  next
    case 2
    then have l: "opcode AND 0xF000 = 0" by auto
    show ?thesis
      using 2 unfolding dispatch_line_0 [OF l] dispatch_line_0_def Let_def
      by (elim insertE emptyE; simp add: priv bits_def; blast)
  next
    case 3
    have l: "opcode AND 0xF000 = 0x4000"
      using submask [OF 3, of "0xF000"] by simp
    have k: "opcode AND 0xFFF8 \<noteq> 0x4848"
      using submask [of opcode "0xFFF8" "0x4848" "0xFFF0"] 3 by auto
    have "opcode \<noteq> x" if "x AND 0xFFF0 \<noteq> 0x4E60" for x using that 3 by auto
    then have "opcode \<noteq> 0x4E70" "opcode \<noteq> 0x4E71" "opcode \<noteq> 0x4E72" "opcode \<noteq> 0x4E73" "opcode \<noteq> 0x4E74"
      "opcode \<noteq> 0x4E75" "opcode \<noteq> 0x4E76" "opcode \<noteq> 0x4E77" "opcode \<noteq> 0x4E7A" "opcode \<noteq> 0x4E7B"
      by simp_all
    then show ?thesis
      using 3 k unfolding dispatch_line_4 [OF l] dispatch_line_4_def by (simp add: priv) blast
  next
    case 4
    have l: "opcode AND 0xF000 = 0x4000"
      using submask [OF 4(1), of "0xF000"] by simp
    have k: "opcode AND 0xFFF8 \<noteq> 0x4848" "opcode AND 0xFFF0 \<noteq> 0x4E40" "opcode AND 0xFFF0 \<noteq> 0x4E60"
      using submask [of opcode "0xFFF8" "0x4848" "0xFFC0"] submask [of opcode "0xFFF0" _ "0xFFC0"] 4(1)
      by auto
    have "opcode \<noteq> x" if "x AND 0xFFC0 \<noteq> 0x46C0" for x using that 4(1) by auto
    then have "opcode \<noteq> 0x4E70" "opcode \<noteq> 0x4E71" "opcode \<noteq> 0x4E72" "opcode \<noteq> 0x4E73" "opcode \<noteq> 0x4E74"
      "opcode \<noteq> 0x4E75" "opcode \<noteq> 0x4E76" "opcode \<noteq> 0x4E77" "opcode \<noteq> 0x4E7A" "opcode \<noteq> 0x4E7B"
      by simp_all
    then show ?thesis
      using 4 k unfolding dispatch_line_4 [OF l] dispatch_line_4_def by (simp add: priv) blast
  next
    case 5
    then have l: "opcode AND 0xF000 = 0x4000" by auto
    show ?thesis
      using 5 unfolding dispatch_line_4 [OF l] dispatch_line_4_def
      by (elim insertE emptyE; simp add: priv; blast)
  qed
qed


lemma privileged_in_user_mode_witness:
  "\<exists>n. dispatch no_callbacks 0x46C1 trap_state = costing n (m68k_exception no_callbacks 8 (trap_state\<lparr>pc := 0x1FE\<rparr>))"
  using privileged_in_user_mode [of trap_state "0x46C1" no_callbacks]
  by (simp add: sr_flag_def bits_def not_data_source_def)

subsection \<open>When interrupts are taken\<close>

lemma interrupt_level:
  assumes "0 \<le> l" "l \<le> 7"
  shows "uint (drop_bit 8 ((w AND NOT 0x0700) OR push_bit 8 (word_of_int l)) AND (7 :: u16)) = l"
    and "((w AND NOT 0x0700) OR push_bit 8 (word_of_int l)) AND M68K_SR_S = w AND M68K_SR_S"
proof -
  define k where "k = (word_of_int l :: u16)"
  have u: "uint k = l" using assms by (simp add: k_def unsigned_of_int take_bit_int_eq_self)
  then have "uint k < 2 ^ 3" using assms by simp
  then have "take_bit 3 k = k"
    by (metis take_bit_int_eq_self uint_ge_0 unsigned_take_bit_eq unsigned_word_eqI)
  then have top: "\<not> bit k n" if "3 \<le> n" for n using that by (metis bit_take_bit_iff not_le)
  have m: "(0x0700 :: u16) = push_bit 8 (mask 3)" "(7 :: u16) = mask 3" "M68K_SR_S = push_bit 13 1"
    by (simp_all add: mask_eq_exp_minus_1 M68K_SR_S_def)
  have "drop_bit 8 ((w AND NOT 0x0700) OR push_bit 8 k) AND 7 = k"
    unfolding m by (rule bit_word_eqI) (use top in \<open>auto simp: bit_simps simp flip: not_le\<close>)
  then show "uint (drop_bit 8 ((w AND NOT 0x0700) OR push_bit 8 (word_of_int l)) AND (7 :: u16)) = l"
    using u by (simp only: k_def)
  have "push_bit 8 k AND 2 ^ 13 = 0"
    unfolding and_exp_eq_0_iff_not_bit using top [of 5] by (simp add: bit_push_bit_iff)
  then have "push_bit 8 k AND M68K_SR_S = 0" by (simp add: M68K_SR_S_def)
  moreover have "NOT 0x0700 AND M68K_SR_S = M68K_SR_S" by (simp add: M68K_SR_S_def)
  ultimately have "((w AND NOT 0x0700) OR push_bit 8 k) AND M68K_SR_S = w AND M68K_SR_S"
    by (simp only: bit.conj_disj_distrib2 and.assoc or.right_neutral)
  then show "((w AND NOT 0x0700) OR push_bit 8 (word_of_int l)) AND M68K_SR_S = w AND M68K_SR_S"
    by (simp only: k_def)
qed

text \<open>C22: Interrupts: a pending request is taken exactly when its level exceeds the mask in the status
  register, or for level 7 when the non-maskable latch is set; otherwise the context is
  untouched. A request that is taken pushes the frame of its autovector on the supervisor
  stack and starts the handler in supervisor mode with the mask raised to its level, the
  request and the latch clear, and the CPU running. (A 68000 with a plain bus, no interrupt
  acknowledge and no program-counter callback, the frame and the vector in bound memory.)\<close>

theorem check_interrupts_meaning:
  assumes "plain_bus env" and "pc_changed_cb env = None" and "int_ack env = None" and "model s = M68K_MODEL_68000"
    and l: "l = irq_level s" "0 \<le> l" "l \<le> 7"
    and m: "m = uint (drop_bit 8 (sr s) AND 7)"
    and v: "v = 24 + l" and "even (entry_sp s)" and "in_ram s (entry_sp s - 6) 6"
    and "even (vbr s)" and "in_ram s (vbr s + word_of_int v * 4) 4"
  shows "if l \<noteq> 0 \<and> (if l = 7 then nmi_pending s else m < l)
    then (\<exists>s'. check_interrupts env s = Ret True s' \<and>
      pc s' = get32 (ram s') (mask_address_24 (vbr s + word_of_int v * 4)) \<and>
      get16 (ram s') (mask_address_24 (entry_sp s - 6)) = sr s \<and>
      get32 (ram s') (mask_address_24 (entry_sp s - 4)) = pc s \<and>
      uint (drop_bit 8 (sr s') AND 7) = l \<and> sr_flag M68K_SR_S s' \<and>
      irq_level s' = 0 \<and> \<not> nmi_pending s' \<and> \<not> stopped s' \<and>
      d_regs s' = d_regs s \<and> a_regs s' = (a_regs s)(7 := entry_sp s - 6))
    else check_interrupts env s = Ret False s"
proof -
  have fc: "fc_cb env = None" using assms(1) by (simp add: plain_bus_def)
  have mb: "int (bits (sr s) 8 7) = m" by (simp add: bits_def m)
  have v4: "v \<noteq> 2" "v \<noteq> 3" "v = 4 \<longrightarrow> illg_cb env = None" "\<not> (v = 4 \<or> v = 8 \<or> v = 10 \<or> v = 11)"
    using l v by auto
  note e = m68k_exception_plain [OF assms(1,2,4) v4(1-3) assms(10-13)]
  define raised where "raised w = (w AND NOT 0x0700) OR push_bit 8 (word_of_int l)" for w :: u16
  have level: "uint (drop_bit 8 (raised w) AND 7) = l" "raised w AND M68K_SR_S = w AND M68K_SR_S" for w
    using interrupt_level [OF l(2,3)] by (simp_all only: raised_def)
  show ?thesis
  proof (cases "l \<noteq> 0 \<and> (if l = 7 then nmi_pending s else m < l)")
    case True
    then have "check_interrupts env s = andthen (m68k_exception env v s) (\<lambda>_ s.
       Ret True (s\<lparr>sr := raised (sr s), nmi_pending := False,
         irq_level := 0, stopped := False\<rparr>))"
      unfolding check_interrupts_def Let_def mb l(1) [symmetric] assms(3) fc option.case prod.case v [symmetric]
        raised_def
      by (simp cong: if_cong)
    then show ?thesis
      using True v4(4) frame_ram_fields [OF assms(11), where v = v]
      by (simp add: e pushed_pc_def sr_flag_def level ram_def)
  next
    case False
    then show ?thesis
      by (auto simp: check_interrupts_def Let_def mb l(1) [symmetric])
  qed
qed

lemma check_interrupts_meaning_witness:
  "\<exists>s'. check_interrupts no_callbacks (trap_state\<lparr>irq_level := 4, stopped := True\<rparr>) = Ret True s' \<and>
     uint (drop_bit 8 (sr s') AND 7) = 4 \<and> \<not> stopped s'"
proof -
  have p: "pc_changed_cb no_callbacks = None" "int_ack no_callbacks = None" by (simp_all add: no_callbacks_def)
  let ?s = "trap_state\<lparr>irq_level := 4, stopped := True\<rparr>"
  have "model ?s = M68K_MODEL_68000" "even (entry_sp ?s)" "in_ram ?s (entry_sp ?s - 6) 6" "even (vbr ?s)"
    "in_ram ?s (vbr ?s + word_of_int 28 * 4) 4"
    using trap_state_ok by (simp_all add: entry_sp_def in_ram_def mask_address_24_def)
  from check_interrupts_meaning [OF plain_bus_no_callbacks p this(1) refl _ _ refl _ this(2-5)]
  show ?thesis by auto
qed

end
