(* ===== verification/M68k_Programs.thy ===== *)
theory M68k_Programs
  imports M68k_Step
begin

section \<open>Programs in memory\<close>

text \<open>
  What programs compute when \<open>m68k_step_ex\<close> (\<open>src/m68k/m68k.c\<close>) fetches them from
  memory and executes them. \<open>step_plain\<close> reduces a step that nothing disturbs to the
  dispatch of its opcode; the theorems take ADD.L and ADDX.L from their opcode words to
  the 64-bit sum that they are meant to compute, the loop of MOVE.B and DBRA from its code to the
  block of memory that it copies, and BTST, BCHG, BCLR and BSET from their opcode words to the bit they
  test and change.
\<close>

subsection \<open>Multiple-precision addition\<close>

lemma le_scaled:
  fixes M :: int
  assumes "0 < M" "0 \<le> y" "y < M"
  shows "K * M \<le> Z * M + y \<longleftrightarrow> K \<le> Z"
proof (cases "K \<le> Z")
  case True
  then have "K * M \<le> Z * M" using assms(1) by (intro mult_right_mono) simp_all
  then show ?thesis using True assms(2) by simp
next
  case False
  then have "(Z + 1) * M \<le> K * M" using assms(1) by (intro mult_right_mono) simp_all
  then show ?thesis using False assms(3) by (simp add: algebra_simps)
qed

text \<open>A 64-bit number in two data registers.\<close>

definition pair :: "u32 \<Rightarrow> u32 \<Rightarrow> 64 word" where
  "pair hi lo = push_bit 32 (ucast hi) OR ucast lo"

lemma pair_values: "uint (pair hi lo) = uint hi * 2 ^ 32 + uint lo" "sint (pair hi lo) = sint hi * 2 ^ 32 + uint lo"
proof -
  have "pair hi lo = push_bit 32 (ucast hi) + ucast lo"
    unfolding pair_def
    by (rule disjunctive_add_eq_or [symmetric], rule bit_word_eqI) (auto simp: bit_simps dest: bit_imp_le_length)
  moreover have h: "0 \<le> uint hi" "uint hi < 2 ^ 32" "0 \<le> uint lo" "uint lo < 2 ^ 32"
    using uint_lt2p [of hi] uint_lt2p [of lo] by simp_all
  then have "uint (push_bit 32 (ucast hi) :: 64 word) = uint hi * 2 ^ 32"
    by (simp only: unsigned_push_bit_eq unsigned_ucast_eq)
      (simp add: push_bit_eq_mult take_bit_int_eq_self)
  ultimately show u: "uint (pair hi lo) = uint hi * 2 ^ 32 + uint lo"
    using h by (simp add: uint_word_ariths unsigned_ucast_eq take_bit_int_eq_self mod_pos_pos_trivial)
  have big: "2 ^ 63 \<le> uint (pair hi lo) \<longleftrightarrow> 2 ^ 31 \<le> uint hi"
    unfolding u using le_scaled [of "2 ^ 32" "uint lo" "2 ^ 31" "uint hi"] h by simp
  show "sint (pair hi lo) = sint hi * 2 ^ 32 + uint lo"
    using sint_half(2) [of "pair hi lo"] sint_half(2) [of hi] big u by (simp split: if_splits)
qed

lemma pair_zero: "(pair hi lo = 0) = (hi = 0 \<and> lo = 0)"
proof -
  have "(uint (pair hi lo) = 0) = (uint hi = 0 \<and> uint lo = 0)"
    unfolding pair_values using uint_ge_0 [of hi] uint_ge_0 [of lo] by (auto simp: add_nonneg_eq_0_iff)
  then show ?thesis by (simp only: uint_0_iff)
qed

text \<open>Two 32-bit additions, the second with the carry of the first, as one 64-bit addition.\<close>

lemma add_pair:
  fixes al ah bl bh :: u32
  assumes c: "c = (if 2 ^ 32 \<le> uint al + uint bl then 1 else 0)"
  shows "pair (ah + bh + of_int c) (al + bl) = pair ah al + pair bh bl"
    and "2 ^ 32 \<le> uint ah + uint bh + c \<longleftrightarrow> 2 ^ 64 \<le> uint (pair ah al) + uint (pair bh bl)"
    and "(- (2 ^ 31) \<le> sint ah + sint bh + c \<and> sint ah + sint bh + c < 2 ^ 31) \<longleftrightarrow>
      - (2 ^ 63) \<le> sint (pair ah al) + sint (pair bh bl) \<and> sint (pair ah al) + sint (pair bh bl) < 2 ^ 63"
proof -
  have b: "0 \<le> uint w" "uint w < 2 ^ 32" for w :: u32 using uint_lt2p [of w] by simp_all
  have l: "uint (al + bl) = uint al + uint bl - 2 ^ 32 * c"
    using b [of al] b [of bl] by (auto simp: uint_word_ariths c mod_wrap mod_pos_pos_trivial)
  define y where "y = uint al + uint bl - c * 2 ^ 32"
  have y: "0 \<le> y" "y < 2 ^ 32" using b [of al] b [of bl] by (auto simp: y_def c)
  have u: "uint (pair ah al) + uint (pair bh bl) = (uint ah + uint bh + c) * 2 ^ 32 + y"
    and s: "sint (pair ah al) + sint (pair bh bl) = (sint ah + sint bh + c) * 2 ^ 32 + y"
    unfolding pair_values y_def by (simp_all add: algebra_simps)
  note scaled = le_scaled [OF _ y]
  show "2 ^ 32 \<le> uint ah + uint bh + c \<longleftrightarrow> 2 ^ 64 \<le> uint (pair ah al) + uint (pair bh bl)"
    unfolding u using scaled [of "2 ^ 32" "uint ah + uint bh + c"] by simp
  show "(- (2 ^ 31) \<le> sint ah + sint bh + c \<and> sint ah + sint bh + c < 2 ^ 31) \<longleftrightarrow>
      - (2 ^ 63) \<le> sint (pair ah al) + sint (pair bh bl) \<and> sint (pair ah al) + sint (pair bh bl) < 2 ^ 63"
    unfolding s using scaled [of "- (2 ^ 31)" "sint ah + sint bh + c"] scaled [of "2 ^ 31" "sint ah + sint bh + c"]
    by (simp add: not_le [symmetric])
  have "uint (ah + bh + of_int c) = (uint ah + uint bh + c) mod 2 ^ 32"
    using c by (auto simp: uint_word_ariths mod_simps)
  then have h: "\<exists>k. uint (ah + bh + of_int c) = uint ah + uint bh + c - 2 ^ 32 * k"
    by (metis minus_mult_div_eq_mod)
  then obtain k where "uint (ah + bh + of_int c) = uint ah + uint bh + c - 2 ^ 32 * k" ..
  then have "uint (pair (ah + bh + of_int c) (al + bl)) = uint (pair ah al) + uint (pair bh bl) - 2 ^ 64 * k"
    unfolding pair_values l by (simp add: algebra_simps)
  then have "uint (pair (ah + bh + of_int c) (al + bl)) mod 2 ^ 64 = (uint (pair ah al) + uint (pair bh bl)) mod 2 ^ 64"
    by (simp add: mod_diff_right_eq [symmetric])
  then have "uint (pair (ah + bh + of_int c) (al + bl)) = uint (pair ah al + pair bh bl)"
    using uint_lt2p [of "pair (ah + bh + of_int c) (al + bl)"] by (simp add: uint_word_ariths mod_pos_pos_trivial)
  then show "pair (ah + bh + of_int c) (al + bl) = pair ah al + pair bh bl"
    by (rule unsigned_word_eqI)
qed

subsection \<open>Instructions fetched from memory\<close>

text \<open>The context the dispatch of an opcode starts from, and a step of a program in plain memory
  that no interrupt, trace trap or hook disturbs.\<close>

definition issued :: "u16 \<Rightarrow> 'h cpu \<Rightarrow> 'h cpu" where
  "issued opcode s = s\<lparr>exception_thrown := 0, in_address_error := False, in_bus_error := False,
     fault_program_access := False, fault_valid := False, group0_fault := False,
     fault_trap_active := True, ppc := pc s, fault_pc_valid := False, pc := pc s + 2, ir := opcode\<rparr>"

definition undisturbed :: "'h host_callbacks \<Rightarrow> 'h cpu \<Rightarrow> bool" where
  "undisturbed env s \<longleftrightarrow> plain_bus env \<and> pc_changed_cb env = None \<and> instr_hook_cb env = None \<and>
     irq_level s = 0 \<and> \<not> stopped s \<and> sr s AND 0x8000 = 0"

lemma step_plain:
  assumes "undisturbed env s" and "even (pc s)" and "in_ram s (pc s) 2"
    and "opcode = get16 (ram s) (mask_address_24 (pc s))"
    and d: "dispatch env opcode (issued opcode s) = Ret n s'"
    and "exception_thrown s' = 0" "\<not> group0_fault s'" and "even (pc s')"
  shows "m68k_step_ex env ce s = Ret () (spend n (s'\<lparr>fault_trap_active := False\<rparr>))"
proof -
  define s1 where "s1 = s\<lparr>exception_thrown := 0, in_address_error := False, in_bus_error := False,
     fault_program_access := False, fault_valid := False, group0_fault := False,
     fault_trap_active := True, ppc := pc s, fault_pc_valid := False\<rparr>"
  have f: "m68k_fetch env s1 = Ret opcode (s1\<lparr>pc := pc s + 2\<rparr>)"
    using fetch_plain [of env s1] assms(1-4) by (simp add: s1_def undisturbed_def in_ram_def ram_def)
  have i: "s1\<lparr>pc := pc s + 2, ir := opcode\<rparr> = issued opcode s" "\<not> group0_fault (s1\<lparr>pc := pc s + 2\<rparr>)"
    by (simp_all add: s1_def issued_def)
  define s0 where "s0 = s\<lparr>exception_thrown := 0\<rparr>\<lparr>in_address_error := False\<rparr>\<lparr>in_bus_error := False\<rparr>
     \<lparr>fault_program_access := False\<rparr>\<lparr>fault_valid := False\<rparr>\<lparr>group0_fault := False\<rparr>\<lparr>fault_trap_active := False\<rparr>"
  have s0: "s0\<lparr>fault_trap_active := True\<rparr>\<lparr>ppc := pc s0\<rparr>\<lparr>fault_pc_valid := False\<rparr> = s1" "stopped s0 = stopped s"
    "sr s0 = sr s"
    by (simp_all add: s0_def s1_def)
  have r: "run_instruction env ce False s0 = Ret () (spend n (s'\<lparr>fault_trap_active := False\<rparr>))"
    using f i d assms(6-8) even_word [of "pc s'"]
    by (simp add: run_instruction_def finish_step_def exception_cost_def Let_def s0 [unfolded Let_def])
  have "(if ce then check_interrupts env s0 else Ret False s0) = Ret False s0"
    using assms(1) by (simp add: check_interrupts_def undisturbed_def s0_def)
  then show ?thesis
    using assms(1) unfolding m68k_step_ex_def Let_def s0_def [symmetric]
    by (simp add: undisturbed_def s0(2,3) r catch_fault_def)
qed

lemma field_word: "drop_bit n (push_bit n m) = (m :: u16) \<Longrightarrow> bits w n m = unat (drop_bit n (w AND push_bit n m))"
  by (simp add: bits_def)

lemma merge_long [simp]: "merge_size SIZE_LONG w r = r"
proof -
  have v: "value_mask SIZE_LONG = (mask 32 :: u32)" by (simp add: mask_eq_exp_minus_1)
  show ?thesis
    unfolding merge_size_def v by (intro bit_word_eqI) (auto simp: bit_simps)
qed

text \<open>ADD.L and ADDX.L of data registers, and what they compute.\<close>

lemma add_long_registers:
  assumes "opcode AND 0xF1F8 = 0xD080" and "x = bits opcode 9 7" and "y = bits opcode 0 7"
    and r: "r = d_regs s x + d_regs s y"
  shows "dispatch env opcode s = Ret 8 (update_flags_add (d_regs s y) (d_regs s x) r SIZE_LONG (set_d x r s))"
proof -
  have l: "opcode AND 0xF000 = 0xD000" "opcode AND 0x00F8 = 0x0080" "opcode AND 0x01C0 = 0x0080"
    "opcode AND 0x0038 = 0" "opcode AND 0xC000 = 0xC000" "opcode AND 0xF100 = 0xD000" "opcode AND 0x0100 = 0"
    using submask [OF assms(1)] by simp_all
  have b: "bits opcode 6 7 = 2" "bits opcode 3 7 = 0" "bits opcode 8 1 = 0"
    using l field_word [of 6 7 opcode] field_word [of 3 7 opcode] field_word [of 8 1 opcode] by simp_all
  show ?thesis
    using assms(2-4) l b
    by (simp add: dispatch_def dispatch_line_D_def dispatch_add_sub_def Let_def m68k_exec_add_def
        alu_opmode_def alu_invalid_def alu_base_cycles_def opmode_size_def costing_def)
qed

lemma addx_long_registers:
  assumes "opcode AND 0xF1F8 = 0xD180" and "x = bits opcode 9 7" and "y = bits opcode 0 7"
    and r: "r = d_regs s x + d_regs s y + x_bit s"
  shows "dispatch env opcode s = Ret 8 (sticky_zero (sr_flag M68K_SR_Z s) r SIZE_LONG
    (update_flags_add (d_regs s y) (d_regs s x) r SIZE_LONG (set_d x r s)))"
proof -
  have l: "opcode AND 0xF000 = 0xD000" "opcode AND 0x01C0 = 0x0180" "opcode AND 0x0038 = 0"
    "opcode AND 0xC000 = 0xC000" "opcode AND 0xF100 = 0xD100" "opcode AND 0x00C0 = 0x0080" "opcode AND 0x0008 = 0"
    using submask [OF assms(1)] by simp_all
  have b: "bits opcode 6 7 = 6" "bits opcode 3 7 = 0" "bits opcode 6 3 = 2" "bits opcode 3 1 = 0"
    using l field_word [of 6 7 opcode] field_word [of 3 7 opcode] field_word [of 6 3 opcode]
      field_word [of 3 1 opcode] by simp_all
  show ?thesis
    using assms(2-4) l b
    by (simp add: dispatch_def dispatch_line_D_def dispatch_add_sub_def Let_def m68k_exec_addx_def
        addx_operands_def size_code_def costing_def)
qed

lemma sticky_zero_bits:
  "sr_flag M68K_SR_Z (sticky_zero z r sz s) = (z \<and> uval sz r = 0)"
  "sr_flag M68K_SR_C (sticky_zero z r sz s) = sr_flag M68K_SR_C s"
  "sr_flag M68K_SR_V (sticky_zero z r sz s) = sr_flag M68K_SR_V s"
  "sr_flag M68K_SR_N (sticky_zero z r sz s) = sr_flag M68K_SR_N s"
  "sr_flag M68K_SR_X (sticky_zero z r sz s) = sr_flag M68K_SR_X s"
  unfolding sticky_zero_def mask_uval
  by (auto simp: sr_flag_clear_other sr_flag_clear_same sr_bit_defs)

lemma sticky_zero_registers [simp]:
  "d_regs (sticky_zero z r sz s) = d_regs s" "a_regs (sticky_zero z r sz s) = a_regs s"
  "pc (sticky_zero z r sz s) = pc s"
  by (simp_all add: sticky_zero_def sr_clear_def)

lemma update_flags_add_long:
  assumes "r = b + a + of_int c" and "c = 0 \<or> c = 1"
    and "s' = update_flags_add a b r SIZE_LONG s"
  shows "sr_flag M68K_SR_C s' = (2 ^ 32 \<le> uint b + uint a + c)"
    and "sr_flag M68K_SR_V s' = (\<not> (- (2 ^ 31) \<le> sint b + sint a + c \<and> sint b + sint a + c < 2 ^ 31))"
    and "sr_flag M68K_SR_N s' = (sint r < 0)" and "sr_flag M68K_SR_Z s' = (r = 0)"
    and "sr_flag M68K_SR_X s' = sr_flag M68K_SR_C s'"
proof -
  note bits = update_flags_add_bits [OF assms(3)] and sums = add_flags_int [OF assms(1,2), of SIZE_LONG]
  have u: "uval SIZE_LONG w = uint w" "sval SIZE_LONG w = sint w" for w
    by (simp_all add: uval_def sval_def)
  have "operand_bits SIZE_LONG = 32" by (simp add: operand_bits_def)
  note sums = sums [unfolded u this] and bits = bits [unfolded u]
  show "sr_flag M68K_SR_C s' = (2 ^ 32 \<le> uint b + uint a + c)" using sums(1) bits(4) by blast
  have "sr_flag M68K_SR_V s' = (sint b + sint a + c < - (2 ^ (32 - 1)) \<or> 2 ^ (32 - 1) \<le> sint b + sint a + c)"
    using sums(2) bits(3) by blast
  then show "sr_flag M68K_SR_V s' = (\<not> (- (2 ^ 31) \<le> sint b + sint a + c \<and> sint b + sint a + c < 2 ^ 31))"
    by auto
  show "sr_flag M68K_SR_N s' = (sint r < 0)" "sr_flag M68K_SR_Z s' = (r = 0)"
      "sr_flag M68K_SR_X s' = sr_flag M68K_SR_C s'"
    using bits by (simp_all add: uint_0_iff)
qed

text \<open>What the two instructions leave together, from any context.\<close>

lemma add_addx_flags:
  assumes ld: "s1 = update_flags_add al bl (bl + al) SIZE_LONG t"
    and hi: "s2 = sticky_zero (sr_flag M68K_SR_Z u) r SIZE_LONG (update_flags_add ah bh r SIZE_LONG w)"
    and u: "sr u = sr s1" and r: "r = bh + ah + x_bit u"
    and A: "A = pair ah al" and B: "B = pair bh bl"
  shows "pair r (bl + al) = A + B \<and> sr_flag M68K_SR_C s2 = (2 ^ 64 \<le> uint A + uint B) \<and>
    sr_flag M68K_SR_X s2 = sr_flag M68K_SR_C s2 \<and>
    sr_flag M68K_SR_V s2 = (\<not> (- (2 ^ 63) \<le> sint A + sint B \<and> sint A + sint B < 2 ^ 63)) \<and>
    sr_flag M68K_SR_N s2 = (sint (A + B) < 0) \<and> sr_flag M68K_SR_Z s2 = (A + B = 0)"
proof -
  have z: "bl + al = bl + al + of_int 0" by simp
  note f1 = update_flags_add_long [OF z disjI1 [OF refl] ld]
  define c where "c = (if 2 ^ 32 \<le> uint al + uint bl then 1 else 0 :: int)"
  have fl: "sr_flag m u = sr_flag m s1" for m by (simp add: sr_flag_def u)
  have x: "x_bit u = of_int c"
    using f1(1,5) by (simp add: x_bit_def fl c_def add.commute)
  have rr: "r = bh + ah + of_int c" "c = 0 \<or> c = 1" by (simp_all add: r x c_def)
  note f2 = update_flags_add_long [OF rr refl, of w]
  note p = add_pair [OF c_def, of ah bh]
  have sum: "pair r (bl + al) = A + B"
    using p(1) by (simp add: rr A B add.commute)
  have n: "(sint (A + B) < 0) = (sint r < 0)"
    unfolding sum [symmetric] pair_values using le_scaled [of "2 ^ 32" "uint (bl + al)" 0 "sint r"] uint_lt2p [of "bl + al"]
    by (simp add: not_le [symmetric])
  have zero: "(A + B = 0) = (r = 0 \<and> bl + al = 0)"
    unfolding sum [symmetric] by (rule pair_zero)
  show ?thesis
    unfolding hi sticky_zero_bits f2 fl f1(4) sum n zero
    using p(2,3) by (simp add: A B uval_def uint_0_iff add.commute conj_commute)
qed

lemma issued_same:
  "d_regs (issued opcode s) = d_regs s" "a_regs (issued opcode s) = a_regs s" "sr (issued opcode s) = sr s"
  "pc (issued opcode s) = pc s + 2" "cycles_remaining (issued opcode s) = cycles_remaining s" "memory (issued opcode s) = memory s"
  "exception_thrown (issued opcode s) = 0" "\<not> group0_fault (issued opcode s)"
  by (simp_all add: issued_def)

lemma flags_keep_control:
  "exception_thrown (update_flags_add a b r sz s) = exception_thrown s"
  "group0_fault (update_flags_add a b r sz s) = group0_fault s"
  "memory (update_flags_add a b r sz s) = memory s" "memory_size (update_flags_add a b r sz s) = memory_size s"
  "irq_level (update_flags_add a b r sz s) = irq_level s" "stopped (update_flags_add a b r sz s) = stopped s"
  "exception_thrown (sticky_zero z r sz s) = exception_thrown s"
  "cycles_remaining (update_flags_add a b r sz s) = cycles_remaining s"
  "cycles_remaining (sticky_zero z r sz s) = cycles_remaining s"
  "group0_fault (sticky_zero z r sz s) = group0_fault s" "memory (sticky_zero z r sz s) = memory s"
  by (simp_all add: update_flags_add_def sr_set_if_def sr_clear_def sticky_zero_def Let_def)

text \<open>C25: A 64-bit addition in two instructions: when ADD.L Dy,Dx stands at the program counter in
  bound memory and ADDX.L Dv,Du behind it, with u and v other registers than x, two steps add
  the 64-bit number in Dv and Dy to the one in Du and Dx: the pair of destinations holds the sum
  modulo 2 to the 64th, carry and extend say that the unsigned sum does not fit 64 bits, overflow
  that the signed one does not, N and Z describe the 64-bit result, and every other register and
  the memory are kept, for 16 cycles. (No interrupt, trace or stop is pending, and the host has
  no bus, instruction or program-counter callbacks.)\<close>

theorem add_addx_64:
  assumes "undisturbed env s" and "even (pc s)" and "in_ram s (pc s) 4"
    and "get16 (ram s) (mask_address_24 (pc s)) AND 0xF1F8 = 0xD080"
    and "get16 (ram s) (mask_address_24 (pc s + 2)) AND 0xF1F8 = 0xD180"
    and x: "x = bits (get16 (ram s) (mask_address_24 (pc s))) 9 7"
    and y: "y = bits (get16 (ram s) (mask_address_24 (pc s))) 0 7"
    and x': "x' = bits (get16 (ram s) (mask_address_24 (pc s + 2))) 9 7"
    and y': "y' = bits (get16 (ram s) (mask_address_24 (pc s + 2))) 0 7"
    and "x \<noteq> x'" "x \<noteq> y'"
    and A: "A = pair (d_regs s y') (d_regs s y)" and B: "B = pair (d_regs s x') (d_regs s x)"
  shows "\<exists>s'. andthen (m68k_step_ex env ce s) (\<lambda>_. m68k_step_ex env ce) = Ret () s' \<and>
    pair (d_regs s' x') (d_regs s' x) = A + B \<and>
    (\<forall>i. i \<noteq> x \<longrightarrow> i \<noteq> x' \<longrightarrow> d_regs s' i = d_regs s i) \<and> a_regs s' = a_regs s \<and>
    pc s' = pc s + 4 \<and> memory s' = memory s \<and> cycles_remaining s' = cycles_remaining s - 16 \<and>
    sr_flag M68K_SR_C s' = (2 ^ 64 \<le> uint A + uint B) \<and> sr_flag M68K_SR_X s' = sr_flag M68K_SR_C s' \<and>
    sr_flag M68K_SR_V s' = (\<not> (- (2 ^ 63) \<le> sint A + sint B \<and> sint A + sint B < 2 ^ 63)) \<and>
    sr_flag M68K_SR_N s' = (sint (A + B) < 0) \<and> sr_flag M68K_SR_Z s' = (A + B = 0)"
proof -
  define o1 where "o1 = get16 (ram s) (mask_address_24 (pc s))"
  define o2 where "o2 = get16 (ram s) (mask_address_24 (pc s + 2))"
  define lo where "lo = d_regs s x + d_regs s y"
  define t1 where "t1 = update_flags_add (d_regs s y) (d_regs s x) lo SIZE_LONG (set_d x lo (issued o1 s))"
  define s1 where "s1 = spend 8 (t1\<lparr>fault_trap_active := False\<rparr>)"
  define hi where "hi = d_regs s x' + d_regs s y' + x_bit (issued o2 s1)"
  define t2 where "t2 = sticky_zero (sr_flag M68K_SR_Z (issued o2 s1)) hi SIZE_LONG
    (update_flags_add (d_regs s y') (d_regs s x') hi SIZE_LONG (set_d x' hi (issued o2 s1)))"
  have ram1: "in_ram s (pc s) 2" "in_ram s (pc s + 2) 2"
    using in_ram_less [OF assms(3), of 2] in_ram_add [OF assms(3), of 2 2] by simp_all
  have d1: "dispatch env o1 (issued o1 s) = Ret 8 t1"
    using add_long_registers [of o1 x y lo "issued o1 s" env] assms(4)
    by (simp add: t1_def lo_def x y o1_def issued_same)
  have step1: "m68k_step_ex env ce s = Ret () s1"
    unfolding s1_def using assms(2)
    by (intro step_plain [OF assms(1,2) ram1(1) o1_def d1])
      (simp_all add: t1_def flags_keep_control issued_same)
  have k: "pc s1 = pc s + 2" "ram s1 = ram s" "d_regs s1 = (d_regs s)(x := lo)" "memory s1 = memory s"
      "a_regs s1 = a_regs s" "memory_size s1 = memory_size s" "sr s1 = sr t1"
    by (simp_all add: s1_def t1_def issued_same flags_keep_control ram_def) (simp_all add: issued_def)
  have "ccr_only (set_d x lo (issued o1 s)) t1" unfolding t1_def by (rule ccr_only_flags)
  then have "sr t1 AND 0xFFE0 = sr s AND 0xFFE0" by (auto simp: ccr_only_def issued_same)
  then have "(sr t1 AND 0xFFE0) AND 0x8000 = (sr s AND 0xFFE0) AND 0x8000" by simp
  then have "sr s1 AND 0x8000 = sr s AND 0x8000" by (simp add: k(7) and.assoc)
  then have u1: "undisturbed env s1"
    using assms(1) by (simp add: undisturbed_def) (simp add: s1_def t1_def flags_keep_control issued_def)
  have d2: "dispatch env o2 (issued o2 s1) = Ret 8 t2"
    using addx_long_registers [of o2 x' y' hi "issued o2 s1" env] assms(5,10,11)
    by (simp add: t2_def hi_def x' y' o2_def [symmetric] issued_same k(3))
  have step2: "m68k_step_ex env ce s1 = Ret () (spend 8 (t2\<lparr>fault_trap_active := False\<rparr>))"
    using assms(2) ram1(2) k
    by (intro step_plain [OF u1 _ _ _ d2])
      (simp_all add: t2_def flags_keep_control issued_same in_ram_def o2_def)
  have f: "pair hi lo = A + B \<and> sr_flag M68K_SR_C t2 = (2 ^ 64 \<le> uint A + uint B) \<and>
    sr_flag M68K_SR_X t2 = sr_flag M68K_SR_C t2 \<and>
    sr_flag M68K_SR_V t2 = (\<not> (- (2 ^ 63) \<le> sint A + sint B \<and> sint A + sint B < 2 ^ 63)) \<and>
    sr_flag M68K_SR_N t2 = (sint (A + B) < 0) \<and> sr_flag M68K_SR_Z t2 = (A + B = 0)"
    unfolding lo_def
    by (rule add_addx_flags [OF t1_def [unfolded lo_def] t2_def _ hi_def A B]) (simp add: issued_same k(7))
  have same: "sr_flag m (t2\<lparr>fault_trap_active := b, cycles_remaining := n\<rparr>) = sr_flag m t2" for m b n
    by (simp add: sr_flag_def)
  have "cycles_remaining s1 = cycles_remaining s - 8"
    by (simp add: s1_def t1_def flags_keep_control issued_same)
  then have "cycles_remaining t2 = cycles_remaining s - 8" "d_regs t2 = (d_regs s)(x := lo, x' := hi)"
      "a_regs t2 = a_regs s" "pc t2 = pc s + 4" "memory t2 = memory s"
    by (simp_all add: t2_def flags_keep_control issued_same k)
  then show ?thesis
    using f assms(10) by (simp add: step1 step2 same)
qed

lemma add_addx_64_witness:
  "\<exists>s'. andthen (m68k_step_ex no_callbacks False
      (trap_state\<lparr>memory := Some (\<lambda>a. if a = 0x200 then 0xD0 else if a = 0x201 then 0x82
         else if a = 0x202 then 0xD3 else 0x83), d_regs := (\<lambda>i. if i = 1 then 0 else 0xFFFFFFFF)\<rparr>))
      (\<lambda>_. m68k_step_ex no_callbacks False) = Ret () s' \<and>
    pair (d_regs s' 1) (d_regs s' 0) = 0xFFFFFFFE \<and> sr_flag M68K_SR_C s'"
proof -
  define s where "s = trap_state\<lparr>memory := Some (\<lambda>a. if a = 0x200 then 0xD0 else if a = 0x201 then 0x82
         else if a = 0x202 then 0xD3 else 0x83), d_regs := (\<lambda>i. if i = 1 then 0 else 0xFFFFFFFF)\<rparr>"
  have o: "get16 (ram s) (mask_address_24 (pc s)) = 0xD082" "get16 (ram s) (mask_address_24 (pc s + 2)) = 0xD383"
    by (simp_all add: get16_def ram_def s_def trap_state_def m68k_init_def mask_address_24_def)
  have u: "undisturbed no_callbacks s"
    by (simp add: undisturbed_def plain_bus_no_callbacks) (simp add: no_callbacks_def s_def trap_state_def m68k_init_def)
  have i: "in_ram s (pc s) 4" "even (pc s)"
    by (simp_all add: s_def in_ram_def trap_state_def m68k_init_def mask_address_24_def)
  have r: "d_regs s 0 = 0xFFFFFFFF" "d_regs s 1 = 0" "d_regs s 2 = 0xFFFFFFFF" "d_regs s 3 = 0xFFFFFFFF"
    by (simp_all add: s_def)
  have p: "pair 0xFFFFFFFF 0xFFFFFFFF = 0xFFFFFFFFFFFFFFFF" "pair 0 0xFFFFFFFF = 0xFFFFFFFF"
    by (simp_all add: pair_def)
  have b: "0 = bits 0xD082 9 7" "2 = bits 0xD082 0 7" "1 = bits 0xD383 9 7" "3 = bits 0xD383 0 7"
    by (simp_all add: bits_def)
  from add_addx_64 [OF u i(2,1) _ _ _ _ _ _ _ _ refl refl, unfolded o, OF _ _ b, unfolded r p, where ce = False]
  show ?thesis unfolding s_def [symmetric] by auto
qed

subsection \<open>A copy loop\<close>

text \<open>What a step may change without disturbing the next one.\<close>

definition calm_step :: "'h cpu \<Rightarrow> 'h cpu \<Rightarrow> bool" where
  "calm_step s s' \<longleftrightarrow> irq_level s' = irq_level s \<and> stopped s' = stopped s \<and>
     sr s' AND 0x8000 = sr s AND 0x8000 \<and> memory_size s' = memory_size s"

lemma calm_step_undisturbed: "calm_step s s' \<Longrightarrow> undisturbed env s \<Longrightarrow> undisturbed env s'"
  by (simp add: calm_step_def undisturbed_def)

lemma set_ccr_trace: "f AND 0x8000 = 0 \<Longrightarrow> sr (set_ccr f s) AND 0x8000 = sr s AND 0x8000"
  unfolding set_ccr_def ccr_mask_def
  by (simp add: bit.conj_disj_distrib2 and.assoc sr_bit_defs)

lemma move_flags_trace: "move_flags sz v AND 0x8000 = 0"
  by (simp add: move_flags_def Let_def sr_bit_defs)

lemma calc_ea_byte_postinc:
  assumes "plain_bus env" and "in_ram s (a_regs s 0) 1"
  shows "m68k_calc_ea env 3 0 SIZE_BYTE s =
    Ret (zero_ea\<lparr>address := a_regs s 0, ea_value := ucast (ram s (mask_address_24 (a_regs s 0)))\<rparr>)
      (spend 4 (set_a 0 (a_regs s 0 + 1) (s\<lparr>fault_pc := pc s, fault_pc_valid := True\<rparr>)))"
  using assms
  by (simp add: m68k_calc_ea_def m68k_calc_ea_ex_def set_fault_pc_def Let_def m68k_ea_cycles_def
      m68k_ea_cycle_table_def ea_step_def finish_ea_def m68k_read_size_def m68k_read_8_def plain_accesses)

lemma move_byte_postinc:
  assumes "plain_bus env" and "in_ram s (a_regs s 0) 1" "in_ram s (a_regs s 1) 1"
  shows "\<exists>f p. f AND 0x8000 = 0 \<and> m68k_exec_move env 0x12D8 s = Ret ()
    (set_a 1 (a_regs s 1 + 1) (set_a 0 (a_regs s 0 + 1) (spend 8 (set_ccr f (s\<lparr>fault_pc := p,
      fault_pc_valid := True, fault_bus_word_valid := False,
      memory := Some ((ram s)(mask_address_24 (a_regs s 1) := ram s (mask_address_24 (a_regs s 0))))\<rparr>)))))"
proof -
  define b where "b = ram s (mask_address_24 (a_regs s 0))"
  have f: "bits 0x12D8 12 3 = 1" "bits 0x12D8 9 7 = 1" "bits 0x12D8 6 7 = 3" "bits 0x12D8 3 7 = 3" "bits 0x12D8 0 7 = 0"
    by (simp_all add: bits_def)
  have c: "ucast (ucast b :: u32) = b" by (rule bit_word_eqI) (simp add: bit_simps)
  have x: "m68k_exec_move env 0x12D8 s = Ret ()
    (set_a 1 (a_regs s 1 + 1) (set_a 0 (a_regs s 0 + 1) (spend 8 (set_ccr (move_flags SIZE_BYTE (ucast b)) (s\<lparr>fault_pc := pc s + 2,
      fault_pc_valid := True, fault_bus_word_valid := False,
      memory := Some ((ram s)(mask_address_24 (a_regs s 1) := b))\<rparr>)))))"
    using assms
    by (simp add: m68k_exec_move_def f move_size_def calc_ea_byte_postinc b_def [symmetric] Let_def move_dest_def
        ea_step_def m68k_ea_cycles_def m68k_ea_cycle_table_def zero_ea_def move_to_memory_def move_prepare_def
        move_fault_refund_def set_ccr_def m68k_write_size_def m68k_write_8_def plain_accesses c)
  show ?thesis
    by (intro exI [of _ "move_flags SIZE_BYTE (ucast b)"] exI [of _ "pc s + 2"])
      (simp add: move_flags_trace x b_def)
qed

lemma step_move_byte:
  assumes "undisturbed env s" and "even (pc s)" and "in_ram s (pc s) 2"
    and "get16 (ram s) (mask_address_24 (pc s)) = 0x12D8"
    and "in_ram s (a_regs s 0) 1" "in_ram s (a_regs s 1) 1"
  shows "\<exists>s'. m68k_step_ex env ce s = Ret () s' \<and> calm_step s s' \<and> pc s' = pc s + 2 \<and>
    d_regs s' = d_regs s \<and> a_regs s' = (a_regs s)(0 := a_regs s 0 + 1, 1 := a_regs s 1 + 1) \<and>
    memory s' = Some ((ram s)(mask_address_24 (a_regs s 1) := ram s (mask_address_24 (a_regs s 0)))) \<and>
    cycles_remaining s' = cycles_remaining s - 12"
proof -
  have f: "bits 0x12D8 12 3 = 1" "bits 0x12D8 9 7 = 1" "bits 0x12D8 6 7 = 3" "bits 0x12D8 3 7 = 3" "bits 0x12D8 0 7 = 0"
    by (simp_all add: bits_def)
  have pb: "plain_bus env" using assms(1) by (simp add: undisturbed_def)
  let ?s = "issued 0x12D8 s"
  have "\<exists>s'. dispatch env 0x12D8 ?s = Ret 4 s' \<and> calm_step s s' \<and> pc s' = pc s + 2 \<and>
    d_regs s' = d_regs s \<and> a_regs s' = (a_regs s)(0 := a_regs s 0 + 1, 1 := a_regs s 1 + 1) \<and>
    memory s' = Some ((ram s)(mask_address_24 (a_regs s 1) := ram s (mask_address_24 (a_regs s 0)))) \<and>
    cycles_remaining s' = cycles_remaining s - 8 \<and> exception_thrown s' = 0 \<and> \<not> group0_fault s'"
  proof -
    have "in_ram ?s (a_regs ?s 0) 1" "in_ram ?s (a_regs ?s 1) 1"
      using assms(5,6) by (simp_all add: issued_def in_ram_def)
    from move_byte_postinc [OF pb this] obtain f p where f: "f AND 0x8000 = 0"
      and m: "m68k_exec_move env 0x12D8 ?s = Ret ()
    (set_a 1 (a_regs ?s 1 + 1) (set_a 0 (a_regs ?s 0 + 1) (spend 8 (set_ccr f (?s\<lparr>fault_pc := p,
      fault_pc_valid := True, fault_bus_word_valid := False,
      memory := Some ((ram ?s)(mask_address_24 (a_regs ?s 1) := ram ?s (mask_address_24 (a_regs ?s 0))))\<rparr>)))))"
      by blast
    have d: "dispatch env 0x12D8 ?s = costing 4 (m68k_exec_move env 0x12D8 ?s)"
      by (simp add: dispatch_def dispatch_move_def bits_def)
    have r: "ram ?s = ram s" by (simp add: ram_def issued_same)
    show ?thesis
      unfolding d m costing_def
      using set_ccr_trace [OF f, of s]
      by (simp add: calm_step_def issued_same r) (simp add: set_ccr_def issued_def)
  qed
  then obtain s' where "dispatch env 0x12D8 ?s = Ret 4 s'" "calm_step s s'" "pc s' = pc s + 2"
    "d_regs s' = d_regs s" "a_regs s' = (a_regs s)(0 := a_regs s 0 + 1, 1 := a_regs s 1 + 1)"
    "memory s' = Some ((ram s)(mask_address_24 (a_regs s 1) := ram s (mask_address_24 (a_regs s 0))))"
    "cycles_remaining s' = cycles_remaining s - 8" "exception_thrown s' = 0" "\<not> group0_fault s'" by blast
  then show ?thesis
    using step_plain [OF assms(1,2,3) assms(4) [symmetric], of 4 s'] assms(2)
    by (simp add: calm_step_def)
qed

lemma step_dbra:
  assumes "undisturbed env s" and "even (pc s)" and "in_ram s (pc s) 4" and "in_ram s (pc s - 2) 2"
    and "get16 (ram s) (mask_address_24 (pc s)) = 0x51C8"
    and "get16 (ram s) (mask_address_24 (pc s + 2)) = 0xFFFC"
    and n: "n = uint (ucast (d_regs s 0) :: u16)"
  shows "\<exists>s' v. m68k_step_ex env ce s = Ret () s' \<and> calm_step s s' \<and>
    pc s' = (if n = 0 then pc s + 4 else pc s - 2) \<and> d_regs s' = (d_regs s)(0 := v) \<and>
    uint (ucast v :: u16) = (if n = 0 then 65535 else n - 1) \<and>
    v AND 0xFFFF0000 = d_regs s 0 AND 0xFFFF0000 \<and> a_regs s' = a_regs s \<and> memory s' = memory s \<and>
    cycles_remaining s' = cycles_remaining s - (if n = 0 then 14 else 10)"
proof -
  let ?s = "issued 0x51C8 s"
  have pb: "plain_bus env" "pc_changed_cb env = None" using assms(1) by (simp_all add: undisturbed_def)
  define v where "v = (d_regs s 0 AND 0xFFFF0000) OR ucast (ucast (d_regs s 0) - 1 :: u16)"
  have un: "uint (ucast (d_regs ?s 0) :: u16) = n" by (simp add: n issued_same)
  have v: "uint (ucast v :: u16) = (if n = 0 then 65535 else n - 1)" "v AND 0xFFFF0000 = d_regs s 0 AND 0xFFFF0000"
    by (simp_all add: v_def low_word_merge counter_down n)
  have i: "in_ram ?s (pc ?s) 2" "in_ram s (pc s) 2" "even (pc ?s)"
    using in_ram_add [OF assms(3), of 2 2] in_ram_less [OF assms(3), of 2] assms(2)
    by (simp_all add: issued_same in_ram_def) (simp_all add: issued_def)
  have r: "ram ?s = ram s" by (simp add: ram_def issued_same)
  have t: "pc s - 2 = pc ?s + sext16 (get16 (ram ?s) (mask_address_24 (pc ?s)))"
    by (simp add: r issued_same assms(6) sext16_def)
  have cond: "m68k_check_condition (bits 0x51C8 8 15) ?s = False"
    by (simp add: bits_def m68k_check_condition_def)
  have p4: "(pc s + 2) + 2 = pc s + 4" by simp
  have i': "in_ram ?s (pc s - 2) 2" "even (pc s - 2)"
    using assms(2,4) by (simp_all add: issued_def in_ram_def)
  have b: "0 = bits 0x51C8 0 7" by (simp add: bits_def)
  have x: "m68k_exec_dbcc env 0x51C8 ?s = Ret ()
    (let s' = set_d 0 v (?s\<lparr>pc := pc s + 4\<rparr>) in if n = 0 then spend 14 s' else (spend 10 s')\<lparr>pc := pc s - 2\<rparr>)"
    unfolding exec_dbcc_plain [OF pb i(3,1) b refl refl t i'(2,1)]
    unfolding cond if_False v_def issued_same p4 n [symmetric] ..
  have d: "dispatch env 0x51C8 ?s = costing 0 (m68k_exec_dbcc env 0x51C8 ?s)"
    by (simp add: dispatch_def dispatch_line_5_def bits_def)
  show ?thesis
    using step_plain [OF assms(1,2) i(2) assms(5) [symmetric], of 0] v assms(2)
    by (intro exI [of _ "(let s' = set_d 0 v (?s\<lparr>pc := pc s + 4\<rparr>) in if n = 0 then spend 14 s'
       else (spend 10 s')\<lparr>pc := pc s - 2\<rparr>)\<lparr>fault_trap_active := False\<rparr>"] exI [of _ v])
     (simp add: d x costing_def calm_step_def issued_same Let_def, simp add: issued_def)
qed

text \<open>The loop \<open>MOVE.B (A0)+,(A1)+; DBRA D0,loop\<close>, and the memory it leaves.\<close>

primrec steps :: "nat \<Rightarrow> 'h host_callbacks \<Rightarrow> 'h cpu \<Rightarrow> ('h, unit) out" where
  "steps 0 env s = Ret () s"
| "steps (Suc k) env s = andthen (m68k_step env s) (\<lambda>_. steps k env)"

lemma steps_two:
  "steps (Suc (Suc m)) env s = andthen (andthen (m68k_step env s) (\<lambda>_. m68k_step env)) (\<lambda>_. steps m env)"
  by (cases "m68k_step env s") simp_all

primrec copied :: "nat \<Rightarrow> u32 \<Rightarrow> u32 \<Rightarrow> (u32 \<Rightarrow> u8) \<Rightarrow> u32 \<Rightarrow> u8" where
  "copied 0 a b m = m"
| "copied (Suc k) a b m = copied k (a + 1) (b + 1) (m(mask_address_24 b := m (mask_address_24 a)))"

lemma copied_outside:
  "(\<And>i. i < k \<Longrightarrow> x \<noteq> mask_address_24 (b + of_nat i)) \<Longrightarrow> copied k a b m x = m x"
proof (induction k arbitrary: a b m)
  case (Suc k)
  have "x \<noteq> mask_address_24 (b + 1 + of_nat i)" if "i < k" for i
    using Suc.prems [of "Suc i"] that by (simp add: add.assoc)
  moreover have "x \<noteq> mask_address_24 b" using Suc.prems [of 0] by simp
  ultimately show ?case using Suc.IH [of "b + 1"] by simp
qed simp

lemma copied_inside:
  assumes "\<And>i j. i < k \<Longrightarrow> j < k \<Longrightarrow> mask_address_24 (b + of_nat i) \<noteq> mask_address_24 (a + of_nat j)"
    and "\<And>i j. i < k \<Longrightarrow> j < k \<Longrightarrow> i \<noteq> j \<Longrightarrow> mask_address_24 (b + of_nat i) \<noteq> mask_address_24 (b + of_nat j)"
    and "i < k"
  shows "copied k a b m (mask_address_24 (b + of_nat i)) = m (mask_address_24 (a + of_nat i))"
  using assms
proof (induction k arbitrary: a b m i)
  case (Suc k)
  let ?m = "m(mask_address_24 b := m (mask_address_24 a))"
  show ?case
  proof (cases i)
    case 0
    have "copied k (a + 1) (b + 1) ?m (mask_address_24 b) = ?m (mask_address_24 b)"
    proof (rule copied_outside)
      fix j assume "j < k"
      then show "mask_address_24 b \<noteq> mask_address_24 (b + 1 + of_nat j)"
        using Suc.prems(2) [of 0 "Suc j"] by (simp add: add.assoc)
    qed
    then show ?thesis by (simp add: 0)
  next
    case (Suc i')
    have "copied k (a + 1) (b + 1) ?m (mask_address_24 (b + 1 + of_nat i')) = ?m (mask_address_24 (a + 1 + of_nat i'))"
    proof (rule Suc.IH)
      show "mask_address_24 (b + 1 + of_nat i) \<noteq> mask_address_24 (a + 1 + of_nat j)" if "i < k" "j < k" for i j
        using Suc.prems(1) [of "Suc i" "Suc j"] that by (simp add: add.assoc)
      show "mask_address_24 (b + 1 + of_nat i) \<noteq> mask_address_24 (b + 1 + of_nat j)" if "i < k" "j < k" "i \<noteq> j" for i j
        using Suc.prems(2) [of "Suc i" "Suc j"] that by (simp add: add.assoc)
      show "i' < k" using Suc.prems(3) Suc by simp
    qed
    moreover have "mask_address_24 (a + 1 + of_nat i') \<noteq> mask_address_24 b"
      using Suc.prems(1) [of 0 i] Suc.prems(3) Suc by (simp add: add.assoc)
    ultimately show ?thesis using Suc by (simp add: add.assoc)
  qed
qed simp

text \<open>The code of the loop at the program counter.\<close>

definition copy_code :: "'h cpu \<Rightarrow> bool" where
  "copy_code s \<longleftrightarrow> even (pc s) \<and> in_ram s (pc s) 6 \<and>
     get16 (ram s) (mask_address_24 (pc s)) = 0x12D8 \<and>
     get16 (ram s) (mask_address_24 (pc s + 2)) = 0x51C8 \<and>
     get16 (ram s) (mask_address_24 (pc s + 4)) = 0xFFFC"

lemma copy_code_kept:
  assumes "copy_code s" and "x \<notin> span (mask_address_24 (pc s)) 6" and "ram s' = (ram s)(x := v)"
    and "memory s' \<noteq> None" and "pc s' = pc s" and "memory_size s' = memory_size s"
  shows "copy_code s'"
proof -
  have a: "mask_address_24 (pc s + of_nat d) = mask_address_24 (pc s) + of_nat d" if "d < 6" for d
    using assms(1) that by (intro mask_24_add) (simp add: copy_code_def in_ram_def)
  have s: "span (mask_address_24 (pc s + of_nat d)) 2 \<subseteq> span (mask_address_24 (pc s)) 6" if "d \<le> 4" for d
    using span_within [of d 2 6 "mask_address_24 (pc s)"] a [of d] that by simp
  have g: "get16 (ram s') (mask_address_24 (pc s + of_nat d)) = get16 (ram s) (mask_address_24 (pc s + of_nat d))"
    if "d \<le> 4" for d
    using s [OF that] assms(2,3) by (intro be16.get_local) auto
  show ?thesis
    using assms(1,4-6) g [of 0] g [of 2] g [of 4] by (simp add: copy_code_def in_ram_def)
qed

lemma copy_iteration:
  assumes "undisturbed env s" and "copy_code s" and n: "n = uint (ucast (d_regs s 0) :: u16)"
    and "in_ram s (a_regs s 0) 1" "in_ram s (a_regs s 1) 1"
    and "mask_address_24 (a_regs s 1) \<notin> span (mask_address_24 (pc s)) 6"
  shows "\<exists>s' v. andthen (m68k_step env s) (\<lambda>_. m68k_step env) = Ret () s' \<and> calm_step s s' \<and>
    pc s' = (if n = 0 then pc s + 6 else pc s) \<and> d_regs s' = (d_regs s)(0 := v) \<and>
    uint (ucast v :: u16) = (if n = 0 then 65535 else n - 1) \<and>
    v AND 0xFFFF0000 = d_regs s 0 AND 0xFFFF0000 \<and>
    a_regs s' = (a_regs s)(0 := a_regs s 0 + 1, 1 := a_regs s 1 + 1) \<and>
    memory s' = Some ((ram s)(mask_address_24 (a_regs s 1) := ram s (mask_address_24 (a_regs s 0)))) \<and>
    cycles_remaining s' = cycles_remaining s - (if n = 0 then 26 else 22)"
proof -
  have c: "even (pc s)" "in_ram s (pc s) 6" "get16 (ram s) (mask_address_24 (pc s)) = 0x12D8"
    using assms(2) by (simp_all add: copy_code_def)
  obtain s1 where s1: "m68k_step_ex env True s = Ret () s1" "calm_step s s1" "pc s1 = pc s + 2"
    "d_regs s1 = d_regs s" "a_regs s1 = (a_regs s)(0 := a_regs s 0 + 1, 1 := a_regs s 1 + 1)"
    "memory s1 = Some ((ram s)(mask_address_24 (a_regs s 1) := ram s (mask_address_24 (a_regs s 0))))"
    "cycles_remaining s1 = cycles_remaining s - 12"
    using step_move_byte [OF assms(1) c(1) in_ram_less [OF c(2)] c(3) assms(4,5), of True] by auto
  have sz: "memory_size s1 = memory_size s" using s1(2) by (simp add: calm_step_def)
  have p4: "pc s + 2 + 2 = pc s + 4" by simp
  have "copy_code (s1\<lparr>pc := pc s\<rparr>)"
    by (rule copy_code_kept [OF assms(2,6)]) (simp_all add: s1(6) sz ram_def)
  then have d: "get16 (ram s1) (mask_address_24 (pc s1)) = 0x51C8"
    "get16 (ram s1) (mask_address_24 (pc s1 + 2)) = 0xFFFC" "even (pc s1)"
    unfolding s1(3) p4 by (simp_all add: copy_code_def)
  have "in_ram s (pc s + 2) 4" "in_ram s (pc s) 2"
    using in_ram_add [OF c(2), of 2 4] in_ram_less [OF c(2), of 2] by simp_all
  then have i: "in_ram s1 (pc s1) 4" "in_ram s1 (pc s1 - 2) 2"
    by (simp_all add: in_ram_def s1(3,6) sz)
  obtain s2 v where s2: "m68k_step_ex env True s1 = Ret () s2" "calm_step s1 s2"
    "pc s2 = (if n = 0 then pc s1 + 4 else pc s1 - 2)" "d_regs s2 = (d_regs s1)(0 := v)"
    "uint (ucast v :: u16) = (if n = 0 then 65535 else n - 1)" "v AND 0xFFFF0000 = d_regs s1 0 AND 0xFFFF0000"
    "a_regs s2 = a_regs s1" "memory s2 = memory s1"
    "cycles_remaining s2 = cycles_remaining s1 - (if n = 0 then 14 else 10)"
    using step_dbra [OF calm_step_undisturbed [OF s1(2) assms(1)] d(3) i d(1,2) refl, of True] n s1(4) by auto
  have "calm_step s s2" using s1(2) s2(2) by (simp add: calm_step_def)
  moreover have "pc s2 = (if n = 0 then pc s + 6 else pc s)" by (simp add: s2(3) s1(3))
  moreover have "d_regs s2 = (d_regs s)(0 := v)" "v AND 0xFFFF0000 = d_regs s 0 AND 0xFFFF0000"
    "a_regs s2 = (a_regs s)(0 := a_regs s 0 + 1, 1 := a_regs s 1 + 1)"
    "memory s2 = Some ((ram s)(mask_address_24 (a_regs s 1) := ram s (mask_address_24 (a_regs s 0))))"
    "cycles_remaining s2 = cycles_remaining s - (if n = 0 then 26 else 22)"
    using s2(4,6-9) s1(4-7) by simp_all
  moreover have "andthen (m68k_step env s) (\<lambda>_. m68k_step env) = Ret () s2"
    by (simp add: m68k_step_def s1(1) s2(1))
  ultimately show ?thesis using s2(5) by blast
qed

lemma copy_loop_steps:
  assumes "undisturbed env s" and "copy_code s"
    and "int k = uint (ucast (d_regs s 0) :: u16)"
    and "in_ram s (a_regs s 0) (Suc k)" "in_ram s (a_regs s 1) (Suc k)"
    and "\<And>i. i \<le> k \<Longrightarrow> mask_address_24 (a_regs s 1 + of_nat i) \<notin> span (mask_address_24 (pc s)) 6"
  shows "\<exists>s' v. steps (2 * Suc k) env s = Ret () s' \<and>
    memory s' = Some (copied (Suc k) (a_regs s 0) (a_regs s 1) (ram s)) \<and>
    a_regs s' = (a_regs s)(0 := a_regs s 0 + of_nat (Suc k), 1 := a_regs s 1 + of_nat (Suc k)) \<and>
    d_regs s' = (d_regs s)(0 := v) \<and> uint (ucast v :: u16) = 65535 \<and>
    v AND 0xFFFF0000 = d_regs s 0 AND 0xFFFF0000 \<and> pc s' = pc s + 6 \<and> calm_step s s' \<and>
    cycles_remaining s' = cycles_remaining s - (22 * int (Suc k) + 4)"
  using assms
proof (induction k arbitrary: s)
  case 0
  have n: "(0 :: int) = uint (ucast (d_regs s 0) :: u16)" using 0 by simp
  have r: "in_ram s (a_regs s 0) 1" "in_ram s (a_regs s 1) 1"
    "mask_address_24 (a_regs s 1) \<notin> span (mask_address_24 (pc s)) 6"
    using 0(4,5) 0(6) [of 0] by simp_all
  have one: "steps (2 * Suc 0) env s = andthen (m68k_step env s) (\<lambda>_. m68k_step env)"
    using steps_two [of 0 env s] by (cases "andthen (m68k_step env s) (\<lambda>_. m68k_step env)") (simp_all add: numeral_2_eq_2)
  obtain s' v where r: "andthen (m68k_step env s) (\<lambda>_. m68k_step env) = Ret () s'" "calm_step s s'"
    "pc s' = pc s + 6" "d_regs s' = (d_regs s)(0 := v)" "uint (ucast v :: u16) = 65535"
    "v AND 0xFFFF0000 = d_regs s 0 AND 0xFFFF0000"
    "a_regs s' = (a_regs s)(0 := a_regs s 0 + 1, 1 := a_regs s 1 + 1)"
    "memory s' = Some ((ram s)(mask_address_24 (a_regs s 1) := ram s (mask_address_24 (a_regs s 0))))"
    "cycles_remaining s' = cycles_remaining s - 26"
    using copy_iteration [OF 0(1,2) n r] by auto
  have c1: "copied (Suc 0) a b m = m(mask_address_24 b := m (mask_address_24 a))" for a b m by simp
  show ?case
    unfolding one c1 by (intro exI [of _ s'] exI [of _ v] conjI) (simp_all add: r del: fun_upd_apply)
next
  case (Suc k)
  have n: "int (Suc k) = uint (ucast (d_regs s 0) :: u16)" by (rule Suc.prems(3))
  have r: "in_ram s (a_regs s 0) 1" "in_ram s (a_regs s 1) 1"
    "mask_address_24 (a_regs s 1) \<notin> span (mask_address_24 (pc s)) 6"
    using in_ram_less [OF Suc.prems(4), of 1] in_ram_less [OF Suc.prems(5), of 1] Suc.prems(6) [of 0] by simp_all
  obtain s1 v where s1: "andthen (m68k_step env s) (\<lambda>_. m68k_step env) = Ret () s1" "calm_step s s1"
    "pc s1 = pc s" "d_regs s1 = (d_regs s)(0 := v)" "uint (ucast v :: u16) = int k"
    "v AND 0xFFFF0000 = d_regs s 0 AND 0xFFFF0000"
    "a_regs s1 = (a_regs s)(0 := a_regs s 0 + 1, 1 := a_regs s 1 + 1)"
    "memory s1 = Some ((ram s)(mask_address_24 (a_regs s 1) := ram s (mask_address_24 (a_regs s 0))))"
    "cycles_remaining s1 = cycles_remaining s - 22"
    using copy_iteration [OF Suc.prems(1,2) n r] by auto
  have sz: "memory_size s1 = memory_size s" using s1(2) by (simp add: calm_step_def)
  have c: "copy_code s1"
    by (rule copy_code_kept [OF Suc.prems(2) r(3)]) (simp_all add: s1(3,8) sz ram_def)
  have "in_ram s1 (a_regs s1 0) (Suc k)" "in_ram s1 (a_regs s1 1) (Suc k)"
    using in_ram_add [OF Suc.prems(4), of 1 "Suc k"] in_ram_add [OF Suc.prems(5), of 1 "Suc k"]
    by (simp_all add: in_ram_def s1(7,8) sz)
  moreover have "mask_address_24 (a_regs s1 1 + of_nat i) \<notin> span (mask_address_24 (pc s1)) 6" if "i \<le> k" for i
    using Suc.prems(6) [of "Suc i"] that by (simp add: s1(3,7) add.assoc)
  moreover have "int k = uint (ucast (d_regs s1 0) :: u16)" by (simp add: s1(4,5))
  ultimately obtain s2 w where s2: "steps (2 * Suc k) env s1 = Ret () s2"
    "memory s2 = Some (copied (Suc k) (a_regs s1 0) (a_regs s1 1) (ram s1))"
    "a_regs s2 = (a_regs s1)(0 := a_regs s1 0 + of_nat (Suc k), 1 := a_regs s1 1 + of_nat (Suc k))"
    "d_regs s2 = (d_regs s1)(0 := w)" "uint (ucast w :: u16) = 65535"
    "w AND 0xFFFF0000 = d_regs s1 0 AND 0xFFFF0000" "pc s2 = pc s1 + 6" "calm_step s1 s2"
    "cycles_remaining s2 = cycles_remaining s1 - (22 * int (Suc k) + 4)"
    using Suc.IH [OF calm_step_undisturbed [OF s1(2) Suc.prems(1)] c] by blast
  have "steps (2 * Suc (Suc k)) env s = andthen (andthen (m68k_step env s) (\<lambda>_. m68k_step env))
      (\<lambda>_. steps (2 * Suc k) env)"
    using steps_two [of "2 * Suc k" env s] by (simp del: steps.simps)
  then have "steps (2 * Suc (Suc k)) env s = Ret () s2" using s2(1) by (simp add: s1(1) del: steps.simps)
  moreover have "calm_step s s2" using s1(2) s2(8) by (simp add: calm_step_def)
  moreover have "ram s1 = (ram s)(mask_address_24 (a_regs s 1) := ram s (mask_address_24 (a_regs s 0)))"
    by (simp add: ram_def s1(8))
  moreover have "a_regs s2 = (a_regs s)(0 := a_regs s 0 + of_nat (Suc (Suc k)), 1 := a_regs s 1 + of_nat (Suc (Suc k)))"
    unfolding s2(3) s1(7) by (rule ext) (simp add: add.assoc)
  moreover have "memory s2 = Some (copied (Suc (Suc k)) (a_regs s 0) (a_regs s 1) (ram s))"
    using s2(2) calculation(3) by (simp add: s1(7))
  moreover have "d_regs s2 = (d_regs s)(0 := w)" "w AND 0xFFFF0000 = d_regs s 0 AND 0xFFFF0000" "pc s2 = pc s + 6"
    "cycles_remaining s2 = cycles_remaining s - (22 * int (Suc (Suc k)) + 4)"
    using s2(4,6,7,9) s1(3,4,6,9) by simp_all
  ultimately show ?case using s2(5) by blast
qed

text \<open>C26: The loop MOVE.B (A0)+,(A1)+; DBRA D0 back to it, executed from memory: with n in the low word
  of D0, 2(n + 1) steps end behind the loop with the n + 1 bytes from A0 at A1 and every other byte of
  memory as it was, A0 and A1 past the two blocks, the low word of D0 at hexadecimal FFFF and its
  high word kept, every other register kept, for 22n + 26 cycles (12 for each MOVE, 10 for each DBRA that jumps
  and 14 for the one that ends). The two blocks and the code lie in bound memory, the destination
  overlaps neither, no interrupt, trace or stop is pending, and the host has no bus, instruction
  or program-counter callbacks.\<close>

theorem copy_loop:
  assumes "undisturbed env s" and "even (pc s)" "in_ram s (pc s) 6"
    and "get16 (ram s) (mask_address_24 (pc s)) = 0x12D8"
    and "get16 (ram s) (mask_address_24 (pc s + 2)) = 0x51C8"
    and "get16 (ram s) (mask_address_24 (pc s + 4)) = 0xFFFC"
    and n: "n = unat (ucast (d_regs s 0) :: u16)"
    and a: "a = mask_address_24 (a_regs s 0)" "in_ram s (a_regs s 0) (n + 1)"
    and b: "b = mask_address_24 (a_regs s 1)" "in_ram s (a_regs s 1) (n + 1)"
    and apart: "span b (n + 1) \<inter> span a (n + 1) = {}"
      "span b (n + 1) \<inter> span (mask_address_24 (pc s)) 6 = {}"
  shows "\<exists>s' v. steps (2 * (n + 1)) env s = Ret () s' \<and>
    (\<forall>i\<le>n. ram s' (b + of_nat i) = ram s (a + of_nat i)) \<and>
    (\<forall>x. x \<notin> span b (n + 1) \<longrightarrow> ram s' x = ram s x) \<and>
    a_regs s' = (a_regs s)(0 := a_regs s 0 + of_nat n + 1, 1 := a_regs s 1 + of_nat n + 1) \<and>
    d_regs s' = (d_regs s)(0 := v) \<and> (ucast v :: u16) = 0xFFFF \<and>
    v AND 0xFFFF0000 = d_regs s 0 AND 0xFFFF0000 \<and> pc s' = pc s + 6 \<and>
    cycles_remaining s' = cycles_remaining s - (22 * int n + 26)"
proof -
  have copy_code: "copy_code s" using assms(2-6) by (simp add: copy_code_def)
  have m: "mask_address_24 (a_regs s 0 + of_nat i) = a + of_nat i"
    "mask_address_24 (a_regs s 1 + of_nat i) = b + of_nat i" if "i < Suc n" for i
    using a b that by (simp_all add: mask_24_add in_ram_def)
  have sp: "b + of_nat i \<in> span b (n + 1)" "a + of_nat i \<in> span a (n + 1)" if "i < Suc n" for i
    using that by (auto simp: span_def)
  have "n < 2 ^ 24" using a(2) by (simp add: in_ram_def)
  then have inj: "b + of_nat i \<noteq> b + of_nat j" if "i < Suc n" "j < Suc n" "i \<noteq> j" for i j
    using that by (simp add: word_of_nat_eq_iff take_bit_nat_eq_self)
  have int: "int n = uint (ucast (d_regs s 0) :: u16)" by (simp add: n)
  have code: "mask_address_24 (a_regs s 1 + of_nat i) \<notin> span (mask_address_24 (pc s)) 6" if "i \<le> n" for i
    using m(2) [of i] sp(1) [of i] that apart(2) by auto
  obtain s' v where r: "steps (2 * Suc n) env s = Ret () s'"
    "memory s' = Some (copied (Suc n) (a_regs s 0) (a_regs s 1) (ram s))"
    "a_regs s' = (a_regs s)(0 := a_regs s 0 + of_nat (Suc n), 1 := a_regs s 1 + of_nat (Suc n))"
    "d_regs s' = (d_regs s)(0 := v)" "uint (ucast v :: u16) = 65535"
    "v AND 0xFFFF0000 = d_regs s 0 AND 0xFFFF0000" "pc s' = pc s + 6"
    "cycles_remaining s' = cycles_remaining s - (22 * int (Suc n) + 4)"
    using copy_loop_steps [OF assms(1) copy_code int _ _ code] a(2) b(2) by auto
  have "ram s' (b + of_nat i) = ram s (a + of_nat i)" if "i \<le> n" for i
    using copied_inside [of "Suc n" "a_regs s 1" "a_regs s 0" i "ram s"] m sp inj apart(1) that
    by (simp add: ram_def r(2)) (metis disjoint_iff le_imp_less_Suc)
  moreover have "ram s' x = ram s x" if "x \<notin> span b (n + 1)" for x
    using copied_outside [of "Suc n" x "a_regs s 1" "a_regs s 0" "ram s"] m(2) sp(1) that
    by (auto simp: ram_def r(2) simp del: copied.simps)
  moreover have "(ucast v :: u16) = 0xFFFF"
    using r(5) by (simp add: word_uint_eq_iff)
  moreover have "a_regs s' = (a_regs s)(0 := a_regs s 0 + of_nat n + 1, 1 := a_regs s 1 + of_nat n + 1)"
    by (simp add: r(3) algebra_simps)
  moreover have "steps (2 * (n + 1)) env s = Ret () s'" using r(1) by (simp del: steps.simps)
  moreover have "cycles_remaining s' = cycles_remaining s - (22 * int n + 26)" by (simp add: r(8))
  ultimately show ?thesis using r(4,6,7) by blast
qed

lemma copy_loop_witness:
  "\<exists>s'. steps 6 no_callbacks
      (trap_state\<lparr>memory := Some (\<lambda>a. if a = 0x200 then 0x12 else if a = 0x201 then 0xD8
         else if a = 0x202 then 0x51 else if a = 0x203 then 0xC8 else if a = 0x204 then 0xFF
         else if a = 0x205 then 0xFC else if a = 0x302 then 0x7B else 0),
       d_regs := (\<lambda>i. 2), a_regs := (\<lambda>i. if i = 0 then 0x300 else 0x400)\<rparr>) = Ret () s' \<and>
    ram s' 0x402 = 0x7B \<and> pc s' = 0x206"
proof -
  define s where "s = trap_state\<lparr>memory := Some (\<lambda>a. if a = 0x200 then 0x12 else if a = 0x201 then 0xD8
         else if a = 0x202 then 0x51 else if a = 0x203 then 0xC8 else if a = 0x204 then 0xFF
         else if a = 0x205 then 0xFC else if a = 0x302 then 0x7B else 0),
       d_regs := (\<lambda>i. 2), a_regs := (\<lambda>i. if i = 0 then 0x300 else 0x400)\<rparr>"
  have u: "undisturbed no_callbacks s"
    by (simp add: undisturbed_def plain_bus_no_callbacks) (simp add: no_callbacks_def s_def trap_state_def m68k_init_def)
  have c: "even (pc s)" "in_ram s (pc s) 6" "get16 (ram s) (mask_address_24 (pc s)) = 0x12D8"
    "get16 (ram s) (mask_address_24 (pc s + 2)) = 0x51C8" "get16 (ram s) (mask_address_24 (pc s + 4)) = 0xFFFC"
    by (simp_all add: get16_def ram_def in_ram_def s_def trap_state_def m68k_init_def mask_address_24_def)
  have r: "in_ram s (a_regs s 0) (2 + 1)" "in_ram s (a_regs s 1) (2 + 1)"
    by (simp_all add: s_def in_ram_def trap_state_def m68k_init_def mask_address_24_def)
  have n: "2 = unat (ucast (d_regs s 0) :: u16)" by (simp add: s_def)
  have m: "mask_address_24 (a_regs s 0) = 0x300" "mask_address_24 (a_regs s 1) = 0x400"
    "mask_address_24 0x200 = 0x200" "pc s = 0x200" "ram s 0x302 = 0x7B"
    by (simp_all add: s_def trap_state_def m68k_init_def mask_address_24_def ram_def)
  have d: "span 0x400 (2 + 1) \<inter> span 0x300 (2 + 1) = {}" "span 0x400 (2 + 1) \<inter> span 0x200 6 = {}"
    using span_disjoint(2) [where n = "2 + 1" and d = "0x100" and k = "2 + 1" and a = "0x300"]
      span_disjoint(2) [where n = 6 and d = "0x200" and k = "2 + 1" and a = "0x200"] by simp_all
  obtain s' where "steps 6 no_callbacks s = Ret () s'" "\<forall>i\<le>2. ram s' (0x400 + of_nat i) = ram s (0x300 + of_nat i)"
    "pc s' = 0x206"
    using copy_loop [OF u c n refl r(1) refl r(2), unfolded m, OF d] by auto
  then show ?thesis using m(4,5) unfolding s_def [symmetric] by (auto dest: spec [of _ 2])
qed

subsection \<open>Single bits\<close>

lemma low_bits_mod:
  "unat ((w :: u32) AND 31) = unat w mod 32" "unat (w AND 7) = unat w mod 8"
proof -
  have m: "(31 :: u32) = mask 5" "(7 :: u32) = mask 3" by (simp_all add: mask_eq_exp_minus_1)
  show "unat (w AND 31) = unat w mod 32" "unat (w AND 7) = unat w mod 8"
    unfolding m take_bit_eq_mask [symmetric] unsigned_take_bit_eq by (simp_all add: take_bit_eq_mod)
qed

lemma bits_parity: "bits w n 15 mod 2 = bits w n 1"
proof -
  have m: "(1 :: u16) = mask 1" by (simp add: mask_eq_exp_minus_1)
  have "drop_bit n w AND 1 = (drop_bit n w AND 15) AND 1" by (simp add: and.assoc)
  moreover have "unat (v AND 1) = unat v mod 2" for v :: u16
    unfolding m take_bit_eq_mask [symmetric] unsigned_take_bit_eq by (simp add: take_bit_eq_mod)
  ultimately show ?thesis by (simp only: bits_def)
qed

lemma test_one_bit:
  assumes "k < 32"
  shows "((w :: u32) AND push_bit k 1 \<noteq> 0) = bit w k"
    and "bit (w OR push_bit k 1) i = (i = k \<or> bit w i)"
    and "bit (w AND NOT (push_bit k 1)) i = (i \<noteq> k \<and> bit w i)"
    and "bit (w XOR push_bit k 1) i = (if i = k then \<not> bit w i else bit w i)"
  using assms by (auto simp: bit_simps and_exp_eq_0_iff_not_bit push_bit_eq_mult dest: bit_imp_le_length)

text \<open>What BTST, BCHG, BCLR and BSET do to the bit.\<close>

definition bit_after :: "nat \<Rightarrow> bool \<Rightarrow> bool" where
  "bit_after op b = (if op = 0 then b else if op = 1 then \<not> b else op = 3)"

lemma test_bit_flag_bits:
  "sr_flag M68K_SR_Z (test_bit_flag d m s) = (d AND m = 0)"
  "sr (test_bit_flag d m s) AND NOT M68K_SR_Z = sr s AND NOT M68K_SR_Z"
proof -
  have e: "(v AND NOT n) AND n = 0" "(v OR n) AND n = n" "(v AND NOT n) AND NOT n = v AND NOT n"
    "(v OR n) AND NOT n = v AND NOT n" for v n :: u16
    by (rule bit_word_eqI, auto simp: bit_simps)+
  have "M68K_SR_Z \<noteq> 0" by (simp add: M68K_SR_Z_def)
  then show "sr_flag M68K_SR_Z (test_bit_flag d m s) = (d AND m = 0)"
    "sr (test_bit_flag d m s) AND NOT M68K_SR_Z = sr s AND NOT M68K_SR_Z"
    unfolding test_bit_flag_def sr_flag_def sr_clear_def by (simp_all add: e)
qed

lemma test_bit_flag_same [simp]:
  "d_regs (test_bit_flag d m s) = d_regs s" "a_regs (test_bit_flag d m s) = a_regs s"
  "pc (test_bit_flag d m s) = pc s" "memory (test_bit_flag d m s) = memory s"
  by (simp_all add: test_bit_flag_def sr_clear_def)

text \<open>C32: BTST, BCHG, BCLR and BSET of a data register with the bit number in another, from the
  opcode word through the dispatch: Z becomes the complement of the old bit k, where k is the number
  in the register modulo 32, and no other status bit changes; BTST leaves the bit, BCHG
  complements it, BCLR clears it and BSET sets it, and every other bit, every other register, the
  program counter and the memory are kept.\<close>

theorem bit_operations:
  assumes "opcode AND 0xF138 = 0x0100" and op: "op = bits opcode 6 3"
    and r: "r = bits opcode 0 7" and k: "k = unat (d_regs s (bits opcode 9 7)) mod 32"
  shows "\<exists>n s'. dispatch env opcode s = Ret n s' \<and>
    sr_flag M68K_SR_Z s' = (\<not> bit (d_regs s r) k) \<and>
    sr s' AND NOT M68K_SR_Z = sr s AND NOT M68K_SR_Z \<and>
    (\<forall>i<32. bit (d_regs s' r) i = (if i = k then bit_after op (bit (d_regs s r) i) else bit (d_regs s r) i)) \<and>
    (\<forall>j. j \<noteq> r \<longrightarrow> d_regs s' j = d_regs s j) \<and> a_regs s' = a_regs s \<and> pc s' = pc s \<and> memory s' = memory s"
proof -
  have l: "opcode AND 0xF000 = 0" "opcode AND 0x0100 = 0x0100" "opcode AND 0x0038 = 0"
    using submask [OF assms(1)] by simp_all
  have b: "bits opcode 3 7 = 0" using l field_word [of 3 7 opcode] by simp
  have "bits opcode 8 15 mod 2 = bits opcode 8 1" by (rule bits_parity)
  also have "bits opcode 8 1 = 1" using l field_word [of 8 1 opcode] by simp
  finally have top: "bits opcode 8 15 \<noteq> 0" "bits opcode 8 15 \<noteq> 2" "bits opcode 8 15 \<noteq> 4" "bits opcode 8 15 \<noteq> 6"
    "bits opcode 8 15 \<noteq> 8" "bits opcode 8 15 \<noteq> 10" "bits opcode 8 15 \<noteq> 12" "bits opcode 8 15 \<noteq> 14"
    by (auto simp del: One_nat_def)
  have k32: "k < 32" by (simp add: k)
  have o4: "op = 0 \<or> op = 1 \<or> op = 2 \<or> op = 3" using bits_3_less [of opcode 6] by (auto simp: op)
  have m: "get_bit_mask (d_regs s (bits opcode 9 7)) True = push_bit k 1"
    by (simp only: get_bit_mask_def if_True low_bits_mod k)
  have num: "bit_number env opcode s = Ret (d_regs s (bits opcode 9 7)) s"
    using l(2) by (simp add: bit_number_def)
  define s1 where "s1 = test_bit_flag (d_regs s r) (push_bit k 1) s"
  have z: "sr_flag M68K_SR_Z s1 = (\<not> bit (d_regs s r) k)"
      "sr s1 AND NOT M68K_SR_Z = sr s AND NOT M68K_SR_Z"
    using test_one_bit(1) [OF k32, of "d_regs s r"] by (auto simp: s1_def test_bit_flag_bits)
  have alterable: "\<not> not_data_alterable 0 x" for x by (simp add: not_data_alterable_def)
  have ex: "m68k_exec_btst env opcode s = Ret () s1"
    "m68k_exec_bchg env opcode s = Ret () (set_d r (d_regs s r XOR push_bit k 1) s1)"
    "m68k_exec_bclr env opcode s = Ret () (set_d r (d_regs s r AND NOT (push_bit k 1)) s1)"
    "m68k_exec_bset env opcode s = Ret () (set_d r (d_regs s r OR push_bit k 1) s1)"
    unfolding m68k_exec_btst_def m68k_exec_bchg_def m68k_exec_bclr_def m68k_exec_bset_def bit_modify_def
      Let_def b r [symmetric] num s1_def
    by (simp_all add: m alterable)
  have p: "push_bit k (1 :: u32) = 2 ^ k" by simp
  note bits_set = test_one_bit(2-4) [OF k32, of "d_regs s r", unfolded p]
  have same: "d_regs s1 = d_regs s" "a_regs s1 = a_regs s" "pc s1 = pc s" "memory s1 = memory s"
    by (simp_all add: s1_def)
  have d: "dispatch env opcode s = dispatch_dynamic_bit env opcode s"
    using l top unfolding dispatch_line_0 [OF l(1)] dispatch_line_0_def Let_def by simp
  have "\<exists>n. dispatch env opcode s = Ret n (if op = 0 then s1
      else set_d r (if op = 1 then d_regs s r XOR push_bit k 1
        else if op = 2 then d_regs s r AND NOT (push_bit k 1) else d_regs s r OR push_bit k 1) s1)"
    using o4 unfolding d dispatch_dynamic_bit_def Let_def b op [symmetric] costing_def
    by (elim disjE) (simp_all add: ex)
  then obtain n where "dispatch env opcode s = Ret n (if op = 0 then s1
      else set_d r (if op = 1 then d_regs s r XOR push_bit k 1
        else if op = 2 then d_regs s r AND NOT (push_bit k 1) else d_regs s r OR push_bit k 1) s1)" ..
  then show ?thesis
    using o4 z by (elim disjE) (auto simp: bits_set bit_after_def same sr_flag_registers)
qed

lemma bit_operations_witness:
  "\<exists>n s'. dispatch no_callbacks 0x03C1 (set_d 1 0x21 trap_state) = Ret n s' \<and>
     sr_flag M68K_SR_Z s' \<and> bit (d_regs s' 1) 1"
proof -
  define s where "s = set_d 1 0x21 trap_state"
  have "\<exists>n s'. dispatch no_callbacks 0x03C1 s = Ret n s' \<and>
    sr_flag M68K_SR_Z s' = (\<not> bit (d_regs s 1) 1) \<and>
    sr s' AND NOT M68K_SR_Z = sr s AND NOT M68K_SR_Z \<and>
    (\<forall>i<32. bit (d_regs s' 1) i = (if i = 1 then bit_after 3 (bit (d_regs s 1) i) else bit (d_regs s 1) i)) \<and>
    (\<forall>j. j \<noteq> 1 \<longrightarrow> d_regs s' j = d_regs s j) \<and> a_regs s' = a_regs s \<and> pc s' = pc s \<and> memory s' = memory s"
    by (rule bit_operations) (simp_all add: bits_def s_def)
  then obtain n s' where d: "dispatch no_callbacks 0x03C1 s = Ret n s'"
      and z: "sr_flag M68K_SR_Z s' = (\<not> bit (d_regs s 1) 1)"
      and b: "\<forall>i<32. bit (d_regs s' 1) i = (if i = 1 then bit_after 3 (bit (d_regs s 1) i) else bit (d_regs s 1) i)"
    by blast
  have "\<not> bit (d_regs s 1) 1" by (simp add: s_def)
  moreover have "bit (d_regs s' 1) 1 = bit_after 3 (bit (d_regs s 1) 1)"
    using b [THEN spec, of 1] by simp
  ultimately have "sr_flag M68K_SR_Z s' \<and> bit (d_regs s' 1) 1" using z by (simp add: bit_after_def)
  with d show ?thesis unfolding s_def by blast
qed

end
