(* ===== verification/M68k_SaveState.thy ===== *)
theory M68k_SaveState
  imports M68k_Memory
begin

section \<open>Contexts and save states\<close>

text \<open>
  The context copies \<open>m68k_get_context\<close> and \<open>m68k_set_context\<close> and the portable save
  states \<open>m68k_serialize\<close> and \<open>m68k_deserialize\<close> of \<open>src/m68k/m68k.c\<close>. A save
  state is a header followed by tagged fields; a buffer is a list of bytes, and the
  moving pointer is the rest of the list. A restore that fails part way returns false
  and keeps the fields it has already applied, as the C code does. The theorems: a state is
  restored field by field, unknown fields are skipped, malformed ones and bad headers are
  refused, and exactly the truncations inside a field are noticed.
\<close>

subsection \<open>Context copies\<close>

text \<open>A copy holds the pointer to the memory, not its contents, and the restore keeps the
  pointer of the running context, so a copy is the context itself. The callbacks are
  not part of the record; a restore leaves them installed.\<close>

definition m68k_get_context :: "'h cpu \<Rightarrow> 'h cpu" where
  "m68k_get_context s = s"

definition m68k_set_context :: "'h cpu option \<Rightarrow> 'h cpu \<Rightarrow> 'h cpu" where
  "m68k_set_context src s =
     (case src of
        None \<Rightarrow> s
      | Some c \<Rightarrow>
          c\<lparr>memory := memory s, memory_size := memory_size s,
            fault_trap_active := fault_trap_active s, host := host s\<rparr>)"

subsection \<open>Big-endian fields\<close>

definition state_put_16 :: "u16 \<Rightarrow> u8 list" where
  "state_put_16 v = [ucast (drop_bit 8 v), ucast v]"

definition state_put_32 :: "u32 \<Rightarrow> u8 list" where
  "state_put_32 v = [ucast (drop_bit 24 v), ucast (drop_bit 16 v), ucast (drop_bit 8 v), ucast v]"

definition state_get_16 :: "u8 list \<Rightarrow> u16" where
  "state_get_16 p = push_bit 8 (ucast (p ! 0)) OR ucast (p ! 1)"

definition state_get_32 :: "u8 list \<Rightarrow> u32" where
  "state_get_32 p = push_bit 24 (ucast (p ! 0)) OR push_bit 16 (ucast (p ! 1)) OR
     push_bit 8 (ucast (p ! 2)) OR ucast (p ! 3)"

definition state_field :: "u8 \<Rightarrow> u8 \<Rightarrow> u8 list" where
  "state_field tag len = [tag, len]"

subsection \<open>Serialisation\<close>

definition state_size :: nat where
  "state_size =
     8 + (2 + 32) * 2 + (2 + 4) * 6 + (2 + 2) + (2 + 4) + (2 + 6) + (2 + 8) + (2 + 4)"

definition state_header :: "u8 list" where
  "state_header = [0x52, 0x36, 0x38, 0x53] @ state_put_16 1 @ state_put_16 0"

definition state_regs :: "(nat \<Rightarrow> u32) \<Rightarrow> u8 list" where
  "state_regs r = concat (map (\<lambda>i. state_put_32 (r i)) [0..<8])"

definition bool_byte :: "bool \<Rightarrow> u8" where
  "bool_byte b = (if b then 1 else 0)"

text \<open>Everything \<open>m68k_serialize\<close> writes, in order.\<close>

definition state_bytes :: "'h cpu \<Rightarrow> u8 list" where
  "state_bytes s =
     state_header @
     state_field 1 32 @ state_regs (d_regs s) @
     state_field 2 32 @ state_regs (a_regs s) @
     state_field 3 4 @ state_put_32 (pc s) @
     state_field 4 2 @ state_put_16 (sr s) @
     state_field 5 4 @ state_put_32 (usp s) @
     state_field 6 4 @ state_put_32 (ssp s) @
     state_field 7 4 @ state_put_32 (vbr s) @
     state_field 8 4 @ state_put_32 (sfc s) @
     state_field 9 4 @ state_put_32 (dfc s) @
     state_field 10 4 @ [bool_byte (stopped s), word_of_int (irq_level s),
                         bool_byte (nmi_pending s), bool_byte (trace_pending s)] @
     state_field 11 6 @ state_put_16 (ir s) @ state_put_32 (ppc s) @
     state_field 12 8 @ state_put_32 (word_of_int (target_cycles s)) @
                        state_put_32 (word_of_int (cycles_remaining s)) @
     state_field 13 4 @ state_put_32 (of_nat (model_code (model s)))"

text \<open>The return value and the buffer afterwards; a null buffer asks for the size.\<close>

definition m68k_serialize ::
  "'h cpu \<Rightarrow> u8 list option \<Rightarrow> nat \<Rightarrow> nat \<times> u8 list option" where
  "m68k_serialize s buffer capacity =
     (case buffer of
        None \<Rightarrow> (state_size, None)
      | Some b \<Rightarrow>
          (if capacity < state_size then (0, Some b)
           else (length (state_bytes s),
                 Some (state_bytes s @ drop (length (state_bytes s)) b))))"

subsection \<open>Restoring\<close>

definition get_regs :: "u8 list \<Rightarrow> (nat \<Rightarrow> u32) \<Rightarrow> nat \<Rightarrow> u32" where
  "get_regs p r = (\<lambda>i. if i < 8 then state_get_32 (drop (4 * i) p) else r i)"

text \<open>The switch on the tag of one field: \<open>None\<close> for \<open>return false\<close>.\<close>

definition apply_field :: "u8 \<Rightarrow> u8 list \<Rightarrow> 'h cpu \<Rightarrow> 'h cpu option" where
  "apply_field tag p s =
     (let len = length p;
          when_len = (\<lambda>n s'. if len \<noteq> n then None else Some s')
      in if tag = 1 then when_len 32 (s\<lparr>d_regs := get_regs p (d_regs s)\<rparr>)
         else if tag = 2 then when_len 32 (s\<lparr>a_regs := get_regs p (a_regs s)\<rparr>)
         else if tag = 3 then when_len 4 (s\<lparr>pc := state_get_32 p\<rparr>)
         else if tag = 4 then when_len 2 (s\<lparr>sr := state_get_16 p\<rparr>)
         else if tag = 5 then when_len 4 (s\<lparr>usp := state_get_32 p\<rparr>)
         else if tag = 6 then when_len 4 (s\<lparr>ssp := state_get_32 p\<rparr>)
         else if tag = 7 then when_len 4 (s\<lparr>vbr := state_get_32 p\<rparr>)
         else if tag = 8 then when_len 4 (s\<lparr>sfc := state_get_32 p\<rparr>)
         else if tag = 9 then when_len 4 (s\<lparr>dfc := state_get_32 p\<rparr>)
         else if tag = 10
         then when_len 4 (s\<lparr>stopped := (p ! 0 \<noteq> 0), irq_level := uint (p ! 1),
                            nmi_pending := (p ! 2 \<noteq> 0), trace_pending := (p ! 3 \<noteq> 0)\<rparr>)
         else if tag = 11
         then when_len 6 (s\<lparr>ir := state_get_16 p, ppc := state_get_32 (drop 2 p)\<rparr>)
         else if tag = 12
         then when_len 8 (s\<lparr>target_cycles := sint (state_get_32 p),
                            cycles_remaining := sint (state_get_32 (drop 4 p))\<rparr>)
         else if tag = 13
         then (if len \<noteq> 4 then None
               else (let m = state_get_32 p
                     in if m > 1 then None
                        else Some (s\<lparr>model := (if m = 0 then M68K_MODEL_68000
                                               else M68K_MODEL_68010)\<rparr>)))
         else Some s)"

text \<open>The loop over the fields.\<close>

function restore_fields :: "u8 list \<Rightarrow> 'h cpu \<Rightarrow> bool \<times> 'h cpu" where
  "restore_fields [] s = (True, s)"
| "restore_fields [b] s = (False, s)"
| "restore_fields (tag # len # p) s =
     (if length p < unat len then (False, s)
      else case apply_field tag (take (unat len) p) s of
             None \<Rightarrow> (False, s)
           | Some s \<Rightarrow> restore_fields (drop (unat len) p) s)"
  by pat_completeness auto

termination restore_fields
  by (relation "measure (\<lambda>(p, s). length p)") auto

definition clear_transients :: "'h cpu \<Rightarrow> 'h cpu" where
  "clear_transients s =
     s\<lparr>exception_thrown := 0, fault_valid := False, fault_pc_valid := False,
       fault_bus_word_valid := False, operand_program_space := False,
       group0_fault := False, fault_trap_active := False,
       in_address_error := False, in_bus_error := False\<rparr>"

definition m68k_deserialize :: "u8 list option \<Rightarrow> 'h cpu \<Rightarrow> bool \<times> 'h cpu" where
  "m68k_deserialize buffer s =
     (case buffer of
        None \<Rightarrow> (False, s)
      | Some b \<Rightarrow>
          (if length b < 8 then (False, s)
           else if b ! 0 \<noteq> 0x52 \<or> b ! 1 \<noteq> 0x36 \<or> b ! 2 \<noteq> 0x38 \<or> b ! 3 \<noteq> 0x53 then (False, s)
           else if state_get_16 (drop 4 b) \<noteq> 1 then (False, s)
           else (case restore_fields (drop 8 b) s of
                   (ok, s) \<Rightarrow> if ok then (True, clear_transients s) else (False, s))))"

subsection \<open>Round trip\<close>

lemma state_get_put [simp]:
  "state_get_16 (state_put_16 v @ r) = v" "state_get_32 (state_put_32 w @ r) = w"
  "state_get_16 (state_put_16 v) = v" "state_get_32 (state_put_32 w) = w"
  by (simp_all add: state_get_16_def state_put_16_def join_16 state_get_32_def state_put_32_def
      join_32 numeral_2_eq_2 numeral_3_eq_3)

lemma state_put_length [simp]:
  "length (state_put_16 v) = 2" "length (state_put_32 w) = 4" "length (state_regs r) = 32"
  by (simp_all add: state_put_16_def state_put_32_def state_regs_def upt_rec)

lemma drop_put_32 [simp]:
  "drop n (state_put_32 v @ r) = (if n < 4 then drop n (state_put_32 v) @ r else drop (n - 4) r)"
  by auto

lemma get_regs_state_regs: "get_regs (state_regs r) r' = (\<lambda>i. if i < 8 then r i else r' i)"
proof
  fix i
  have r: "state_regs r = state_put_32 (r 0) @ state_put_32 (r 1) @ state_put_32 (r 2) @
      state_put_32 (r 3) @ state_put_32 (r 4) @ state_put_32 (r 5) @ state_put_32 (r 6) @
      state_put_32 (r 7)"
    by (simp add: state_regs_def upt_rec numeral_eq_Suc)
  show "get_regs (state_regs r) r' i = (if i < 8 then r i else r' i)"
  proof (cases "i < 8")
    case True
    then have "i \<in> {0, 1, 2, 3, 4, 5, 6, 7}" by auto
    then show ?thesis by (auto simp: get_regs_def r)
  qed (simp add: get_regs_def)
qed

lemma restore_field:
  "unat len = length p \<Longrightarrow> restore_fields (state_field tag len @ p @ rest) s =
     (case apply_field tag p s of None \<Rightarrow> (False, s) | Some s \<Rightarrow> restore_fields rest s)"
  by (simp add: state_field_def split: option.split)

lemma restore_last_field:
  "unat len = length p \<Longrightarrow> restore_fields (state_field tag len @ p) s =
     (case apply_field tag p s of None \<Rightarrow> (False, s) | Some s \<Rightarrow> (True, s))"
  using restore_field [of len p tag "[]" s] by (simp split: option.split)

lemma bool_byte_neq [simp]: "(bool_byte b \<noteq> 0) = b"
  by (simp add: bool_byte_def)

lemma header_accepted:
  "m68k_deserialize (Some (state_header @ r)) s =
     (case restore_fields r s of (ok, s) \<Rightarrow> if ok then (True, clear_transients s) else (False, s))"
proof -
  have h: "state_header @ r = [0x52, 0x36, 0x38, 0x53] @ state_put_16 1 @ state_put_16 0 @ r"
    by (simp add: state_header_def)
  have "drop 4 (state_header @ r) = state_put_16 1 @ state_put_16 0 @ r"
    "drop 8 (state_header @ r) = r" "8 \<le> length (state_header @ r)"
    by (simp_all add: h state_put_16_def)
  moreover have "(state_header @ r) ! 0 = 0x52" "(state_header @ r) ! 1 = 0x36"
    "(state_header @ r) ! 2 = 0x38" "(state_header @ r) ! 3 = 0x53"
    by (simp_all add: h numeral_3_eq_3 numeral_2_eq_2)
  ultimately show ?thesis
    unfolding m68k_deserialize_def by (simp del: append_Cons append_assoc)
qed

text \<open>The fields that a save state carries, put into another context.\<close>

definition restored :: "'h cpu \<Rightarrow> 'g cpu \<Rightarrow> 'g cpu" where
  "restored s t =
     t\<lparr>d_regs := (\<lambda>i. if i < 8 then d_regs s i else d_regs t i),
       a_regs := (\<lambda>i. if i < 8 then a_regs s i else a_regs t i),
       pc := pc s, sr := sr s, usp := usp s, ssp := ssp s, vbr := vbr s, sfc := sfc s,
       dfc := dfc s, stopped := stopped s, irq_level := irq_level s,
       nmi_pending := nmi_pending s, trace_pending := trace_pending s, ir := ir s, ppc := ppc s,
       target_cycles := target_cycles s, cycles_remaining := cycles_remaining s,
       model := model s\<rparr>"

lemma restore_state_bytes:
  assumes "0 \<le> irq_level s" "irq_level s < 256"
    and "- (2 ^ 31) \<le> target_cycles s" "target_cycles s < 2 ^ 31"
    and "- (2 ^ 31) \<le> cycles_remaining s" "cycles_remaining s < 2 ^ 31"
  shows "restore_fields (drop 8 (state_bytes s)) t = (True, restored s t)"
proof -
  have "sint (word_of_int k :: u32) = k" if "- (2 ^ 31) \<le> k" "k < 2 ^ 31" for k
    using that by (simp add: sint_sbintrunc' signed_take_bit_int_eq_self)
  then have c: "sint (word_of_int (target_cycles s) :: u32) = target_cycles s"
    "sint (word_of_int (cycles_remaining s) :: u32) = cycles_remaining s" using assms by simp_all
  have i: "uint (word_of_int (irq_level s) :: u8) = irq_level s"
    using assms(1,2) by (simp add: uint_word_of_int)
  have m: "(of_nat (model_code m) :: u32) > 1 = False"
    "(if (of_nat (model_code m) :: u32) = 0 then M68K_MODEL_68000 else M68K_MODEL_68010) = m" for m
    by (cases m; simp)+
  have h: "drop 8 (state_bytes s) = drop 8 (state_header @ r) \<Longrightarrow> drop 8 (state_bytes s) = r" for r
    by (simp add: state_header_def state_put_16_def)
  define fl where "fl = [bool_byte (stopped s), word_of_int (irq_level s),
    bool_byte (nmi_pending s), bool_byte (trace_pending s)]"
  have fl: "length fl = 4" "fl ! 0 = bool_byte (stopped s)" "fl ! Suc 0 = word_of_int (irq_level s)"
    "fl ! 2 = bool_byte (nmi_pending s)" "fl ! 3 = bool_byte (trace_pending s)"
    by (simp_all add: fl_def numeral_2_eq_2 numeral_3_eq_3)
  have d: "drop 8 (state_bytes s) =
     state_field 1 32 @ state_regs (d_regs s) @
     state_field 2 32 @ state_regs (a_regs s) @
     state_field 3 4 @ state_put_32 (pc s) @
     state_field 4 2 @ state_put_16 (sr s) @
     state_field 5 4 @ state_put_32 (usp s) @
     state_field 6 4 @ state_put_32 (ssp s) @
     state_field 7 4 @ state_put_32 (vbr s) @
     state_field 8 4 @ state_put_32 (sfc s) @
     state_field 9 4 @ state_put_32 (dfc s) @
     state_field 10 4 @ fl @
     state_field 11 6 @ (state_put_16 (ir s) @ state_put_32 (ppc s)) @
     state_field 12 8 @ (state_put_32 (word_of_int (target_cycles s)) @
                        state_put_32 (word_of_int (cycles_remaining s))) @
     state_field 13 4 @ state_put_32 (of_nat (model_code (model s)))"
    by (rule h) (simp only: state_bytes_def append_assoc fl_def)
  show ?thesis
    unfolding d
    by (simp add: restore_field restore_last_field apply_field_def Let_def get_regs_state_regs c i m fl
        restored_def del: append_assoc restore_fields.simps)
qed

lemma state_bytes_length: "length (state_bytes s) = state_size"
  by (simp add: state_bytes_def state_header_def state_field_def state_size_def)

lemma state_bytes_header: "state_bytes s = state_header @ drop 8 (state_bytes s)"
  by (simp add: state_bytes_def state_header_def state_put_16_def)

text \<open>C13: A save state restores: the advertised size is 146 bytes; a smaller buffer is refused
  and left alone, and a large enough one receives exactly 146 bytes with nothing behind them
  touched. Deserialising those bytes into any other context succeeds and changes it in exactly
  this way: data and address registers, program counter, status register, the three control
  registers and the two saved stack pointers, the stop, interrupt, NMI and trace state, the
  decode state, both cycle counters and the model become those of the first context, the
  exception number and every fault latch are cleared, and everything else, the memory and the
  host among it, stays. (The context is one in which the interrupt level fits a byte and the cycle
  counters fit a C \<open>int\<close>.)\<close>

theorem serialize_deserialize:
  assumes "146 \<le> length b" and "m68k_serialize s (Some b) (length b) = (n, Some out)"
    and "0 \<le> irq_level s" "irq_level s < 256"
    and "- (2 ^ 31) \<le> target_cycles s" "target_cycles s < 2 ^ 31"
    and "- (2 ^ 31) \<le> cycles_remaining s" "cycles_remaining s < 2 ^ 31"
  shows "m68k_serialize s None 0 = (146, None) \<and>
    (\<forall>c<146. \<forall>b. m68k_serialize s (Some b) c = (0, Some b)) \<and>
    n = 146 \<and> length out = length b \<and> drop 146 out = drop 146 b \<and>
    m68k_deserialize (Some (take n out)) t = (True,
      t\<lparr>d_regs := (\<lambda>i. if i < 8 then d_regs s i else d_regs t i),
        a_regs := (\<lambda>i. if i < 8 then a_regs s i else a_regs t i),
        pc := pc s, sr := sr s, usp := usp s, ssp := ssp s, vbr := vbr s, sfc := sfc s,
        dfc := dfc s, stopped := stopped s, irq_level := irq_level s,
        nmi_pending := nmi_pending s, trace_pending := trace_pending s, ir := ir s, ppc := ppc s,
        target_cycles := target_cycles s, cycles_remaining := cycles_remaining s,
        model := model s,
        exception_thrown := 0, fault_valid := False, fault_pc_valid := False,
        fault_bus_word_valid := False, operand_program_space := False, group0_fault := False,
        fault_trap_active := False, in_address_error := False, in_bus_error := False\<rparr>)"
proof -
  have s: "state_size = 146" by (simp add: state_size_def)
  have n: "n = state_size" "out = state_bytes s @ drop state_size b"
    using assms(1,2) by (auto simp: m68k_serialize_def state_bytes_length s)
  have "take n out = state_header @ drop 8 (state_bytes s)"
    using state_bytes_header [of s] by (simp add: n state_bytes_length)
  then have "m68k_deserialize (Some (take n out)) t = (True, clear_transients (restored s t))"
    by (simp only: header_accepted restore_state_bytes [OF assms(3-8)] prod.case if_True)
  then have r: "m68k_deserialize (Some (take n out)) t = (True, clear_transients (restored s t))" .
  show ?thesis
    unfolding r clear_transients_def restored_def
    by (intro conjI refl) (use assms(1) in \<open>simp_all add: n s m68k_serialize_def state_bytes_length\<close>)
qed

lemma serialize_deserialize_witness:
  "\<exists>n out t. m68k_serialize trap_state (Some (replicate 150 0)) 150 = (n, Some out) \<and>
     m68k_deserialize (Some (take n out)) (m68k_init None 0 ()) = (True, t) \<and> n = 146 \<and>
     pc t = 0x200 \<and> usp t = usp trap_state \<and> sr t = sr trap_state \<and> stopped t = stopped trap_state \<and>
     \<not> fault_valid t \<and> memory t = None"
proof -
  have q: "0 \<le> irq_level trap_state" "irq_level trap_state < 256"
    "- (2 ^ 31) \<le> target_cycles trap_state" "target_cycles trap_state < 2 ^ 31"
    "- (2 ^ 31) \<le> cycles_remaining trap_state" "cycles_remaining trap_state < 2 ^ 31"
    by (simp_all add: trap_state_def m68k_init_def)
  have b: "146 \<le> length (replicate 150 (0 :: u8))" by simp
  obtain n out where m: "m68k_serialize trap_state (Some (replicate 150 0)) (length (replicate 150 (0 :: u8))) =
      (n, Some out)"
    by (simp add: m68k_serialize_def state_size_def)
  define u where "u = m68k_init None 0 ()"
  note d = serialize_deserialize [OF b m q, where t = u]
  note e = d [THEN conjunct2, THEN conjunct2, THEN conjunct2, THEN conjunct2, THEN conjunct2]
  have m': "m68k_serialize trap_state (Some (replicate 150 0)) 150 = (n, Some out)"
    using m by simp
  have v: "n = 146" "pc trap_state = 0x200" "memory u = None"
    using d by (simp_all add: trap_state_def u_def m68k_init_def)
  show ?thesis
    unfolding u_def [symmetric]
    by (rule exI, rule exI, rule exI, rule conjI, rule m', rule conjI, rule e) (simp add: v)
qed

subsection \<open>Fields of other versions\<close>

lemma restore_append:
  "restore_fields a s = (True, s1) \<Longrightarrow> restore_fields (a @ b) s = restore_fields b s1"
  by (induction a s rule: restore_fields.induct) (auto split: if_splits option.splits)

text \<open>C14: Fields with unknown tags are skipped: between, before or behind the fields of a save state,
  a field whose tag this version does not know, of any length and content, changes neither the
  verdict nor the restored context.\<close>

theorem deserialize_skips_unknown:
  assumes "tag = 0 \<or> 13 < tag" and "unat len = length p"
    and "restore_fields a s = (True, s1)"
  shows "m68k_deserialize (Some (state_header @ a @ state_field tag len @ p @ b)) s =
    m68k_deserialize (Some (state_header @ a @ b)) s"
proof -
  have "tag \<noteq> 1 \<and> tag \<noteq> 2 \<and> tag \<noteq> 3 \<and> tag \<noteq> 4 \<and> tag \<noteq> 5 \<and> tag \<noteq> 6 \<and> tag \<noteq> 7"
    "tag \<noteq> 8 \<and> tag \<noteq> 9 \<and> tag \<noteq> 10 \<and> tag \<noteq> 11 \<and> tag \<noteq> 12 \<and> tag \<noteq> 13"
    using assms(1) by auto
  then have "apply_field tag p s1 = Some s1"
    by (simp add: apply_field_def Let_def)
  then show ?thesis
    using restore_field [OF assms(2), of tag b s1] by (simp add: header_accepted restore_append [OF assms(3)])
qed

lemma deserialize_skips_unknown_witness:
  "m68k_deserialize (Some (state_header @ [] @ state_field 200 1 @ [7] @ state_field 3 4 @ [0, 0, 1, 0]))
     trap_state = m68k_deserialize (Some (state_header @ [] @ state_field 3 4 @ [0, 0, 1, 0])) trap_state"
  by (rule deserialize_skips_unknown) simp_all

text \<open>One malformed field, byte by byte.\<close>

lemma state_put_get:
  "state_put_16 (state_get_16 (x # y # q)) = [x, y]"
  "state_put_32 (state_get_32 (x # y # z # w # q)) = [x, y, z, w]"
proof -
  have "ucast (drop_bit 8 (push_bit 8 (ucast x) OR ucast y :: u16)) = x"
    "ucast (push_bit 8 (ucast x) OR ucast y :: u16) = y"
    by (rule bit_word_eqI, simp add: bit_simps; auto simp: bit_imp_le_length)+
  then show "state_put_16 (state_get_16 (x # y # q)) = [x, y]"
    by (simp add: state_put_16_def state_get_16_def)
  let ?v = "push_bit 24 (ucast x) OR push_bit 16 (ucast y) OR push_bit 8 (ucast z) OR ucast w :: u32"
  have "ucast (drop_bit 24 ?v) = x" "ucast (drop_bit 16 ?v) = y" "ucast (drop_bit 8 ?v) = z" "ucast ?v = w"
    by (rule bit_word_eqI, simp add: bit_simps; auto dest: bit_imp_le_length)+
  then show "state_put_32 (state_get_32 (x # y # z # w # q)) = [x, y, z, w]"
    by (simp add: state_put_32_def state_get_32_def numeral_3_eq_3 numeral_2_eq_2)
qed

lemma state_get_16_eq_1: "state_get_16 (x # y # q) = 1 \<longleftrightarrow> x = 0 \<and> y = 1"
proof
  assume "state_get_16 (x # y # q) = 1"
  then have "[x, y] = state_put_16 1" by (metis state_put_get(1))
  then show "x = 0 \<and> y = 1" by (simp add: state_put_16_def)
next
  assume "x = 0 \<and> y = 1"
  then show "state_get_16 (x # y # q) = 1" by (simp add: state_get_16_def)
qed

lemma state_get_32_model:
  assumes "\<not> state_get_32 [w, x, y, z] > 1"
  shows "[w, x, y, z] \<in> {[0, 0, 0, 0], [0, 0, 0, 1]}"
proof -
  have "unat (state_get_32 [w, x, y, z]) \<le> 1" using assms by (simp add: word_less_nat_alt)
  then have "state_get_32 [w, x, y, z] = 0 \<or> state_get_32 [w, x, y, z] = 1"
    by (metis le_Suc_eq le_zero_eq One_nat_def unat_eq_zero unat_1 word_unat_eq_iff)
  then have "[w, x, y, z] = state_put_32 0 \<or> [w, x, y, z] = state_put_32 1"
    by (metis state_put_get(2))
  then show ?thesis by (simp add: state_put_32_def)
qed

lemma malformed_field_rejected:
  assumes "length p < unat len \<or>
       tag \<in> {1, 2} \<and> len \<noteq> 32 \<or>
       tag \<in> {3, 5, 6, 7, 8, 9, 10, 13} \<and> len \<noteq> 4 \<or>
       tag = 4 \<and> len \<noteq> 2 \<or> tag = 11 \<and> len \<noteq> 6 \<or> tag = 12 \<and> len \<noteq> 8 \<or>
       tag = 13 \<and> take 4 p \<notin> {[0, 0, 0, 0], [0, 0, 0, 1]}"
  shows "restore_fields (tag # len # p) s = (False, s)"
proof (cases "length p < unat len")
  case False
  define q where "q = take (unat len) p"
  have len: "length q = unat len" using False by (simp add: q_def)
  have u: "unat len \<noteq> n" if "len \<noteq> of_nat n" for n using that by auto
  have "apply_field tag q s = None"
  proof (cases "tag = 13 \<and> len = 4")
    case True
    then have "length q = 4" using len by simp
    then obtain w x y z where q: "q = [w, x, y, z]"
      by (auto simp: numeral_eq_Suc length_Suc_conv)
    have "take 4 p = q" using True by (simp add: q_def)
    then have "state_get_32 q > 1"
      using assms True False state_get_32_model [of w x y z] by (auto simp: q)
    then show ?thesis using True len by (simp add: apply_field_def Let_def)
  next
    case other: False
    then show ?thesis
      using assms False u [of 32] u [of 4] u [of 2] u [of 6] u [of 8]
      unfolding apply_field_def Let_def len by auto
  qed
  then show ?thesis using False by (simp add: q_def)
qed simp

text \<open>C15: A malformed field is refused: when the fields up to some point restore, and the next one is
  cut short, or has a known tag and not the length of that tag (32 for the two register blocks,
  2 for the status register, 4 for the other single registers, the flags and the model, 6 for the
  decode state, 8 for the cycle counters), or is a model field that holds neither 0 nor 1, then
  the restore fails whatever follows, and the context keeps the fields that were applied before
  it, its transient latches as they were.\<close>

theorem deserialize_rejects:
  assumes "restore_fields a s = (True, s1)"
    and "length b = 1 \<or> (\<exists>tag len p. b = tag # len # p \<and>
      (length p < unat len \<or>
       tag \<in> {1, 2} \<and> len \<noteq> 32 \<or>
       tag \<in> {3, 5, 6, 7, 8, 9, 10, 13} \<and> len \<noteq> 4 \<or>
       tag = 4 \<and> len \<noteq> 2 \<or> tag = 11 \<and> len \<noteq> 6 \<or> tag = 12 \<and> len \<noteq> 8 \<or>
       tag = 13 \<and> take 4 p \<notin> {[0, 0, 0, 0], [0, 0, 0, 1]}))"
  shows "m68k_deserialize (Some (state_header @ a @ b)) s = (False, s1)"
proof -
  have "restore_fields b s1 = (False, s1)"
    using assms(2)
  proof
    assume "length b = 1"
    then show ?thesis by (auto simp: length_Suc_conv)
  next
    assume "\<exists>tag len p. b = tag # len # p \<and>
      (length p < unat len \<or>
       tag \<in> {1, 2} \<and> len \<noteq> 32 \<or>
       tag \<in> {3, 5, 6, 7, 8, 9, 10, 13} \<and> len \<noteq> 4 \<or>
       tag = 4 \<and> len \<noteq> 2 \<or> tag = 11 \<and> len \<noteq> 6 \<or> tag = 12 \<and> len \<noteq> 8 \<or>
       tag = 13 \<and> take 4 p \<notin> {[0, 0, 0, 0], [0, 0, 0, 1]})"
    then show ?thesis by (elim exE conjE) (simp only: malformed_field_rejected)
  qed
  then show ?thesis by (simp add: header_accepted restore_append [OF assms(1)])
qed

lemma deserialize_rejects_witness:
  "m68k_deserialize (Some (state_header @ (state_field 3 4 @ [0, 0, 1, 0]) @ [4, 3, 0x20, 0, 0])) trap_state =
     (False, trap_state\<lparr>pc := 0x100\<rparr>)"
  by (rule deserialize_rejects)
    (simp_all add: state_field_def apply_field_def Let_def state_get_32_def)

text \<open>C36: A bad header is refused and touches nothing: no buffer, fewer than eight bytes, or a
  buffer that does not start with \<open>R68S\<close> and version 1.\<close>

theorem deserialize_rejects_header:
  assumes "buffer = None \<or> (\<exists>b. buffer = Some b \<and>
    (length b < 8 \<or> take 6 b \<noteq> [0x52, 0x36, 0x38, 0x53, 0, 1]))"
  shows "m68k_deserialize buffer s = (False, s)"
proof (cases buffer)
  case (Some b)
  show ?thesis
  proof (cases "length b < 8")
    case False
    then obtain b0 b1 b2 b3 b4 b5 b6 b7 r where b: "b = [b0, b1, b2, b3, b4, b5, b6, b7] @ r"
      by (auto simp: not_less numeral_eq_Suc Suc_le_length_iff)
    have v: "state_get_16 (b4 # b5 # q) = 1 \<longleftrightarrow> b4 = 0 \<and> b5 = 1" for q
      by (rule state_get_16_eq_1)
    show ?thesis
      using assms False Some unfolding b
      by (auto simp: m68k_deserialize_def v numeral_3_eq_3 numeral_2_eq_2)
  qed (simp add: Some m68k_deserialize_def)
qed (simp add: m68k_deserialize_def)

lemma deserialize_rejects_header_witness:
  "m68k_deserialize (Some [0x52, 0x36, 0x38, 0x53, 0, 2, 0, 0]) trap_state = (False, trap_state)"
  by (rule deserialize_rejects_header) simp

subsection \<open>Truncated save states\<close>

text \<open>The places where a cut leaves whole fields, as offsets from the end of the header.\<close>

fun field_ends :: "(u8 \<times> u8 list) list \<Rightarrow> nat list" where
  "field_ends [] = [0]"
| "field_ends ((tag, p) # fs) = 0 # map ((+) (2 + length p)) (field_ends fs)"

definition encode_fields :: "(u8 \<times> u8 list) list \<Rightarrow> u8 list" where
  "encode_fields fs = concat (map (\<lambda>(tag, p). state_field tag (of_nat (length p)) @ p) fs)"

lemma restore_take:
  assumes "length p < 256"
  shows "restore_fields (take k (encode_fields ((tag, p) # fs))) s =
     (if k = 0 then (True, s)
      else if k < 2 + length p then (False, s)
      else case apply_field tag p s of None \<Rightarrow> (False, s)
           | Some s \<Rightarrow> restore_fields (take (k - (2 + length p)) (encode_fields fs)) s)"
proof -
  have "unat (of_nat (length p) :: u8) = length p"
    using assms by (simp add: unat_of_nat take_bit_nat_eq_self)
  then show ?thesis
    by (cases k rule: nat.exhaust; cases "k - 1")
      (auto simp: encode_fields_def state_field_def split: option.split)
qed

lemma restore_take_Nil: "restore_fields (take k (encode_fields [])) s = (True, s)"
  by (simp add: encode_fields_def)

lemma restore_cut_inside:
  assumes "\<forall>f\<in>set fs. length (snd f) < 256" and "k \<le> length (encode_fields fs)"
    and "k \<notin> set (field_ends fs)"
  shows "fst (restore_fields (take k (encode_fields fs)) s) = False"
  using assms
proof (induction fs arbitrary: k s)
  case Nil
  then show ?case by (simp add: encode_fields_def)
next
  case (Cons f fs)
  obtain tag p where f: "f = (tag, p)" by fastforce
  have p: "length p < 256" using Cons.prems(1) f by simp
  have l: "length (encode_fields (f # fs)) = 2 + length p + length (encode_fields fs)"
    by (simp add: encode_fields_def f state_field_def)
  have k: "k \<noteq> 0" "k - (2 + length p) \<notin> set (field_ends fs)" if "2 + length p \<le> k"
    using Cons.prems(3) that by (auto simp: f image_iff)
  show ?case
    using Cons.prems Cons.IH [of "k - (2 + length p)"] k l
    unfolding f restore_take [OF p] by (auto split: option.split)
qed

definition state_fields :: "'h cpu \<Rightarrow> (u8 \<times> u8 list) list" where
  "state_fields s =
    [(1, state_regs (d_regs s)), (2, state_regs (a_regs s)), (3, state_put_32 (pc s)),
     (4, state_put_16 (sr s)), (5, state_put_32 (usp s)), (6, state_put_32 (ssp s)),
     (7, state_put_32 (vbr s)), (8, state_put_32 (sfc s)), (9, state_put_32 (dfc s)),
     (10, [bool_byte (stopped s), word_of_int (irq_level s), bool_byte (nmi_pending s),
           bool_byte (trace_pending s)]),
     (11, state_put_16 (ir s) @ state_put_32 (ppc s)),
     (12, state_put_32 (word_of_int (target_cycles s)) @ state_put_32 (word_of_int (cycles_remaining s))),
     (13, state_put_32 (of_nat (model_code (model s))))]"

lemma state_bytes_fields: "state_bytes s = state_header @ encode_fields (state_fields s)"
  by (simp add: state_bytes_def encode_fields_def state_fields_def)

lemma state_field_ends:
  "field_ends (state_fields s) = [0, 34, 68, 74, 78, 84, 90, 96, 102, 108, 114, 122, 132, 138]"
  by (simp add: state_fields_def)

lemma state_fields_short: "\<forall>f\<in>set (state_fields s). length (snd f) < 256"
  by (simp add: state_fields_def)

lemma restore_cut_between:
  assumes "k \<in> {0, 34, 68, 74, 78, 84, 90, 96, 102, 108, 114, 122, 132, 138}"
    and "0 \<le> irq_level s" "irq_level s < 256"
    and "- (2 ^ 31) \<le> target_cycles s" "target_cycles s < 2 ^ 31"
    and "- (2 ^ 31) \<le> cycles_remaining s" "cycles_remaining s < 2 ^ 31"
  shows "restore_fields (take k (encode_fields (state_fields s))) t = (True,
    t\<lparr>d_regs := (\<lambda>i. if i < 8 \<and> 34 \<le> k then d_regs s i else d_regs t i),
      a_regs := (\<lambda>i. if i < 8 \<and> 68 \<le> k then a_regs s i else a_regs t i),
      pc := (if 74 \<le> k then pc s else pc t), sr := (if 78 \<le> k then sr s else sr t),
      usp := (if 84 \<le> k then usp s else usp t), ssp := (if 90 \<le> k then ssp s else ssp t),
      vbr := (if 96 \<le> k then vbr s else vbr t), sfc := (if 102 \<le> k then sfc s else sfc t),
      dfc := (if 108 \<le> k then dfc s else dfc t),
      stopped := (if 114 \<le> k then stopped s else stopped t),
      irq_level := (if 114 \<le> k then irq_level s else irq_level t),
      nmi_pending := (if 114 \<le> k then nmi_pending s else nmi_pending t),
      trace_pending := (if 114 \<le> k then trace_pending s else trace_pending t),
      ir := (if 122 \<le> k then ir s else ir t), ppc := (if 122 \<le> k then ppc s else ppc t),
      target_cycles := (if 132 \<le> k then target_cycles s else target_cycles t),
      cycles_remaining := (if 132 \<le> k then cycles_remaining s else cycles_remaining t),
      model := (if 138 \<le> k then model s else model t)\<rparr>)"
proof -
  have "sint (word_of_int k :: u32) = k" if "- (2 ^ 31) \<le> k" "k < 2 ^ 31" for k
    using that by (simp add: sint_sbintrunc' signed_take_bit_int_eq_self)
  then have c: "sint (word_of_int (target_cycles s) :: u32) = target_cycles s"
    "sint (word_of_int (cycles_remaining s) :: u32) = cycles_remaining s" using assms by simp_all
  have i: "uint (word_of_int (irq_level s) :: u8) = irq_level s"
    using assms(2,3) by (simp add: uint_word_of_int)
  have m: "(of_nat (model_code m) :: u32) > 1 = False"
    "(if (of_nat (model_code m) :: u32) = 0 then M68K_MODEL_68000 else M68K_MODEL_68010) = m" for m
    by (cases m; simp)+
  show ?thesis
    using assms(1) unfolding state_fields_def insert_iff empty_iff
    by (elim disjE)
      (simp_all add: restore_take restore_take_Nil apply_field_def Let_def get_regs_state_regs c i m)
qed

text \<open>C16: A truncated save state is refused exactly when the cut is inside a field: cut after any of
  the 13 fields, or behind the bare header, the state is accepted, the fields that are left are
  restored, and the registers of the missing ones keep the values they had in the context; cut
  anywhere else the restore fails. (The header and the documentation promise that truncated data
  is refused.)\<close>

theorem deserialize_accepts_truncated:
  assumes "k \<le> 146"
    and "m68k_serialize s (Some b) (length b) = (n, Some out)" and "146 \<le> length b"
    and "0 \<le> irq_level s" "irq_level s < 256"
    and "- (2 ^ 31) \<le> target_cycles s" "target_cycles s < 2 ^ 31"
    and "- (2 ^ 31) \<le> cycles_remaining s" "cycles_remaining s < 2 ^ 31"
    and "m68k_deserialize (Some (take k out)) t = (ok, t')"
  shows "ok = (k \<in> {8, 42, 76, 82, 86, 92, 98, 104, 110, 116, 122, 130, 140, 146}) \<and>
    (ok \<longrightarrow> t' =
      t\<lparr>d_regs := (\<lambda>i. if i < 8 \<and> 42 \<le> k then d_regs s i else d_regs t i),
        a_regs := (\<lambda>i. if i < 8 \<and> 76 \<le> k then a_regs s i else a_regs t i),
        pc := (if 82 \<le> k then pc s else pc t), sr := (if 86 \<le> k then sr s else sr t),
        usp := (if 92 \<le> k then usp s else usp t), ssp := (if 98 \<le> k then ssp s else ssp t),
        vbr := (if 104 \<le> k then vbr s else vbr t), sfc := (if 110 \<le> k then sfc s else sfc t),
        dfc := (if 116 \<le> k then dfc s else dfc t),
        stopped := (if 122 \<le> k then stopped s else stopped t),
        irq_level := (if 122 \<le> k then irq_level s else irq_level t),
        nmi_pending := (if 122 \<le> k then nmi_pending s else nmi_pending t),
        trace_pending := (if 122 \<le> k then trace_pending s else trace_pending t),
        ir := (if 130 \<le> k then ir s else ir t), ppc := (if 130 \<le> k then ppc s else ppc t),
        target_cycles := (if 140 \<le> k then target_cycles s else target_cycles t),
        cycles_remaining := (if 140 \<le> k then cycles_remaining s else cycles_remaining t),
        model := (if 146 \<le> k then model s else model t),
        exception_thrown := 0, fault_valid := False, fault_pc_valid := False,
        fault_bus_word_valid := False, operand_program_space := False, group0_fault := False,
        fault_trap_active := False, in_address_error := False, in_bus_error := False\<rparr>)"
proof -
  have out: "take k out = take k (state_bytes s)"
    using assms(1,2,3) by (auto simp: m68k_serialize_def state_bytes_length state_size_def)
  have bytes: "state_bytes s = state_header @ encode_fields (state_fields s)"
    by (rule state_bytes_fields)
  have h: "length state_header = 8" by (simp add: state_header_def)
  show ?thesis
  proof (cases "k < 8")
    case True
    then have "length (take k out) < 8" by simp
    then have "\<not> ok" using assms(10) by (simp add: m68k_deserialize_def)
    then show ?thesis using True by auto
  next
    case False
    define j where "j = k - 8"
    have k: "k = j + 8" using False by (simp add: j_def)
    have "take k out = state_header @ take j (encode_fields (state_fields s))"
      unfolding out bytes by (simp add: k h)
    then have r: "m68k_deserialize (Some (take k out)) t =
        (case restore_fields (take j (encode_fields (state_fields s))) t of
           (ok, t) \<Rightarrow> if ok then (True, clear_transients t) else (False, t))"
      by (simp only: header_accepted)
    show ?thesis
    proof (cases "j \<in> {0, 34, 68, 74, 78, 84, 90, 96, 102, 108, 114, 122, 132, 138}")
      case True
      have "k \<in> {8, 42, 76, 82, 86, 92, 98, 104, 110, 116, 122, 130, 140, 146}"
        using True k by auto
      moreover note e = r [unfolded restore_cut_between [OF True assms(4-9)] prod.case if_True assms(10)]
      moreover have "(42 \<le> k) = (34 \<le> j)" "(76 \<le> k) = (68 \<le> j)" "(82 \<le> k) = (74 \<le> j)"
        "(86 \<le> k) = (78 \<le> j)" "(92 \<le> k) = (84 \<le> j)" "(98 \<le> k) = (90 \<le> j)"
        "(104 \<le> k) = (96 \<le> j)" "(110 \<le> k) = (102 \<le> j)" "(116 \<le> k) = (108 \<le> j)"
        "(122 \<le> k) = (114 \<le> j)" "(130 \<le> k) = (122 \<le> j)" "(140 \<le> k) = (132 \<le> j)"
        "(146 \<le> k) = (138 \<le> j)"
        by (simp_all add: k)
      ultimately show ?thesis
        by (simp only: prod.inject clear_transients_def simp_thms)
    next
      case outside: False
      have "j \<le> length (encode_fields (state_fields s))"
        using assms(1) state_bytes_length [of s] unfolding bytes by (simp add: k h state_size_def)
      then have "fst (restore_fields (take j (encode_fields (state_fields s))) t) = False"
        using outside by (intro restore_cut_inside state_fields_short) (simp_all add: state_field_ends)
      then have "\<not> ok" using assms(10) unfolding r by (auto split: prod.splits)
      then show ?thesis using outside k by auto
    qed
  qed
qed

lemma deserialize_accepts_truncated_witness:
  "\<exists>n out t'. m68k_serialize trap_state (Some (replicate 146 0)) 146 = (n, Some out) \<and>
     m68k_deserialize (Some (take 82 out)) (m68k_init None 0 ()) = (True, t') \<and>
     pc t' = 0x200 \<and> ssp t' = 0 \<and> ssp trap_state \<noteq> 0 \<and>
     fst (m68k_deserialize (Some (take 143 out)) (m68k_init None 0 ())) = False"
proof -
  have q: "0 \<le> irq_level trap_state" "irq_level trap_state < 256"
    "- (2 ^ 31) \<le> target_cycles trap_state" "target_cycles trap_state < 2 ^ 31"
    "- (2 ^ 31) \<le> cycles_remaining trap_state" "cycles_remaining trap_state < 2 ^ 31"
    by (simp_all add: trap_state_def m68k_init_def)
  have b: "146 \<le> length (replicate 146 (0 :: u8))" by simp
  obtain n out where m: "m68k_serialize trap_state (Some (replicate 146 0)) (length (replicate 146 (0 :: u8))) =
      (n, Some out)"
    by (simp add: m68k_serialize_def state_size_def)
  define u where "u = m68k_init None 0 ()"
  obtain ok t' where r: "m68k_deserialize (Some (take 82 out)) u = (ok, t')" by fastforce
  obtain no t'' where r': "m68k_deserialize (Some (take 143 out)) u = (no, t'')" by fastforce
  have l: "(82 :: nat) \<le> 146" "(143 :: nat) \<le> 146" by simp_all
  note d = deserialize_accepts_truncated [OF l(1) m b q r]
    and d' = deserialize_accepts_truncated [OF l(2) m b q r']
  have ok: "ok" "\<not> no" using d d' by simp_all
  note e = d [THEN conjunct2, rule_format, OF ok(1)]
  have "pc t' = pc trap_state" "ssp t' = ssp u" unfolding e by simp_all
  then have "pc t' = 0x200" "ssp t' = 0" "ssp trap_state \<noteq> 0"
    by (simp_all add: u_def trap_state_def m68k_init_def)
  then show ?thesis
    using m r r' ok unfolding u_def [symmetric] by (auto intro!: exI)
qed

end
