(* ===== verification/M68k_Loader.thy ===== *)
theory M68k_Loader
  imports M68k_Memory
begin

section \<open>Program loading\<close>

text \<open>
  The loaders of \<open>src/loader.c\<close>: Motorola S-records, raw binaries and Intel HEX. A
  file is its contents, a list of bytes, or \<open>None\<close> when \<open>fopen\<close> fails; a line is
  what \<open>fgets\<close> puts in the buffer, up to the first null byte. The messages on
  \<open>stderr\<close> and \<open>stdout\<close> have no effect on the context and are left out. A record
  is the list of the characters of its line, and \<open>line ! i\<close> is \<open>line[i]\<close>; the
  length checks of the code keep every index inside the line. The theorems: records spelled out
  in hexadecimal are read back and do what they say, a binary is loaded as far as memory
  reaches, the S-record loader is a loop over lines, and which lines its buffer loses.
\<close>

subsection \<open>Characters and stores\<close>

definition hex_val :: "u8 \<Rightarrow> u8" where
  "hex_val c =
     (if c \<ge> 0x30 \<and> c \<le> 0x39 then c - 0x30
      else if c \<ge> 0x41 \<and> c \<le> 0x46 then c - 0x41 + 10
      else if c \<ge> 0x61 \<and> c \<le> 0x66 then c - 0x61 + 10
      else 0)"

definition isxdigit :: "u8 \<Rightarrow> bool" where
  "isxdigit c =
     (c \<ge> 0x30 \<and> c \<le> 0x39 \<or> c \<ge> 0x41 \<and> c \<le> 0x46 \<or> c \<ge> 0x61 \<and> c \<le> 0x66)"

definition is_valid_hex :: "u8 list \<Rightarrow> nat \<Rightarrow> bool" where
  "is_valid_hex p digits = list_all (\<lambda>i. isxdigit (p ! i)) [0..<digits]"

definition parse_byte :: "u8 list \<Rightarrow> nat \<Rightarrow> u8" where
  "parse_byte line i = push_bit 4 (hex_val (line ! i)) OR hex_val (line ! (i + 1))"

definition loader_store :: "u32 \<Rightarrow> u8 \<Rightarrow> 'h cpu \<Rightarrow> bool \<times> 'h cpu" where
  "loader_store addr v s =
     (let a = addr AND 0x00FFFFFF
      in case memory s of
           None \<Rightarrow> (False, s)
         | Some m \<Rightarrow>
             (if a < memory_size s then (True, s\<lparr>memory := Some (m(a := v))\<rparr>)
              else (False, s)))"

text \<open>The data loops: consecutive stores up to the first that is out of bounds, with the
  number of bytes stored.\<close>

primrec store_data :: "u32 \<Rightarrow> u8 list \<Rightarrow> 'h cpu \<Rightarrow> nat \<times> 'h cpu" where
  "store_data addr [] s = (0, s)"
| "store_data addr (v # vs) s =
     (case loader_store addr v s of
        (True, s) \<Rightarrow> (case store_data (addr + 1) vs s of (n, s) \<Rightarrow> (Suc n, s))
      | (False, s) \<Rightarrow> (0, s))"

subsection \<open>Lines\<close>

text \<open>\<open>fgets(line, size, f)\<close>: at most \<open>size - 1\<close> bytes, up to and with a newline;
  then the C string, up to the first null byte.\<close>

primrec fgets :: "nat \<Rightarrow> u8 list \<Rightarrow> u8 list \<times> u8 list" where
  "fgets 0 f = ([], f)"
| "fgets (Suc n) f =
     (case f of
        [] \<Rightarrow> ([], [])
      | c # f \<Rightarrow>
          (if c = 0x0A then ([c], f)
           else (case fgets n f of (line, f) \<Rightarrow> (c # line, f))))"

definition c_string :: "u8 list \<Rightarrow> u8 list" where
  "c_string b = takeWhile (\<lambda>c. c \<noteq> 0) b"

definition strip_last :: "u8 \<Rightarrow> u8 list \<Rightarrow> u8 list" where
  "strip_last c line = (if line \<noteq> [] \<and> last line = c then butlast line else line)"

lemma fgets_le: "length (snd (fgets n f)) \<le> length f"
  by (induction n arbitrary: f) (auto split: list.split prod.split, metis le_SucI snd_conv)

lemma fgets_rest:
  "(buf, rest) = fgets n f \<Longrightarrow> f \<noteq> [] \<Longrightarrow> 0 < n \<Longrightarrow> length rest < length f"
  using fgets_le
  by (cases n; cases f) (auto split: if_splits prod.splits, metis less_Suc_eq_le snd_conv)

subsection \<open>S-records\<close>

text \<open>The checksum loop \<open>sum += parse_byte(...)\<close> over bytes \<open>start\<close>,
  \<open>start + 2\<close>, ...\<close>

definition byte_sum :: "u8 list \<Rightarrow> nat \<Rightarrow> nat \<Rightarrow> u32" where
  "byte_sum line start n = (\<Sum>i\<leftarrow>[0..<n]. ucast (parse_byte line (start + i * 2)))"

definition record_bytes :: "u8 list \<Rightarrow> nat \<Rightarrow> nat \<Rightarrow> u8 list" where
  "record_bytes line start n = map (\<lambda>i. parse_byte line (start + i * 2)) [0..<n]"

definition parse_addr :: "u8 list \<Rightarrow> u32" where
  "parse_addr bs = foldl (\<lambda>addr b. push_bit 8 addr OR ucast b) 0 bs"

definition srec_addr_len :: "u8 \<Rightarrow> nat option" where
  "srec_addr_len ty =
     (if ty = 0x30 \<or> ty = 0x31 then Some 2
      else if ty = 0x32 then Some 3
      else if ty = 0x33 then Some 4
      else if ty = 0x35 then None
      else if ty = 0x37 then Some 4
      else if ty = 0x38 then Some 3
      else if ty = 0x39 then Some 2
      else None)"

text \<open>The guards of one record: the type, count and address bytes of a record that is not
  skipped.\<close>

definition srec_parse :: "u8 list \<Rightarrow> (u8 \<times> u32 \<times> u8 list) option" where
  "srec_parse line =
     (let len = length line
      in if len < 4 then None
         else if line ! 0 \<noteq> 0x53 then None
         else (let ty = line ! 1
         in if \<not> is_valid_hex (drop 2 line) 2 then None
         else (let count = unat (parse_byte line 2)
         in if len < 4 + count * 2 then None
         else if \<not> is_valid_hex (drop 2 line) ((count + 1) * 2) then None
         else if byte_sum line 2 (count + 1) AND 0xFF \<noteq> 0xFF then None
         else (case srec_addr_len ty of
                 None \<Rightarrow> None
               | Some addr_len \<Rightarrow>
                   (if count < addr_len + 1 then None
                    else Some (ty, parse_addr (record_bytes line 4 addr_len),
                               record_bytes line (4 + addr_len * 2) (count - addr_len - 1)))))))"

text \<open>One record; \<open>True\<close> for the \<open>break\<close> after a start address.\<close>

definition srec_record :: "'h host_callbacks \<Rightarrow> u8 list \<Rightarrow> 'h cpu \<Rightarrow> bool \<times> 'h cpu" where
  "srec_record env line s =
     (case srec_parse line of
        None \<Rightarrow> (False, s)
      | Some (ty, addr, data) \<Rightarrow>
          (if ty = 0x31 \<or> ty = 0x32 \<or> ty = 0x33 then (False, snd (store_data addr data s))
           else if ty = 0x37 \<or> ty = 0x38 \<or> ty = 0x39 then (True, m68k_set_pc env addr s)
           else (False, s)))"

function load_srec_lines :: "'h host_callbacks \<Rightarrow> u8 list \<Rightarrow> 'h cpu \<Rightarrow> 'h cpu" where
  "load_srec_lines env f s =
     (if f = [] then s
      else (case fgets 511 f of
              (buf, rest) \<Rightarrow>
                (case srec_record env (strip_last 0x0D (strip_last 0x0A (c_string buf))) s of
                   (stop, s) \<Rightarrow> if stop then s else load_srec_lines env rest s)))"
  by pat_completeness auto

termination load_srec_lines
  by (relation "measure (\<lambda>(env, f, s). length f)") (auto intro: fgets_rest)

declare load_srec_lines.simps [simp del]

definition m68k_load_srec ::
  "'h host_callbacks \<Rightarrow> u8 list option \<Rightarrow> 'h cpu \<Rightarrow> bool \<times> 'h cpu" where
  "m68k_load_srec env file s =
     (case file of None \<Rightarrow> (False, s) | Some f \<Rightarrow> (True, load_srec_lines env f s))"

subsection \<open>Raw binaries\<close>

text \<open>The result, the number of bytes written (\<open>size_out\<close>) and the context.\<close>

definition m68k_load_bin ::
  "u8 list option \<Rightarrow> u32 \<Rightarrow> 'h cpu \<Rightarrow> bool \<times> u32 \<times> 'h cpu" where
  "m68k_load_bin file addr s =
     (case file of
        None \<Rightarrow> (False, 0, s)
      | Some f \<Rightarrow> (case store_data addr f s of (n, s) \<Rightarrow> (True, of_nat n, s)))"

subsection \<open>Intel HEX\<close>

text \<open>The guards of one record: its type, offset and data.\<close>

definition ihex_parse :: "u8 list \<Rightarrow> (u8 \<times> u32 \<times> u8 list) option" where
  "ihex_parse line =
     (let len = length line
      in if len = 0 then None
         else if line ! 0 \<noteq> 0x3A then None
         else if len < 11 then None
         else if \<not> is_valid_hex (drop 1 line) 8 then None
         else (let count = unat (parse_byte line 1);
                   offset = push_bit 8 (ucast (parse_byte line 3)) OR ucast (parse_byte line 5);
                   ty = parse_byte line 7
         in if len < 11 + count * 2 then None
         else if \<not> is_valid_hex (drop 1 line) ((count + 5) * 2) then None
         else if byte_sum line 1 (count + 5) AND 0xFF \<noteq> 0 then None
         else Some (ty, offset, record_bytes line 9 count)))"

text \<open>One record: \<open>None\<close> for the end-of-file record, else the new base and context.\<close>

definition ihex_record ::
  "'h host_callbacks \<Rightarrow> u8 list \<Rightarrow> u32 \<Rightarrow> 'h cpu \<Rightarrow> (u32 \<times> 'h cpu) option" where
  "ihex_record env line base s =
     (case ihex_parse line of
        None \<Rightarrow> Some (base, s)
      | Some (ty, offset, data) \<Rightarrow>
          (if ty = 0x00 then Some (base, snd (store_data (base + offset) data s))
           else if ty = 0x01 then None
           else if ty = 0x02
           then Some (if length data = 2 then push_bit 4 (parse_addr data) else base, s)
           else if ty = 0x04
           then Some (if length data = 2 then push_bit 16 (parse_addr data) else base, s)
           else if ty = 0x03
           then Some (base, if length data = 4
                            then (let cs = parse_addr (take 2 data);
                                      ip = parse_addr (drop 2 data)
                                  in m68k_set_pc env (push_bit 4 cs + ip) s)
                            else s)
           else if ty = 0x05
           then Some (base, if length data = 4 then m68k_set_pc env (parse_addr data) s else s)
           else Some (base, s)))"

definition strip_eol :: "u8 list \<Rightarrow> u8 list" where
  "strip_eol line = rev (dropWhile (\<lambda>c. c = 0x0A \<or> c = 0x0D) (rev line))"

function load_ihex_lines :: "'h host_callbacks \<Rightarrow> u8 list \<Rightarrow> u32 \<Rightarrow> 'h cpu \<Rightarrow> 'h cpu" where
  "load_ihex_lines env f base s =
     (if f = [] then s
      else (case fgets 599 f of
              (buf, rest) \<Rightarrow>
                (case ihex_record env (strip_eol (c_string buf)) base s of
                   None \<Rightarrow> s
                 | Some (base, s) \<Rightarrow> load_ihex_lines env rest base s)))"
  by pat_completeness auto

termination load_ihex_lines
  by (relation "measure (\<lambda>(env, f, base, s). length f)") (auto intro: fgets_rest)

declare load_ihex_lines.simps [simp del]

definition m68k_load_ihex ::
  "'h host_callbacks \<Rightarrow> u8 list option \<Rightarrow> 'h cpu \<Rightarrow> bool \<times> 'h cpu" where
  "m68k_load_ihex env file s =
     (case file of None \<Rightarrow> (False, s) | Some f \<Rightarrow> (True, load_ihex_lines env f 0 s))"

subsection \<open>What the stores do\<close>

text \<open>Bytes from \<open>addr\<close> on, on addresses cut to 24 bits; later ones win.\<close>

definition write_bytes :: "u32 \<Rightarrow> u8 list \<Rightarrow> (u32 \<Rightarrow> u8) \<Rightarrow> u32 \<Rightarrow> u8" where
  "write_bytes addr vs m = fold (\<lambda>i m. m(mask_address_24 (addr + of_nat i) := vs ! i)) [0..<length vs] m"

definition fits_memory :: "u32 \<Rightarrow> nat \<Rightarrow> 'h cpu \<Rightarrow> bool" where
  "fits_memory addr n s \<longleftrightarrow> memory s \<noteq> None \<and> (\<forall>i<n. mask_address_24 (addr + of_nat i) < memory_size s)"

lemma write_bytes_Nil [simp]: "write_bytes addr [] m = m"
  by (simp add: write_bytes_def)

lemma write_bytes_Cons:
  "write_bytes addr (v # vs) m = write_bytes (addr + 1) vs (m(mask_address_24 addr := v))"
proof -
  have "[0..<length (v # vs)] = 0 # map Suc [0..<length vs]"
    by (simp add: map_Suc_upt upt_conv_Cons del: upt_Suc)
  then show ?thesis
    by (simp add: write_bytes_def fold_map o_def add.assoc del: upt_Suc)
qed

lemma store_data_spec:
  "memory s \<noteq> None \<Longrightarrow> store_data addr vs s = (n, s') \<Longrightarrow>
   n \<le> length vs \<and> s' = s\<lparr>memory := Some (write_bytes addr (take n vs) (ram s))\<rparr> \<and>
   fits_memory addr n s \<and>
   (n < length vs \<longrightarrow> \<not> mask_address_24 (addr + of_nat n) < memory_size s)"
proof (induction vs arbitrary: addr s n s')
  case Nil
  then show ?case by (auto simp: fits_memory_def ram_def)
next
  case (Cons v vs)
  let ?a = "mask_address_24 addr"
  show ?case
  proof (cases "?a < memory_size s")
    case True
    define m where "m = (ram s)(?a := v)"
    let ?s = "s\<lparr>memory := Some m\<rparr>"
    obtain k s'' where k: "store_data (addr + 1) vs ?s = (k, s'')" by fastforce
    have r: "n = Suc k" "s' = s''"
      using Cons.prems True k
      by (auto simp: loader_store_def mask_address_24_def [symmetric] ram_def Let_def m_def)
    have "(\<forall>i<Suc k. mask_address_24 (addr + of_nat i) < memory_size s)"
      if "\<forall>i<k. mask_address_24 (addr + 1 + of_nat i) < memory_size s"
      using that True by (auto simp: less_Suc_eq_0_disj add.assoc)
    then show ?thesis
      using Cons.IH [OF _ k] r Cons.prems(1)
      by (auto simp: write_bytes_Cons fits_memory_def add.assoc m_def [symmetric])
  next
    case False
    then show ?thesis
      using Cons.prems
      by (auto simp: loader_store_def mask_address_24_def [symmetric] ram_def Let_def fits_memory_def)
  qed
qed

lemma write_bytes_outside:
  "\<forall>i<length vs. x \<noteq> mask_address_24 (addr + of_nat i) \<Longrightarrow> write_bytes addr vs m x = m x"
proof (induction vs arbitrary: addr m)
  case (Cons v vs)
  then have "x \<noteq> mask_address_24 addr" "\<forall>i<length vs. x \<noteq> mask_address_24 (addr + 1 + of_nat i)"
    by (auto simp: less_Suc_eq_0_disj add.assoc)
  with Cons.IH show ?case by (simp add: write_bytes_Cons)
qed simp

lemma unat_of_nat_add_mod: "unat (a + of_nat i :: u32) mod 2 ^ 24 = (unat a + i) mod 2 ^ 24"
  by (simp add: unat_word_ariths unat_of_nat mod_simps mod_mod_cancel)

lemma mod_add_small: "(x :: nat) mod n = (x + i) mod n \<Longrightarrow> 0 < i \<Longrightarrow> i < n \<Longrightarrow> False"
  using mod_eq_dvd_iff_nat [of x "x + i" n] by (auto dest: dvd_imp_le)

lemma mask_24_distinct:
  assumes "i < 2 ^ 24" and "0 < i"
  shows "mask_address_24 a \<noteq> mask_address_24 (a + of_nat i)"
proof
  assume "mask_address_24 a = mask_address_24 (a + of_nat i)"
  then have "unat a mod 2 ^ 24 = (unat a + i) mod 2 ^ 24"
    using assms by (metis mask_24_unat unat_of_nat_add_mod)
  then show False using assms mod_add_small by blast
qed

lemma write_bytes_inside:
  "i < length vs \<Longrightarrow> length vs \<le> 2 ^ 24 \<Longrightarrow>
   write_bytes addr vs m (mask_address_24 (addr + of_nat i)) = vs ! i"
proof (induction vs arbitrary: addr m i)
  case (Cons v vs)
  show ?case
  proof (cases i)
    case 0
    have "\<forall>k<length vs. mask_address_24 addr \<noteq> mask_address_24 (addr + 1 + of_nat k)"
      using mask_24_distinct [of "Suc _" addr] Cons.prems(2) by (auto simp: add.assoc)
    then show ?thesis by (simp add: 0 write_bytes_Cons write_bytes_outside)
  next
    case (Suc k)
    then show ?thesis using Cons.IH [of k "addr + 1"] Cons.prems by (simp add: write_bytes_Cons add.assoc)
  qed
qed simp

lemma store_data_bytes:
  assumes "memory s \<noteq> None" and "length vs \<le> 2 ^ 24"
  shows "\<exists>k\<le>length vs. fst (store_data addr vs s) = k \<and>
    snd (store_data addr vs s) = s\<lparr>memory := memory (snd (store_data addr vs s))\<rparr> \<and>
    (k < length vs \<longrightarrow> \<not> mask_address_24 (addr + of_nat k) < memory_size s) \<and>
    (\<forall>i<k. mask_address_24 (addr + of_nat i) < memory_size s \<and>
       ram (snd (store_data addr vs s)) (mask_address_24 (addr + of_nat i)) = vs ! i) \<and>
    (\<forall>x. (\<forall>i<k. x \<noteq> mask_address_24 (addr + of_nat i)) \<longrightarrow>
       ram (snd (store_data addr vs s)) x = ram s x)"
proof -
  obtain k s1 where d: "store_data addr vs s = (k, s1)" by fastforce
  note spec = store_data_spec [OF assms(1) d]
  have "s1 = s\<lparr>memory := memory s1\<rparr>" using spec by simp
  moreover have r: "ram s1 = write_bytes addr (take k vs) (ram s)" using spec by simp
  have "ram s1 (mask_address_24 (addr + of_nat i)) = vs ! i" if "i < k" for i
    using write_bytes_inside [of i "take k vs" addr "ram s"] that spec assms(2) by (simp add: r)
  moreover have "ram s1 x = ram s x" if "\<forall>i<k. x \<noteq> mask_address_24 (addr + of_nat i)" for x
    using write_bytes_outside [of "take k vs" x addr "ram s"] that by (simp add: r)
  ultimately show ?thesis using spec by (simp add: d fits_memory_def)
qed



subsection \<open>Hexadecimal text\<close>

definition hex_digit :: "u8 \<Rightarrow> u8" where
  "hex_digit n = (if n < 10 then 0x30 + n else 0x37 + n)"

definition hex_text :: "u8 list \<Rightarrow> u8 list" where
  "hex_text bs = concat (map (\<lambda>b. [hex_digit (drop_bit 4 b), hex_digit (b AND 0xF)]) bs)"

lemma hex_digit_cases:
  assumes "n < 16"
  shows "hex_val (hex_digit n) = n" "isxdigit (hex_digit n)"
proof -
  have "\<forall>k\<in>set [0..<16]. hex_val (hex_digit (of_nat k)) = of_nat k \<and> isxdigit (hex_digit (of_nat k))"
    by (simp add: upt_rec hex_val_def hex_digit_def isxdigit_def)
  moreover have "unat n \<in> set [0..<16]" using assms by (simp add: word_less_nat_alt)
  ultimately show "hex_val (hex_digit n) = n" "isxdigit (hex_digit n)"
    by (metis of_nat_unat ucast_id)+
qed

lemma nibbles: "drop_bit 4 (b :: u8) < 16" "b AND 0xF < 16"
  "push_bit 4 (drop_bit 4 b) OR (b AND 0xF) = (b :: u8)"
proof -
  have "b AND 0xF \<le> 0xF" by (rule word_and_le1)
  then show "b AND 0xF < 16" by (rule order_le_less_trans) simp
  have "unat (drop_bit 4 b) < 16"
    using unsigned_less [where 'a = nat, of b] by (simp only: unat_drop_bit_eq) (simp add: drop_bit_eq_div)
  then show "drop_bit 4 b < 16" by (simp add: word_less_nat_alt)
  have m: "(0xF :: u8) = mask 4" by (simp add: mask_numeral)
  show "push_bit 4 (drop_bit 4 b) OR (b AND 0xF) = b"
    unfolding m by (rule bit_word_eqI) (auto simp: bit_simps)
qed

lemma hex_text_Cons: "hex_text (b # bs) = hex_digit (drop_bit 4 b) # hex_digit (b AND 0xF) # hex_text bs"
  by (simp add: hex_text_def)

lemma hex_text_length [simp]: "length (hex_text bs) = 2 * length bs"
  by (induction bs) (simp_all add: hex_text_Cons hex_text_def [of "[]"])

lemma hex_text_nth:
  "i < length bs \<Longrightarrow> hex_text bs ! (2 * i) = hex_digit (drop_bit 4 (bs ! i)) \<and>
     hex_text bs ! Suc (2 * i) = hex_digit (bs ! i AND 0xF)"
proof (induction bs arbitrary: i)
  case (Cons b bs)
  then show ?case by (cases i) (simp_all add: hex_text_Cons)
qed simp

lemma parse_byte_hex:
  assumes "i < length bs"
  shows "parse_byte (pre @ hex_text bs) (length pre + i * 2) = bs ! i"
  using hex_text_nth [OF assms]
  by (simp add: parse_byte_def nth_append hex_digit_cases nibbles mult.commute)

lemma hex_text_valid:
  assumes "k \<le> 2 * length bs"
  shows "is_valid_hex (hex_text bs) k"
proof -
  have "isxdigit (hex_text bs ! j)" if "j < k" for j
  proof -
    have b: "j div 2 < length bs" using that assms by simp
    consider "j = 2 * (j div 2)" | "j = Suc (2 * (j div 2))"
      by (cases "even j") auto
    then show ?thesis
      by cases (metis hex_text_nth [OF b] hex_digit_cases(2) nibbles(1,2))+
  qed
  then show ?thesis by (simp add: is_valid_hex_def list_all_iff)
qed

lemma record_bytes_hex:
  assumes "k + n \<le> length bs" and "start = length pre + 2 * k"
  shows "record_bytes (pre @ hex_text bs) start n = take n (drop k bs)"
proof (rule nth_equalityI)
  show "length (record_bytes (pre @ hex_text bs) start n) = length (take n (drop k bs))"
    using assms(1) by (simp add: record_bytes_def)
  fix i assume "i < length (record_bytes (pre @ hex_text bs) start n)"
  then have i: "i < n" by (simp add: record_bytes_def)
  then have "parse_byte (pre @ hex_text bs) (length pre + (k + i) * 2) = bs ! (k + i)"
    using assms(1) by (intro parse_byte_hex) simp
  then show "record_bytes (pre @ hex_text bs) start n ! i = take n (drop k bs) ! i"
    using i assms by (simp add: record_bytes_def algebra_simps)
qed

lemma sum_low_byte: "ucast (\<Sum>b\<leftarrow>bs. ucast b :: u32) = (sum_list bs :: u8)"
proof (induction bs)
  case (Cons b bs)
  have "ucast (x + y :: u32) = (ucast x + ucast y :: u8)" for x y
    using cast_of_int(1) [of "uint x + uint y"] cast_of_int(1) [of "uint x"] cast_of_int(1) [of "uint y"]
    by simp
  moreover have "ucast (ucast b :: u32) = b" by (rule bit_word_eqI) (simp add: bit_simps)
  ultimately show ?case using Cons by simp
qed simp

subsection \<open>Records\<close>

text \<open>The checks on a record are checks on its bytes.\<close>

lemma byte_sum_hex:
  assumes "n \<le> length bs"
  shows "ucast (byte_sum (pre @ hex_text bs) (length pre) n) = (sum_list (take n bs) :: u8)"
proof -
  have "byte_sum (pre @ hex_text bs) (length pre) n = (\<Sum>b\<leftarrow>record_bytes (pre @ hex_text bs) (length pre) n. ucast b)"
    by (simp add: byte_sum_def record_bytes_def o_def)
  also have "record_bytes (pre @ hex_text bs) (length pre) n = take n bs"
    using assms record_bytes_hex [of 0 n bs "length pre" pre] by simp
  finally show ?thesis by (simp add: sum_low_byte)
qed

lemma low_byte_eq: "((w :: u32) AND 0xFF = ucast c) = (ucast w = (c :: u8))"
proof -
  have "ucast (ucast c :: u32) = c" by (rule bit_word_eqI) (simp add: bit_simps)
  then show ?thesis using cast_u8 [of w] by (metis byte_and)
qed

lemma srec_parse_record:
  assumes "srec_addr_len ty = Some (length ab)" and "length ab + length vs + 1 \<le> 255"
    and "bs = of_nat (length ab + length vs + 1) # ab @ vs @ [ck]"
  shows "srec_parse ([0x53, ty] @ hex_text bs) =
    (if sum_list bs = 0xFF then Some (ty, parse_addr ab, vs) else None)"
proof -
  define line where "line = [0x53, ty] @ hex_text bs"
  define n where "n = length ab + length vs + 1"
  have bs: "length bs = n + 1" "bs ! 0 = of_nat n" "n \<le> 255"
    using assms(2,3) by (simp_all add: n_def)
  have count: "unat (parse_byte line 2) = n"
    using parse_byte_hex [of 0 bs "[0x53, ty]"] bs
    by (simp add: line_def numeral_2_eq_2 unat_of_nat take_bit_nat_eq_self)
  have valid: "is_valid_hex (drop 2 line) k" if "k \<le> 2 * (n + 1)" for k
    using hex_text_valid [of k bs] that bs by (simp add: line_def)
  have "ucast (byte_sum line 2 (n + 1)) = (sum_list bs :: u8)"
    using byte_sum_hex [of "n + 1" bs "[0x53, ty]"] bs by (simp add: line_def numeral_2_eq_2)
  then have sum: "(byte_sum line 2 (n + 1) AND 0xFF = 0xFF) = (sum_list bs = 0xFF)"
    using low_byte_eq [of "byte_sum line 2 (n + 1)" "0xFF"] by simp
  have addr: "record_bytes line 4 (length ab) = ab"
    using record_bytes_hex [of 1 "length ab" bs 4 "[0x53, ty]"] assms(3) by (simp add: line_def)
  have data: "record_bytes line (4 + length ab * 2) (n - length ab - 1) = vs"
    using record_bytes_hex [of "Suc (length ab)" "length vs" bs "4 + length ab * 2" "[0x53, ty]"] assms(3)
    by (simp add: line_def n_def)
  have len: "length line = 4 + n * 2" "line ! 0 = 0x53" "line ! 1 = ty"
    using bs by (simp_all add: line_def)
  have "length ab + 1 \<le> n" by (simp add: n_def)
  then show ?thesis
    unfolding line_def [symmetric] srec_parse_def Let_def count len sum assms(1) option.case addr data
    by (simp add: valid)
qed

text \<open>The big-endian bytes of an address.\<close>

definition addr_bytes :: "nat \<Rightarrow> u32 \<Rightarrow> u8 list" where
  "addr_bytes n a = map (\<lambda>i. ucast (drop_bit (8 * i) a)) (rev [0..<n])"

lemma addr_bytes_Suc: "addr_bytes (Suc n) a = ucast (drop_bit (8 * n) a) # addr_bytes n a"
  by (simp add: addr_bytes_def)

lemma parse_addr_bytes:
  assumes "unat a < 256 ^ n"
  shows "parse_addr (addr_bytes n a) = a"
proof -
  have "foldl (\<lambda>addr b. push_bit 8 addr OR ucast b) (drop_bit (8 * n) a) (addr_bytes n a) = a"
  proof (induction n)
    case (Suc n)
    have "push_bit 8 (drop_bit (8 * Suc n) a) OR ucast (ucast (drop_bit (8 * n) a) :: u8) = drop_bit (8 * n) a"
      by (rule bit_word_eqI) (auto simp: bit_simps algebra_simps dest: bit_imp_le_length)
    then show ?case using Suc by (simp add: addr_bytes_Suc)
  qed (simp add: addr_bytes_def)
  moreover have "drop_bit (8 * n) a = 0"
  proof -
    have "unat a < 2 ^ (8 * n)" using assms by (simp add: power_mult)
    then have "unat (drop_bit (8 * n) a) = 0" by (simp only: unat_drop_bit_eq) (simp add: drop_bit_eq_div)
    then show ?thesis by (simp add: unat_eq_zero)
  qed
  ultimately show ?thesis by (simp add: parse_addr_def)
qed

text \<open>Lines of a file.\<close>

lemma fgets_line:
  "0x0A \<notin> set l \<Longrightarrow> length l < n \<Longrightarrow> fgets n (l @ 0x0A # rest) = (l @ [0x0A], rest)"
proof (induction l arbitrary: n)
  case Nil
  then show ?case by (cases n) simp_all
next
  case (Cons c l)
  then show ?case by (cases n) auto
qed

lemma c_string_all: "0 \<notin> set l \<Longrightarrow> c_string l = l"
  unfolding c_string_def by (rule takeWhile_eq_all_conv [THEN iffD2]) auto

lemma fgets_long:
  "0x0A \<notin> set l \<Longrightarrow> n \<le> length l \<Longrightarrow> fgets n (l @ r) = (take n l, drop n l @ r)"
proof (induction l arbitrary: n)
  case Nil
  then show ?case by simp
next
  case (Cons c l)
  then show ?case by (cases n) auto
qed

lemma hex_digit_not_end: "n < 16 \<Longrightarrow> hex_digit n \<notin> {0, 0x0A, 0x0D}"
  using hex_digit_cases(2) [of n] by (auto simp: isxdigit_def)

lemma hex_text_not_end: "c \<in> {0, 0x0A, 0x0D} \<Longrightarrow> c \<notin> set (hex_text bs)"
  using hex_digit_not_end [OF nibbles(1)] hex_digit_not_end [OF nibbles(2)]
  by (induction bs) (auto simp: hex_text_Cons hex_text_def [of "[]"])

lemma strip_last_none: "c \<notin> set l \<Longrightarrow> strip_last c l = l"
  by (auto simp: strip_last_def dest: last_in_set)

lemma load_srec_one:
  assumes "length l < 511" and "0 \<notin> set l" "0x0A \<notin> set l" "0x0D \<notin> set l"
  shows "m68k_load_srec env (Some (l @ [0x0A])) s = (True, snd (srec_record env l s))"
proof -
  have c: "strip_last 0x0D (strip_last 0x0A (c_string (l @ [0x0A]))) = l"
    using c_string_all [of "l @ [0x0A]"] assms(2) by (simp add: strip_last_def) (use assms(4) last_in_set in fastforce)
  have n: "load_srec_lines env [] s = s" for s by (simp add: load_srec_lines.simps)
  show ?thesis
    by (simp add: m68k_load_srec_def load_srec_lines.simps [of env "l @ [0x0A]"]
        fgets_line [OF assms(3,1), of "[]"] c n split: prod.split)
qed

lemma srec_parse_addr:
  assumes "(ty, n) \<in> {(0x30, 2), (0x31, 2), (0x32, 3), (0x33, 4), (0x37, 4), (0x38, 3), (0x39, 2)}"
    and "unat addr < 256 ^ n" and "n + length vs + 1 \<le> 255"
    and "bs = of_nat (n + length vs + 1) #
           map (\<lambda>i. ucast (drop_bit (8 * i) addr)) (rev [0..<n]) @ vs @ [ck]"
  shows "srec_parse ([0x53, ty] @ hex_text bs) =
      (if sum_list bs = 0xFF then Some (ty, addr, vs) else None)"
proof -
  have ty: "srec_addr_len ty = Some n" using assms(1) by (auto simp: srec_addr_len_def)
  have l: "length (addr_bytes n addr) = n" by (simp add: addr_bytes_def)
  have bs: "bs = of_nat (length (addr_bytes n addr) + length vs + 1) # addr_bytes n addr @ vs @ [ck]"
    using assms(4) by (simp add: l) (simp add: addr_bytes_def)
  show ?thesis
    using srec_parse_record [OF _ _ bs, of ty] ty l assms(3) parse_addr_bytes [OF assms(2)] by simp
qed

text \<open>C18: An S-record is read back, for each of the seven types that carry an address: a record
  spelled out in hexadecimal, with its count, the big-endian bytes of an address of two (S0, S1,
  S9), three (S2, S8) or four (S3, S7) bytes, data and a checksum byte, is parsed to exactly that
  type, that address and that data when all its bytes add up to 0xFF, and refused when they do
  not.\<close>

theorem srec_roundtrip:
  assumes "(ty, n) \<in> {(0x30, 2), (0x31, 2), (0x32, 3), (0x33, 4), (0x37, 4), (0x38, 3), (0x39, 2)}"
    and "unat addr < 256 ^ n" and "n + length vs + 1 \<le> 255"
    and "bs = of_nat (n + length vs + 1) #
           map (\<lambda>i. ucast (drop_bit (8 * i) addr)) (rev [0..<n]) @ vs @ [ck]"
  shows "srec_parse ([0x53, ty] @ hex_text bs) =
      (if sum_list bs = 0xFF then Some (ty, addr, vs) else None)"
  by (rule srec_parse_addr [OF assms])

lemma srec_roundtrip_witness:
  "srec_parse ([0x53, 0x32] @ hex_text [6, 0x12, 0x34, 0x56, 0xAB, 0xCD, 0xE5]) =
     Some (0x32, 0x123456, [0xAB, 0xCD])"
  using srec_roundtrip [of "0x32" 3 "0x123456" "[0xAB, 0xCD]" "[6, 0x12, 0x34, 0x56, 0xAB, 0xCD, 0xE5]" "0xE5"]
  by (simp add: upt_rec)

text \<open>C37: A file of one S-record with a good checksum does to the context what the record says:
  S1, S2 and S3 store the data from the address on, byte by byte and as far as memory is bound,
  and touch nothing else, S7, S8 and S9 set the program counter to the address and report it to
  the program-counter callback when there is one, S0 does nothing
  (for records of count at most 253, which fit the loader's line buffer).\<close>

theorem srec_load:
  assumes "(ty, n) \<in> {(0x30, 2), (0x31, 2), (0x32, 3), (0x33, 4), (0x37, 4), (0x38, 3), (0x39, 2)}"
    and "unat addr < 256 ^ n" and "n + length vs + 1 \<le> 253"
    and "bs = of_nat (n + length vs + 1) #
           map (\<lambda>i. ucast (drop_bit (8 * i) addr)) (rev [0..<n]) @ vs @ [ck]"
    and "sum_list bs = 0xFF" and "memory s \<noteq> None"
    and "m68k_load_srec env (Some ([0x53, ty] @ hex_text bs @ [0x0A])) s = (ok, s')"
  shows "ok \<and> (ty = 0x30 \<longrightarrow> s' = s) \<and>
    (ty \<in> {0x37, 0x38, 0x39} \<longrightarrow>
       s' = (case pc_changed_cb env of None \<Rightarrow> s\<lparr>pc := addr\<rparr> | Some cb \<Rightarrow> cb (s\<lparr>pc := addr\<rparr>) addr)) \<and>
    (ty \<in> {0x31, 0x32, 0x33} \<longrightarrow> s' = s\<lparr>memory := memory s'\<rparr> \<and>
      (\<exists>k\<le>length vs. (k < length vs \<longrightarrow> \<not> mask_address_24 (addr + of_nat k) < memory_size s) \<and>
         (\<forall>i<k. mask_address_24 (addr + of_nat i) < memory_size s \<and>
            ram s' (mask_address_24 (addr + of_nat i)) = vs ! i) \<and>
         (\<forall>x. (\<forall>i<k. x \<noteq> mask_address_24 (addr + of_nat i)) \<longrightarrow> ram s' x = ram s x)))"
proof -
  define l where "l = [0x53, ty] @ hex_text bs"
  have len: "length l < 511" using assms(3,4) by (simp add: l_def)
  have "c \<notin> set l" if "c \<in> {0, 0x0A, 0x0D}" for c
    using hex_text_not_end [OF that] that assms(1) by (auto simp: l_def)
  then have "m68k_load_srec env (Some (l @ [0x0A])) s = (True, snd (srec_record env l s))"
    using len by (intro load_srec_one) simp_all
  then have r: ok "s' = snd (srec_record env l s)" using assms(7) by (simp_all add: l_def)
  have p: "srec_parse l = Some (ty, addr, vs)"
    using srec_parse_addr [OF assms(1,2) _ assms(4)] assms(3,5) by (simp add: l_def)
  have "s' = snd (store_data addr vs s)" if "ty \<in> {0x31, 0x32, 0x33}"
    using that r(2) by (auto simp: srec_record_def p)
  moreover have "s' = (case pc_changed_cb env of None \<Rightarrow> s\<lparr>pc := addr\<rparr> | Some cb \<Rightarrow> cb (s\<lparr>pc := addr\<rparr>) addr)"
    if "ty \<in> {0x37, 0x38, 0x39}"
    using that r(2) by (auto simp: srec_record_def p m68k_set_pc_def Let_def)
  moreover have "s' = s" if "ty = 0x30" using that r(2) by (simp add: srec_record_def p)
  moreover have "length vs \<le> 2 ^ 24" using assms(3) by simp
  ultimately show ?thesis
    using r(1) store_data_bytes [OF assms(6), of vs addr] by (auto simp: simp_thms)
qed

lemma srec_load_witness:
  "\<exists>s'. m68k_load_srec no_callbacks (Some ([0x53, 0x32] @ hex_text [6, 0, 1, 0, 0xAB, 0xCD, 0x80] @ [0x0A]))
     trap_state = (True, s') \<and> pc s' = 0x200"
proof -
  obtain ok s' where l: "m68k_load_srec no_callbacks
      (Some ([0x53, 0x32] @ hex_text [6, 0, 1, 0, 0xAB, 0xCD, 0x80] @ [0x0A])) trap_state = (ok, s')"
    by fastforce
  have "ok \<and> s' = trap_state\<lparr>memory := memory s'\<rparr>"
    using srec_load [of "0x32" 3 "0x100" "[0xAB, 0xCD]" "[6, 0, 1, 0, 0xAB, 0xCD, 0x80]" "0x80", OF _ _ _ _ _ _ l]
    by (simp add: upt_rec trap_state_def m68k_init_def)
  moreover have "pc (trap_state\<lparr>memory := m\<rparr>) = 0x200" for m by (simp add: trap_state_def)
  ultimately show ?thesis using l by metis
qed

lemma ihex_parse_record:
  assumes "length vs \<le> 255" and "bs = of_nat (length vs) # oh # ol # ty # vs @ [ck]"
  shows "ihex_parse ([0x3A] @ hex_text bs) =
    (if sum_list bs = 0 then Some (ty, push_bit 8 (ucast oh) OR ucast ol, vs) else None)"
proof -
  define line where "line = [0x3A] @ hex_text bs"
  define n where "n = length vs"
  have bs: "length bs = n + 5" "bs ! 0 = of_nat n" "bs ! 1 = oh" "bs ! 2 = ol" "bs ! 3 = ty" "n \<le> 255"
    using assms by (simp_all add: n_def)
  have byte: "parse_byte line (1 + i * 2) = bs ! i" if "i < n + 5" for i
    using parse_byte_hex [of i bs "[0x3A]"] that bs by (simp add: line_def)
  have fields: "unat (parse_byte line 1) = n" "parse_byte line 3 = oh" "parse_byte line 5 = ol"
      "parse_byte line 7 = ty"
    using byte [of 0] byte [of 1, simplified, folded numeral_3_eq_3] byte [of 2] byte [of 3] bs
    by (simp_all add: unat_of_nat take_bit_nat_eq_self)
  have valid: "is_valid_hex (drop (Suc 0) line) k" if "k \<le> 2 * (n + 5)" for k
    using hex_text_valid [of k bs] that bs by (simp add: line_def)
  have "ucast (byte_sum line 1 (n + 5)) = (sum_list bs :: u8)"
    using byte_sum_hex [of "n + 5" bs "[0x3A]"] bs by (simp add: line_def)
  then have sum: "(byte_sum line 1 (n + 5) AND 0xFF = 0) = (sum_list bs = 0)"
    using low_byte_eq [of "byte_sum line 1 (n + 5)" 0] by simp
  have data: "record_bytes line 9 n = vs"
    using record_bytes_hex [of 4 n bs 9 "[0x3A]"] assms(2) by (simp add: line_def n_def)
  have len: "length line = 11 + n * 2" "line ! 0 = 0x3A"
    using bs by (simp_all add: line_def)
  show ?thesis
    unfolding line_def [symmetric] ihex_parse_def Let_def fields len sum data
    by (simp add: valid)
qed

text \<open>C19: An Intel HEX record is read back in the same way: the type, the offset and the data,
  exactly when all the bytes add up to zero.\<close>

theorem ihex_roundtrip:
  assumes "length vs \<le> 255" and "bs = of_nat (length vs) # oh # ol # ty # vs @ [ck]"
  shows "ihex_parse ([0x3A] @ hex_text bs) =
    (if sum_list bs = 0 then Some (ty, push_bit 8 (ucast oh) OR ucast ol, vs) else None)"
  by (rule ihex_parse_record [OF assms])

lemma ihex_roundtrip_witness:
  "ihex_parse ([0x3A] @ hex_text (of_nat 2 # 0x01 # 0x20 # 0 # [0x11, 0x22] @ [0xAA])) =
     Some (0, 0x120, [0x11, 0x22])"
  using ihex_roundtrip [of "[0x11, 0x22]" _ "0x01" "0x20" 0 "0xAA"] by simp

lemma join_byte: "push_bit 8 x OR ucast (b :: u8) = x * 256 + (ucast b :: u32)"
proof -
  have "push_bit 8 x + ucast b = push_bit 8 x OR (ucast b :: u32)"
    by (rule disjunctive_add) (auto simp: bit_simps dest: bit_imp_le_length)
  then show ?thesis by (simp add: push_bit_eq_mult)
qed

lemma parse_addr_2: "parse_addr [a, b] = of_nat (256 * unat a + unat b)"
  by (simp add: parse_addr_def join_byte algebra_simps)

lemma parse_addr_4: "parse_addr [a, b, c, d] =
    of_nat (16777216 * unat a + 65536 * unat b + 256 * unat c + unat d)"
  by (simp add: parse_addr_def join_byte algebra_simps)

text \<open>C38: What a good Intel HEX record does, for every type. The end-of-file record stops the
  loader; a data record stores its bytes from the base plus its 16-bit offset on, as far as memory
  is bound; the segment and linear address records set the base to 16 and 65536 times their
  16-bit value; the start records set the program counter, to 16 times the segment plus the
  instruction pointer or to the 32-bit address, and report it to the program-counter callback when
  there is one; an unknown type, or a wrong count for these four,
  has no effect.\<close>

theorem ihex_record_meaning:
  assumes "length vs \<le> 255" and "bs = of_nat (length vs) # oh # ol # ty # vs @ [ck]"
    and "sum_list bs = 0" and "memory s \<noteq> None"
    and "r = ihex_record env ([0x3A] @ hex_text bs) base s"
    and "start = base + of_nat (256 * unat oh + unat ol)"
    and jump: "jump = (\<lambda>v. case pc_changed_cb env of None \<Rightarrow> s\<lparr>pc := v\<rparr> | Some cb \<Rightarrow> cb (s\<lparr>pc := v\<rparr>) v)"
  shows "(ty = 1 \<longrightarrow> r = None) \<and>
    (ty = 0 \<longrightarrow> (\<exists>m k. r = Some (base, s\<lparr>memory := Some m\<rparr>) \<and> k \<le> length vs \<and>
       (k < length vs \<longrightarrow> \<not> mask_address_24 (start + of_nat k) < memory_size s) \<and>
       (\<forall>i<k. mask_address_24 (start + of_nat i) < memory_size s \<and>
          m (mask_address_24 (start + of_nat i)) = vs ! i) \<and>
       (\<forall>x. (\<forall>i<k. x \<noteq> mask_address_24 (start + of_nat i)) \<longrightarrow> m x = ram s x))) \<and>
    (\<forall>a b. vs = [a, b] \<longrightarrow> ty = 2 \<longrightarrow> r = Some (of_nat (16 * (256 * unat a + unat b)), s)) \<and>
    (\<forall>a b. vs = [a, b] \<longrightarrow> ty = 4 \<longrightarrow> r = Some (of_nat (65536 * (256 * unat a + unat b)), s)) \<and>
    (\<forall>a b c d. vs = [a, b, c, d] \<longrightarrow> ty = 3 \<longrightarrow>
       r = Some (base, jump (of_nat (16 * (256 * unat a + unat b) + 256 * unat c + unat d)))) \<and>
    (\<forall>a b c d. vs = [a, b, c, d] \<longrightarrow> ty = 5 \<longrightarrow>
       r = Some (base, jump (of_nat (16777216 * unat a + 65536 * unat b + 256 * unat c + unat d)))) \<and>
    (ty > 5 \<or> ty \<in> {2, 4} \<and> length vs \<noteq> 2 \<or> ty \<in> {3, 5} \<and> length vs \<noteq> 4 \<longrightarrow> r = Some (base, s))"
proof -
  have p: "ihex_parse ([0x3A] @ hex_text bs) = Some (ty, of_nat (256 * unat oh + unat ol), vs)"
    using ihex_parse_record [OF assms(1,2)] assms(3)
    by (simp add: join_byte algebra_simps)
  have data: "\<exists>m k. r = Some (base, s\<lparr>memory := Some m\<rparr>) \<and> k \<le> length vs \<and>
       (k < length vs \<longrightarrow> \<not> mask_address_24 (start + of_nat k) < memory_size s) \<and>
       (\<forall>i<k. mask_address_24 (start + of_nat i) < memory_size s \<and>
          m (mask_address_24 (start + of_nat i)) = vs ! i) \<and>
       (\<forall>x. (\<forall>i<k. x \<noteq> mask_address_24 (start + of_nat i)) \<longrightarrow> m x = ram s x)" if ty: "ty = 0"
  proof -
    obtain k s1 where d: "store_data start vs s = (k, s1)" by fastforce
    have "r = Some (base, s1)"
      unfolding assms(5) ihex_record_def p using ty d by (simp add: assms(6))
    moreover have "s1 = s\<lparr>memory := Some (ram s1)\<rparr>"
      using store_data_spec [OF assms(4) d] by simp
    ultimately show ?thesis
      using store_data_bytes [OF assms(4), of vs start] assms(1) d
      by (intro exI [of _ "ram s1"] exI [of _ k]) auto
  qed
  have r: "r = (case (ty, of_nat (256 * unat oh + unat ol), vs) of (ty, offset, data) \<Rightarrow>
      (if ty = 0x00 then Some (base, snd (store_data (base + offset) data s))
           else if ty = 0x01 then None
           else if ty = 0x02
           then Some (if length data = 2 then push_bit 4 (parse_addr data) else base, s)
           else if ty = 0x04
           then Some (if length data = 2 then push_bit 16 (parse_addr data) else base, s)
           else if ty = 0x03
           then Some (base, if length data = 4
                            then (let cs = parse_addr (take 2 data);
                                      ip = parse_addr (drop 2 data)
                                  in m68k_set_pc env (push_bit 4 cs + ip) s)
                            else s)
           else if ty = 0x05
           then Some (base, if length data = 4 then m68k_set_pc env (parse_addr data) s else s)
           else Some (base, s)))"
    unfolding assms(5) ihex_record_def p by simp
  have jump: "m68k_set_pc env v s = jump v" for v by (simp add: jump m68k_set_pc_def Let_def)
  have sh: "push_bit 4 (of_nat n :: u32) = of_nat (16 * n)" "push_bit 16 (of_nat n :: u32) = of_nat (65536 * n)" for n
    by (simp_all add: push_bit_eq_mult)
  show ?thesis
    using data by (auto simp: r jump Let_def parse_addr_2 parse_addr_4 sh add.assoc simp flip: of_nat_add split: if_splits)
qed

lemma ihex_record_meaning_witness:
  "ihex_record no_callbacks ([0x3A] @ hex_text [2, 0, 0, 4, 0x12, 0x34, 0xB4]) 0 trap_state =
     Some (0x12340000, trap_state)"
proof -
  have m: "memory trap_state \<noteq> None" by (simp add: trap_state_def m68k_init_def)
  show ?thesis
    using ihex_record_meaning [of "[0x12, 0x34]" "[2, 0, 0, 4, 0x12, 0x34, 0xB4]" 0 0 4 "0xB4", OF _ _ _ m refl refl refl,
        where env = no_callbacks and base = 0]
    by simp
qed

subsection \<open>Files\<close>

text \<open>An S-record file as a list of lines, without the newlines.\<close>

fun srec_lines :: "'h host_callbacks \<Rightarrow> u8 list list \<Rightarrow> 'h cpu \<Rightarrow> 'h cpu" where
  "srec_lines env [] s = s"
| "srec_lines env (l # ls) s =
     (case srec_record env (strip_last 0x0D l) s of (stop, s) \<Rightarrow> if stop then s else srec_lines env ls s)"

definition unix_file :: "u8 list list \<Rightarrow> u8 list" where
  "unix_file ls = concat (map (\<lambda>l. l @ [0x0A]) ls)"

text \<open>C20: The S-record loader is a loop over lines: on a file of lines that fit its buffer it
  processes the records one after the other, with a carriage return stripped, up to the first
  start-address record, and it reports success whatever the records hold.\<close>

theorem m68k_load_srec_lines:
  assumes "\<forall>l\<in>set ls. length l < 511 \<and> 0 \<notin> set l \<and> 0x0A \<notin> set l"
  shows "m68k_load_srec env (Some (unix_file ls)) s = (True, srec_lines env ls s)"
proof -
  have "load_srec_lines env (unix_file ls) s = srec_lines env ls s"
    using assms
  proof (induction ls arbitrary: s)
    case Nil
    then show ?case by (simp add: unix_file_def load_srec_lines.simps)
  next
    case (Cons l ls)
    then have l: "length l < 511" "0 \<notin> set l" "0x0A \<notin> set l" by simp_all
    have f: "unix_file (l # ls) = l @ 0x0A # unix_file ls" by (simp add: unix_file_def)
    have "strip_last 0x0A (c_string (l @ [0x0A])) = l"
      using c_string_all [of "l @ [0x0A]"] l(2) by (simp add: strip_last_def)
    then show ?case
      using Cons unfolding f load_srec_lines.simps [of env "l @ 0x0A # unix_file ls"]
      by (simp add: fgets_line [OF l(3,1)] split: prod.split)
  qed
  then show ?thesis by (simp add: m68k_load_srec_def)
qed

lemma m68k_load_srec_lines_witness:
  "m68k_load_srec no_callbacks (Some (unix_file [[0x53, 0x30], []])) trap_state = (True, trap_state)"
  by (subst m68k_load_srec_lines) (simp_all add: strip_last_def srec_record_def srec_parse_def Let_def)

text \<open>C21: The longest S-records are lost: a well-formed record whose count is 254 or 255 does not fit
  the line buffer, and a file that consists of it loads nothing, although the loader reports
  success.\<close>

theorem long_srec_skipped:
  assumes "ty \<in> {0x31, 0x32, 0x33}" and "n = 254 \<or> n = 255" and "length rest = n"
  shows "m68k_load_srec env (Some ([0x53, ty] @ hex_text (of_nat n # rest) @ [0x0A])) s = (True, s)"
proof -
  define l where "l = [0x53, ty] @ hex_text (of_nat n # rest)"
  have len: "length l = 4 + 2 * n" using assms(3) by (simp add: l_def)
  have e: "c \<notin> set l" if "c \<in> {0, 0x0A, 0x0D}" for c
    using hex_text_not_end [OF that] that assms(1) by (auto simp: l_def)
  then have e': "c \<notin> set (take 511 l)" "c \<notin> set (drop 511 l)" if "c \<in> {0, 0x0A, 0x0D}" for c
    using that by (meson in_set_takeD in_set_dropD)+
  have big: "511 \<le> length l" using len assms(2) by auto
  have s1: "strip_last 0x0D (strip_last 0x0A (c_string (take 511 l))) = take 511 l"
    using e'(1) [of 0] e'(1) [of "0x0A"] e'(1) [of "0x0D"]
    by (simp add: c_string_all strip_last_none)
  have "parse_byte (take 511 l) 2 = parse_byte l 2"
    using big by (simp add: parse_byte_def)
  also have "\<dots> = of_nat n" using parse_byte_hex [of 0 "of_nat n # rest" "[0x53, ty]"]
    by (simp add: l_def numeral_2_eq_2)
  finally have "unat (parse_byte (take 511 l) 2) = n" using assms(2) by auto
  then have p1: "srec_record env (take 511 l) s = (False, s)"
    using big assms(2) by (auto simp: srec_record_def srec_parse_def Let_def)
  let ?t = "drop 511 l @ [0x0A]"
  have t: "length (drop 511 l) < 4" "?t \<noteq> []" using len assms(2) by auto
  have f2: "fgets 511 ?t = (?t, [])"
    using e' (2) [of "0x0A"] t(1) fgets_line [of "drop 511 l" 511 "[]"] by simp
  have s2: "strip_last 0x0D (strip_last 0x0A (c_string ?t)) = strip_last 0x0D (drop 511 l)"
    using e'(2) [of 0] c_string_all [of ?t] by (simp add: strip_last_def)
  have p2: "srec_record env (strip_last 0x0D (drop 511 l)) s = (False, s)"
    using t(1) by (simp add: strip_last_def srec_record_def srec_parse_def Let_def)
  have "load_srec_lines env (l @ [0x0A]) s = s"
    using fgets_long [OF e [of "0x0A"] big, of "[0x0A]"]
    by (simp add: load_srec_lines.simps [of env "l @ [0x0A]"] load_srec_lines.simps [of env ?t]
        load_srec_lines.simps [of env "[]"] s1 p1 f2 s2 p2)
  then show ?thesis by (simp add: m68k_load_srec_def l_def)
qed

lemma long_srec_skipped_witness:
  "m68k_load_srec no_callbacks (Some ([0x53, 0x31] @ hex_text (of_nat 255 # replicate 255 0) @ [0x0A]))
     trap_state = (True, trap_state)"
  by (rule long_srec_skipped) simp_all

end
