(* ===== verification/M68k_Disasm.thy ===== *)
theory M68k_Disasm
  imports M68k_EA
begin

section \<open>Disassembly\<close>

text \<open>
  \<open>m68k_disasm\<close> of \<open>src/disasm.c\<close>: the opcode and its extension words are
  peeked, the mnemonic and the arguments are formatted into two scratch buffers, and the
  line is formatted into the caller's buffer. A scratch buffer is the C string in it, and
  \<open>snprintf\<close> cuts at the size of the buffer. The functions return the length of the
  instruction, the mnemonic, the arguments and the context, which only a host's read
  callback can change. The lemmas bound every string, so that nothing is cut, and compare
  the length of an operand with what the executor fetches for it.
\<close>

subsection \<open>Formatting\<close>

definition digit :: "nat \<Rightarrow> char" where
  "digit n = ''0123456789ABCDEF'' ! n"

fun digits :: "nat \<Rightarrow> nat \<Rightarrow> string" where
  "digits b n = (if n < b \<or> b < 2 then [digit n] else digits b (n div b) @ [digit (n mod b)])"

declare digits.simps [simp del]

text \<open>\<open>%d\<close>, \<open>%X\<close>, \<open>%0wX\<close> and \<open>%-8s\<close>.\<close>

definition fmt_d :: "int \<Rightarrow> string" where
  "fmt_d i = (if i < 0 then ''-'' @ digits 10 (nat (- i)) else digits 10 (nat i))"

definition fmt_X :: "'a::len word \<Rightarrow> string" where
  "fmt_X w = digits 16 (unat w)"

definition fmt_0X :: "nat \<Rightarrow> 'a::len word \<Rightarrow> string" where
  "fmt_0X width w = (let t = fmt_X w in replicate (width - length t) (CHR ''0'') @ t)"

definition pad_right :: "nat \<Rightarrow> string \<Rightarrow> string" where
  "pad_right width t = t @ replicate (width - length t) (CHR '' '')"

text \<open>The string that \<open>snprintf(buf, n, ...)\<close> leaves in a buffer of \<open>n > 0\<close>
  characters, and the characters that it writes for any \<open>size_t\<close>.\<close>

definition snprintf :: "nat \<Rightarrow> string \<Rightarrow> string" where
  "snprintf n t = take (n - 1) t"

definition snprintf_written :: "nat \<Rightarrow> string \<Rightarrow> string" where
  "snprintf_written n t = (if n = 0 then [] else snprintf n t @ [CHR 0x00])"

definition DISASM_EA_SIZE :: nat where "DISASM_EA_SIZE = 24"
definition DISASM_OP_SIZE :: nat where "DISASM_OP_SIZE = 32"
definition DISASM_ARGS_SIZE :: nat where "DISASM_ARGS_SIZE = 64"

lemmas disasm_sizes = DISASM_EA_SIZE_def DISASM_OP_SIZE_def DISASM_ARGS_SIZE_def

text \<open>\<open>D%d\<close> and \<open>A%d\<close>.\<close>

definition d_name :: "nat \<Rightarrow> string" where "d_name r = ''D'' @ fmt_d (int r)"
definition a_name :: "nat \<Rightarrow> string" where "a_name r = ''A'' @ fmt_d (int r)"

definition size_str :: "nat \<Rightarrow> string" where
  "size_str size_code =
     (if size_code = 0 then ''.B'' else if size_code = 1 then ''.W''
      else if size_code = 2 then ''.L'' else ''.?'')"

subsection \<open>Peeking\<close>

definition peek_word :: "'h host_callbacks \<Rightarrow> u32 \<Rightarrow> 'h cpu \<Rightarrow> u16 \<times> 'h cpu" where
  "peek_word env at s =
     (let address = at AND 0x00FFFFFF
      in case read16_cb env of
           Some cb \<Rightarrow> cb s address
         | None \<Rightarrow>
             (case memory s of
                Some m \<Rightarrow>
                  (if address + 1 < memory_size s
                   then (push_bit 8 (ucast (m address)) OR ucast (m (address + 1)), s)
                   else (0, s))
              | None \<Rightarrow> (0, s)))"

definition peek_long :: "'h host_callbacks \<Rightarrow> u32 \<Rightarrow> 'h cpu \<Rightarrow> u32 \<times> 'h cpu" where
  "peek_long env at s =
     (case peek_word env at s of
        (hi, s) \<Rightarrow> (case peek_word env (at + 2) s of
        (lo, s) \<Rightarrow> (push_bit 16 (ucast hi) OR ucast lo, s)))"

subsection \<open>Operands\<close>

text \<open>The index part \<open>%c%d.%c\<close> of a brief extension word.\<close>

definition index_name :: "u16 \<Rightarrow> string" where
  "index_name ext =
     (let idx_reg = bits ext 12 0x7;
          is_a_reg = (bits ext 15 1 \<noteq> 0);
          is_long = (bits ext 11 1 \<noteq> 0)
      in (if is_a_reg then ''A'' else ''D'') @ fmt_d (int idx_reg) @ ''.'' @
         (if is_long then ''L'' else ''W''))"

definition disasm_ea_mode7 ::
  "'h host_callbacks \<Rightarrow> u32 \<Rightarrow> nat \<Rightarrow> M68kSize \<Rightarrow> 'h cpu \<Rightarrow> nat \<times> string \<times> 'h cpu" where
  "disasm_ea_mode7 env base_pc reg sz s =
     (let put = snprintf DISASM_EA_SIZE
      in if reg = 0
      then (case peek_word env base_pc s of (addr, s) \<Rightarrow>
              (2, put (''$'' @ fmt_0X 4 addr @ ''.W''), s))
      else if reg = 1
      then (case peek_long env base_pc s of (addr, s) \<Rightarrow>
              (4, put (''$'' @ fmt_0X 8 addr @ ''.L''), s))
      else if reg = 2
      then (case peek_word env base_pc s of (w, s) \<Rightarrow>
              (2, put (''$'' @ fmt_X (base_pc + sext16 w) @ ''(PC)''), s))
      else if reg = 3
      then (case peek_word env base_pc s of (ext, s) \<Rightarrow>
              (2, put (fmt_d (sint (ucast (ext AND 0xFF) :: u8)) @ ''(PC,'' @ index_name ext @ '')''), s))
      else if reg = 4
      then (if sz = SIZE_LONG
            then (case peek_long env base_pc s of (v, s) \<Rightarrow> (4, put (''#$'' @ fmt_X v), s))
            else if sz = SIZE_BYTE
            then (case peek_word env base_pc s of (v, s) \<Rightarrow>
                    (2, put (''#$'' @ fmt_0X 2 (v AND 0xFF)), s))
            else (case peek_word env base_pc s of (v, s) \<Rightarrow> (2, put (''#$'' @ fmt_0X 4 v), s)))
      else (0, put ''???'', s))"

definition disasm_ea ::
  "'h host_callbacks \<Rightarrow> u32 \<Rightarrow> nat \<Rightarrow> nat \<Rightarrow> M68kSize \<Rightarrow> 'h cpu \<Rightarrow> nat \<times> string \<times> 'h cpu" where
  "disasm_ea env base_pc mode reg sz s =
     (let put = snprintf DISASM_EA_SIZE
      in if mode = 0 then (0, put (d_name reg), s)
      else if mode = 1 then (0, put (a_name reg), s)
      else if mode = 2 then (0, put (''('' @ a_name reg @ '')''), s)
      else if mode = 3 then (0, put (''('' @ a_name reg @ '')+''), s)
      else if mode = 4 then (0, put (''-('' @ a_name reg @ '')''), s)
      else if mode = 5
      then (case peek_word env base_pc s of (w, s) \<Rightarrow>
              (2, put (fmt_d (sint w) @ ''('' @ a_name reg @ '')''), s))
      else if mode = 6
      then (case peek_word env base_pc s of (ext, s) \<Rightarrow>
              (2, put (fmt_d (sint (ucast (ext AND 0xFF) :: u8)) @ ''('' @ a_name reg @ '','' @
                       index_name ext @ '')''), s))
      else disasm_ea_mode7 env base_pc reg sz s)"

text \<open>What the decoders return: the length, the mnemonic and the arguments. An instruction
  that is not recognised is \<open>???\<close> without arguments.\<close>

type_synonym 'h listing = "nat \<times> string \<times> string \<times> 'h cpu"

definition listing :: "nat \<Rightarrow> string \<Rightarrow> string \<Rightarrow> 'h cpu \<Rightarrow> 'h listing" where
  "listing len op args s = (len, snprintf DISASM_OP_SIZE op, snprintf DISASM_ARGS_SIZE args, s)"

definition unknown :: "nat \<Rightarrow> 'h cpu \<Rightarrow> 'h listing" where
  "unknown len s = (len, ''???'', [], s)"

text \<open>The end of most branches: \<open>disasm_ea\<close> at \<open>at\<close>, its length added to
  \<open>len\<close>, and the arguments formatted from its text.\<close>

definition with_ea ::
  "'h host_callbacks \<Rightarrow> u32 \<Rightarrow> nat \<Rightarrow> nat \<Rightarrow> M68kSize \<Rightarrow> nat \<Rightarrow> string \<Rightarrow> (string \<Rightarrow> string) \<Rightarrow>
   'h cpu \<Rightarrow> 'h listing" where
  "with_ea env at mode reg sz len op args s =
     (case disasm_ea env at mode reg sz s of
        (ea_bytes, ea, s) \<Rightarrow> listing (len + ea_bytes) op (args ea) s)"

subsection \<open>Decoders\<close>

definition decode_move :: "'h host_callbacks \<Rightarrow> u32 \<Rightarrow> u16 \<Rightarrow> 'h cpu \<Rightarrow> 'h listing" where
  "decode_move env at opcode s =
     (let size_code = bits opcode 12 0x3
      in if size_code = 0 then unknown 0 s
      else (let (sz, sz_str) = (if size_code = 1 then (SIZE_BYTE, ''.B'')
                                else if size_code = 3 then (SIZE_WORD, ''.W'')
                                else (SIZE_LONG, ''.L''));
                dest_reg = bits opcode 9 0x7;
                dest_mode = bits opcode 6 0x7;
                src_mode = bits opcode 3 0x7;
                src_reg = bits opcode 0 0x7
            in case disasm_ea env (at + 2) src_mode src_reg sz s of (src_bytes, src, s) \<Rightarrow>
               with_ea env (at + of_nat (2 + src_bytes)) dest_mode dest_reg sz (2 + src_bytes)
                 (''MOVE'' @ sz_str) (\<lambda>dest. src @ '', '' @ dest) s))"

definition cc_names :: "string list" where
  "cc_names = [''RA'', ''SR'', ''HI'', ''LS'', ''CC'', ''CS'', ''NE'', ''EQ'',
               ''VC'', ''VS'', ''PL'', ''MI'', ''GE'', ''LT'', ''GT'', ''LE'']"

definition decode_branch :: "'h host_callbacks \<Rightarrow> u32 \<Rightarrow> u16 \<Rightarrow> 'h cpu \<Rightarrow> 'h listing" where
  "decode_branch env at opcode s =
     (let cond = bits opcode 8 0xF;
          d8 = sext8 (opcode AND 0xFF);
          op = (if cond = 1 then ''BSR'' else if cond = 0 then ''BRA''
                else ''B'' @ cc_names ! cond)
      in if d8 = 0
         then (case peek_word env (at + 2) s of (w, s) \<Rightarrow>
                 listing 4 op (''$'' @ fmt_X (at + 2 + sext16 w)) s)
         else listing 2 op (''$'' @ fmt_X (at + 2 + d8)) s)"

definition decode_std_arith ::
  "'h host_callbacks \<Rightarrow> u32 \<Rightarrow> u16 \<Rightarrow> string \<Rightarrow> 'h cpu \<Rightarrow> 'h listing" where
  "decode_std_arith env at opcode name_base s =
     (let reg = bits opcode 9 0x7;
          opmode = bits opcode 6 0x7;
          mode = bits opcode 3 0x7;
          ea_reg = bits opcode 0 0x7;
          decoded = (\<lambda>sz str dn_dest.
            with_ea env (at + 2) mode ea_reg sz 2 (name_base @ str)
              (\<lambda>ea. if dn_dest then ea @ '', '' @ d_name reg else d_name reg @ '', '' @ ea) s)
      in if opmode = 0 then decoded SIZE_BYTE ''.B'' True
         else if opmode = 1 then decoded SIZE_WORD ''.W'' True
         else if opmode = 2 then decoded SIZE_LONG ''.L'' True
         else if opmode = 4 then decoded SIZE_BYTE ''.B'' False
         else if opmode = 5 then decoded SIZE_WORD ''.W'' False
         else if opmode = 6 then decoded SIZE_LONG ''.L'' False
         else unknown 0 s)"

text \<open>\<open>(size_code == 0) ? SIZE_BYTE : (size_code == 1 ? SIZE_WORD : SIZE_LONG)\<close>\<close>

definition disasm_size :: "nat \<Rightarrow> M68kSize" where
  "disasm_size size_code =
     (if size_code = 0 then SIZE_BYTE else if size_code = 1 then SIZE_WORD else SIZE_LONG)"

definition decode_imm_arith ::
  "'h host_callbacks \<Rightarrow> u32 \<Rightarrow> u16 \<Rightarrow> string \<Rightarrow> 'h cpu \<Rightarrow> 'h listing" where
  "decode_imm_arith env at opcode name s =
     (let size_code = bits opcode 6 0x3;
          sz = disasm_size size_code
      in case disasm_ea env (at + 2) 7 4 sz s of (imm_bytes, imm, s) \<Rightarrow>
           with_ea env (at + of_nat (2 + imm_bytes)) (bits opcode 3 0x7) (bits opcode 0 0x7) sz
             (2 + imm_bytes) (name @ size_str size_code) (\<lambda>ea. imm @ '', '' @ ea) s)"

subsection \<open>Line 0\<close>

definition bit_names :: "string list" where
  "bit_names = [''BTST'', ''BCHG'', ''BCLR'', ''BSET'']"

text \<open>The immediate forms on CCR and SR.\<close>

definition disasm_to_ccr :: "'h host_callbacks \<Rightarrow> u32 \<Rightarrow> string \<Rightarrow> 'h cpu \<Rightarrow> 'h listing" where
  "disasm_to_ccr env at op s =
     (case peek_word env (at + 2) s of (w, s) \<Rightarrow>
        listing 4 op (''#$'' @ fmt_0X 2 (w AND 0xFF) @ '', CCR'') s)"

definition disasm_to_sr :: "'h host_callbacks \<Rightarrow> u32 \<Rightarrow> string \<Rightarrow> 'h cpu \<Rightarrow> 'h listing" where
  "disasm_to_sr env at op s =
     (case peek_word env (at + 2) s of (w, s) \<Rightarrow>
        listing 4 op (''#$'' @ fmt_0X 4 w @ '', SR'') s)"

definition disasm_movep :: "'h host_callbacks \<Rightarrow> u32 \<Rightarrow> u16 \<Rightarrow> 'h cpu \<Rightarrow> 'h listing" where
  "disasm_movep env at opcode s =
     (let dn = bits opcode 9 7;
          opmode = bits opcode 6 7;
          areg = bits opcode 0 7
      in case peek_word env (at + 2) s of (w, s) \<Rightarrow>
         (let target = fmt_d (sint w) @ ''('' @ a_name areg @ '')''
          in if opmode = 4 \<or> opmode = 5
             then listing 4 (''MOVEP'' @ (if opmode = 5 then ''.L'' else ''.W''))
                    (target @ '', '' @ d_name dn) s
             else listing 4 (''MOVEP'' @ (if opmode = 7 then ''.L'' else ''.W''))
                    (d_name dn @ '', '' @ target) s))"

text \<open>\<open>char gpr[4]; snprintf(gpr, sizeof(gpr), "%c%d", ...)\<close>\<close>

definition gpr_name :: "u16 \<Rightarrow> string" where
  "gpr_name ext =
     snprintf 4 ((if ext AND 0x8000 \<noteq> 0 then ''A'' else ''D'') @ fmt_d (int (bits ext 12 7)))"

definition disasm_moves :: "'h host_callbacks \<Rightarrow> u32 \<Rightarrow> u16 \<Rightarrow> 'h cpu \<Rightarrow> 'h listing" where
  "disasm_moves env at opcode s =
     (let size_code = bits opcode 6 3
      in case peek_word env (at + 2) s of (mv_ext, s) \<Rightarrow>
         with_ea env (at + 4) (bits opcode 3 7) (bits opcode 0 7) (disasm_size size_code) 4
           (''MOVES'' @ size_str size_code)
           (\<lambda>ea. if mv_ext AND 0x0800 \<noteq> 0 then gpr_name mv_ext @ '', '' @ ea
                 else ea @ '', '' @ gpr_name mv_ext) s)"

definition disasm_line_0 :: "'h host_callbacks \<Rightarrow> u32 \<Rightarrow> u16 \<Rightarrow> 'h cpu \<Rightarrow> 'h listing" where
  "disasm_line_0 env at opcode s =
     (let top4 = bits opcode 8 0xF;
          mode = bits opcode 3 7;
          reg = bits opcode 0 7;
          bit_name = bit_names ! bits opcode 6 0x3
      in if top4 = 0x08
      then (case peek_word env (at + 2) s of (bit_num, s) \<Rightarrow>
              with_ea env (at + 4) mode reg SIZE_BYTE 4 bit_name
                (\<lambda>ea. ''#'' @ fmt_d (uint (bit_num AND 0xFF)) @ '', '' @ ea) s)
      else if opcode AND 0x0100 \<noteq> 0
      then (if mode = 1 then disasm_movep env at opcode s
            else with_ea env (at + 2) mode reg SIZE_BYTE 2 bit_name
                   (\<lambda>ea. d_name (bits opcode 9 7) @ '', '' @ ea) s)
      else if opcode AND 0xFF00 = 0x0E00 \<and> bits opcode 6 3 \<noteq> 3 then disasm_moves env at opcode s
      else if opcode = 0x003C then disasm_to_ccr env at ''ORI'' s
      else if opcode = 0x007C then disasm_to_sr env at ''ORI'' s
      else if opcode = 0x023C then disasm_to_ccr env at ''ANDI'' s
      else if opcode = 0x027C then disasm_to_sr env at ''ANDI'' s
      else if opcode = 0x0A3C then disasm_to_ccr env at ''EORI'' s
      else if opcode = 0x0A7C then disasm_to_sr env at ''EORI'' s
      else if top4 = 0x00 then decode_imm_arith env at opcode ''ORI'' s
      else if top4 = 0x02 then decode_imm_arith env at opcode ''ANDI'' s
      else if top4 = 0x04 then decode_imm_arith env at opcode ''SUBI'' s
      else if top4 = 0x06 then decode_imm_arith env at opcode ''ADDI'' s
      else if top4 = 0x0A then decode_imm_arith env at opcode ''EORI'' s
      else if top4 = 0x0C then decode_imm_arith env at opcode ''CMPI'' s
      else unknown 2 s)"

subsection \<open>Line 4\<close>

definition ctrl_name :: "u16 \<Rightarrow> string" where
  "ctrl_name ctrl =
     (if ctrl = 0x000 then ''SFC'' else if ctrl = 0x001 then ''DFC''
      else if ctrl = 0x800 then ''USP'' else if ctrl = 0x801 then ''VBR'' else ''???'')"

definition disasm_movec :: "'h host_callbacks \<Rightarrow> u32 \<Rightarrow> u16 \<Rightarrow> 'h cpu \<Rightarrow> 'h listing" where
  "disasm_movec env at opcode s =
     (case peek_word env (at + 2) s of (mc_ext, s) \<Rightarrow>
        (let ctrl = ctrl_name (mc_ext AND 0xFFF)
         in listing 4 ''MOVEC''
              (if opcode AND 1 \<noteq> 0 then gpr_name mc_ext @ '', '' @ ctrl
               else ctrl @ '', '' @ gpr_name mc_ext) s))"

text \<open>The fixed encodings.\<close>

definition disasm_line_4_fixed ::
  "'h host_callbacks \<Rightarrow> u32 \<Rightarrow> u16 \<Rightarrow> 'h cpu \<Rightarrow> 'h listing option" where
  "disasm_line_4_fixed env at opcode s =
     (if opcode = 0x4E70 then Some (listing 2 ''RESET'' [] s)
      else if opcode = 0x4E71 then Some (listing 2 ''NOP'' [] s)
      else if opcode = 0x4E72
      then Some (case peek_word env (at + 2) s of (w, s) \<Rightarrow>
                   listing 4 ''STOP'' (''#$'' @ fmt_0X 4 w) s)
      else if opcode = 0x4E73 then Some (listing 2 ''RTE'' [] s)
      else if opcode = 0x4E75 then Some (listing 2 ''RTS'' [] s)
      else if opcode = 0x4E76 then Some (listing 2 ''TRAPV'' [] s)
      else if opcode = 0x4E77 then Some (listing 2 ''RTR'' [] s)
      else if opcode = 0x4E74
      then Some (case peek_word env (at + 2) s of (w, s) \<Rightarrow>
                   listing 4 ''RTD'' (''#'' @ fmt_d (sint w)) s)
      else if opcode = 0x4E7A \<or> opcode = 0x4E7B then Some (disasm_movec env at opcode s)
      else if opcode AND 0xFFF0 = 0x4E40
      then Some (listing 2 ''TRAP'' (''#'' @ fmt_d (int (bits opcode 0 0xF))) s)
      else if opcode AND 0xFFF8 = 0x4E50
      then Some (case peek_word env (at + 2) s of (w, s) \<Rightarrow>
                   listing 4 ''LINK'' (a_name (bits opcode 0 7) @ '', #'' @ fmt_d (sint w)) s)
      else if opcode AND 0xFFF8 = 0x4E58
      then Some (listing 2 ''UNLK'' (a_name (bits opcode 0 7)) s)
      else if opcode AND 0xFFF0 = 0x4E60
      then Some (listing 2 ''MOVE''
                   (if opcode AND 0x8 \<noteq> 0 then ''USP, '' @ a_name (bits opcode 0 7)
                    else a_name (bits opcode 0 7) @ '', USP'') s)
      else None)"

text \<open>The groups with an effective address, whose \<open>disasm_ea\<close> call is \<open>operand\<close>
  except for MOVEM.\<close>

definition disasm_line_4_groups ::
  "'h host_callbacks \<Rightarrow> u32 \<Rightarrow> u16 \<Rightarrow> 'h cpu \<Rightarrow> 'h listing" where
  "disasm_line_4_groups env at opcode s =
     (let mode = bits opcode 3 7;
          reg = bits opcode 0 7;
          dn = bits opcode 9 7;
          size_code = bits opcode 6 3;
          is_long = (opcode AND 0x0040 \<noteq> 0);
          operand = (\<lambda>sz op args. with_ea env (at + 2) mode reg sz 2 op args s);
          unary = (\<lambda>name. operand (disasm_size size_code) (name @ size_str size_code) (\<lambda>ea. ea))
      in if opcode AND 0xFFC0 = 0x4E80 then operand SIZE_LONG ''JSR'' (\<lambda>ea. ea)
      else if opcode AND 0xFFC0 = 0x4EC0 then operand SIZE_LONG ''JMP'' (\<lambda>ea. ea)
      else if opcode AND 0xFFC0 = 0x40C0 then operand SIZE_WORD ''MOVE'' (\<lambda>ea. ''SR, '' @ ea)
      else if opcode AND 0xFFC0 = 0x44C0 then operand SIZE_WORD ''MOVE'' (\<lambda>ea. ea @ '', CCR'')
      else if opcode AND 0xFFC0 = 0x46C0 then operand SIZE_WORD ''MOVE'' (\<lambda>ea. ea @ '', SR'')
      else if opcode AND 0xFFC0 = 0x4AC0 then operand SIZE_BYTE ''TAS'' (\<lambda>ea. ea)
      else if opcode AND 0xFFC0 = 0x4800 then operand SIZE_BYTE ''NBCD'' (\<lambda>ea. ea)
      else if opcode AND 0xFFF8 = 0x4848 then listing 2 ''BKPT'' (''#'' @ fmt_d (int reg)) s
      else if opcode AND 0xFFC0 = 0x4840
      then (if mode = 0 then listing 2 ''SWAP'' (d_name reg) s
            else operand SIZE_LONG ''PEA'' (\<lambda>ea. ea))
      else if opcode AND 0xFB80 = 0x4880
      then (if mode = 0
            then listing 2 (''EXT'' @ (if is_long then ''.L'' else ''.W'')) (d_name reg) s
            else with_ea env (at + 4) mode reg (if is_long then SIZE_LONG else SIZE_WORD) 4
                   (''MOVEM'' @ (if is_long then ''.L'' else ''.W'')) (\<lambda>ea. ea) s)
      else if opcode AND 0xF1C0 = 0x4180
      then operand SIZE_WORD ''CHK'' (\<lambda>ea. ea @ '', '' @ d_name dn)
      else if opcode AND 0xF1C0 = 0x41C0 \<and> (mode = 2 \<or> (mode \<ge> 5 \<and> \<not> (mode = 7 \<and> reg > 3)))
      then operand SIZE_LONG ''LEA'' (\<lambda>ea. ea @ '', '' @ a_name dn)
      else if opcode AND 0xFF00 = 0x4A00 then unary ''TST''
      else if opcode AND 0xFF00 = 0x4000 then unary ''NEGX''
      else if opcode AND 0xFFC0 = 0x42C0 then operand SIZE_WORD ''MOVE'' (\<lambda>ea. ''CCR, '' @ ea)
      else if opcode AND 0xFF00 = 0x4200 then unary ''CLR''
      else if opcode AND 0xFF00 = 0x4400 then unary ''NEG''
      else if opcode AND 0xFF00 = 0x4600 then unary ''NOT''
      else unknown 2 s)"

definition disasm_line_4 :: "'h host_callbacks \<Rightarrow> u32 \<Rightarrow> u16 \<Rightarrow> 'h cpu \<Rightarrow> 'h listing" where
  "disasm_line_4 env at opcode s =
     (case disasm_line_4_fixed env at opcode s of
        Some r \<Rightarrow> r
      | None \<Rightarrow> disasm_line_4_groups env at opcode s)"

subsection \<open>Lines 5 to E\<close>

definition cond_names :: "string list" where
  "cond_names = [''T'', ''F'', ''HI'', ''LS'', ''CC'', ''CS'', ''NE'', ''EQ'',
                 ''VC'', ''VS'', ''PL'', ''MI'', ''GE'', ''LT'', ''GT'', ''LE'']"

definition disasm_line_5 :: "'h host_callbacks \<Rightarrow> u32 \<Rightarrow> u16 \<Rightarrow> 'h cpu \<Rightarrow> 'h listing" where
  "disasm_line_5 env at opcode s =
     (let mode = bits opcode 3 7;
          reg = bits opcode 0 7
      in if opcode AND 0xC0 = 0xC0
      then (let cond = bits opcode 8 0xF
            in if mode = 1
               then (case peek_word env (at + 2) s of (w, s) \<Rightarrow>
                       listing 4 (''DB'' @ cond_names ! cond)
                         (d_name reg @ '', $'' @ fmt_X (at + 2 + sext16 w)) s)
               else with_ea env (at + 2) mode reg SIZE_BYTE 2 (''S'' @ cond_names ! cond) (\<lambda>ea. ea) s)
      else (let sub = (opcode AND 0x0100 \<noteq> 0);
                data = (if bits opcode 9 7 = 0 then 8 else bits opcode 9 7);
                size_code = bits opcode 6 3
            in with_ea env (at + 2) mode reg (disasm_size size_code) 2
                 ((if sub then ''SUB'' else ''ADD'') @ ''Q'' @ size_str size_code)
                 (\<lambda>ea. ''#'' @ fmt_d (int data) @ '', '' @ ea) s))"

definition disasm_moveq :: "u16 \<Rightarrow> 'h cpu \<Rightarrow> 'h listing" where
  "disasm_moveq opcode s =
     listing 2 ''MOVEQ''
       (''#'' @ fmt_d (sint (ucast (opcode AND 0xFF) :: u8)) @ '', '' @ d_name (bits opcode 9 7)) s"

text \<open>The register and predecrement forms of ABCD, SBCD, ADDX and SUBX.\<close>

definition pair_args :: "u16 \<Rightarrow> string" where
  "pair_args opcode =
     (let rx = bits opcode 9 7; ry = bits opcode 0 7
      in if opcode AND 8 \<noteq> 0 then ''-('' @ a_name ry @ ''), -('' @ a_name rx @ '')''
         else d_name ry @ '', '' @ d_name rx)"

text \<open>\<open>"%s, D%d"\<close> of a word operand: DIVU, DIVS, MULU, MULS.\<close>

definition disasm_word_to_dn ::
  "'h host_callbacks \<Rightarrow> u32 \<Rightarrow> u16 \<Rightarrow> string \<Rightarrow> 'h cpu \<Rightarrow> 'h listing" where
  "disasm_word_to_dn env at opcode op s =
     with_ea env (at + 2) (bits opcode 3 7) (bits opcode 0 7) SIZE_WORD 2 op
       (\<lambda>ea. ea @ '', '' @ d_name (bits opcode 9 7)) s"

text \<open>\<open>"%s, A%d"\<close>: SUBA, CMPA, ADDA.\<close>

definition disasm_to_an ::
  "'h host_callbacks \<Rightarrow> u32 \<Rightarrow> u16 \<Rightarrow> string \<Rightarrow> 'h cpu \<Rightarrow> 'h listing" where
  "disasm_to_an env at opcode name s =
     (let word_form = (bits opcode 6 7 = 3)
      in with_ea env (at + 2) (bits opcode 3 7) (bits opcode 0 7)
           (if word_form then SIZE_WORD else SIZE_LONG) 2
           (name @ (if word_form then ''.W'' else ''.L''))
           (\<lambda>ea. ea @ '', '' @ a_name (bits opcode 9 7)) s)"

definition disasm_line_8 :: "'h host_callbacks \<Rightarrow> u32 \<Rightarrow> u16 \<Rightarrow> 'h cpu \<Rightarrow> 'h listing" where
  "disasm_line_8 env at opcode s =
     (let opmode = bits opcode 6 7
      in if opmode = 3 then disasm_word_to_dn env at opcode ''DIVU.W'' s
         else if opmode = 7 then disasm_word_to_dn env at opcode ''DIVS.W'' s
         else if opcode AND 0x1F0 = 0x100 then listing 2 ''SBCD'' (pair_args opcode) s
         else decode_std_arith env at opcode ''OR'' s)"

text \<open>Lines 9 and D, with the name SUB or ADD.\<close>

definition disasm_add_sub ::
  "'h host_callbacks \<Rightarrow> u32 \<Rightarrow> u16 \<Rightarrow> string \<Rightarrow> 'h cpu \<Rightarrow> 'h listing" where
  "disasm_add_sub env at opcode name s =
     (let opmode = bits opcode 6 7
      in if opmode = 3 \<or> opmode = 7 then disasm_to_an env at opcode (name @ ''A'') s
         else if opcode AND 0x0130 = 0x0100
         then listing 2 (name @ ''X'' @ size_str (bits opcode 6 3)) (pair_args opcode) s
         else decode_std_arith env at opcode name s)"

definition disasm_line_B :: "'h host_callbacks \<Rightarrow> u32 \<Rightarrow> u16 \<Rightarrow> 'h cpu \<Rightarrow> 'h listing" where
  "disasm_line_B env at opcode s =
     (let opmode = bits opcode 6 7;
          mode = bits opcode 3 7
      in if opmode = 3 \<or> opmode = 7 then disasm_to_an env at opcode ''CMPA'' s
         else if opmode \<ge> 4 \<and> mode = 1
         then listing 2 (''CMPM'' @ size_str (opmode - 4))
                (''('' @ a_name (bits opcode 0 7) @ '')+, ('' @ a_name (bits opcode 9 7) @ '')+'') s
         else if opmode \<ge> 4 then decode_std_arith env at opcode ''EOR'' s
         else decode_std_arith env at opcode ''CMP'' s)"

definition disasm_line_C :: "'h host_callbacks \<Rightarrow> u32 \<Rightarrow> u16 \<Rightarrow> 'h cpu \<Rightarrow> 'h listing" where
  "disasm_line_C env at opcode s =
     (let opmode = bits opcode 6 7
      in if opmode = 3 then disasm_word_to_dn env at opcode ''MULU.W'' s
         else if opmode = 7 then disasm_word_to_dn env at opcode ''MULS.W'' s
         else if opcode AND 0x1F0 = 0x100 then listing 2 ''ABCD'' (pair_args opcode) s
         else if opcode AND 0x0130 = 0x0100
         then (let rx = bits opcode 9 7; ry = bits opcode 0 7; exg_mode = bits opcode 3 0x1F
               in listing 2 ''EXG''
                    (if exg_mode = 0x08 then d_name rx @ '', '' @ d_name ry
                     else if exg_mode = 0x09 then a_name rx @ '', '' @ a_name ry
                     else d_name rx @ '', '' @ a_name ry) s)
         else decode_std_arith env at opcode ''AND'' s)"

definition mem_ops :: "string list" where
  "mem_ops = [''ASR'', ''ASL'', ''LSR'', ''LSL'', ''ROXR'', ''ROXL'', ''ROR'', ''ROL'']"

definition reg_ops :: "string list" where
  "reg_ops = [''AS'', ''LS'', ''ROX'', ''RO'']"

definition disasm_line_E :: "'h host_callbacks \<Rightarrow> u32 \<Rightarrow> u16 \<Rightarrow> 'h cpu \<Rightarrow> 'h listing" where
  "disasm_line_E env at opcode s =
     (let dir = bits opcode 8 1
      in if opcode AND 0xC0 = 0xC0
      then with_ea env (at + 2) (bits opcode 3 7) (bits opcode 0 7) SIZE_WORD 2
             (mem_ops ! (bits opcode 9 3 * 2 + dir) @ ''.W'') (\<lambda>ea. ea) s
      else (let count_reg = bits opcode 9 7;
                imm_count = (bits opcode 5 1 = 0);
                reg = bits opcode 0 7
            in listing 2 (reg_ops ! bits opcode 3 3 @ (if dir \<noteq> 0 then ''L'' else ''R'') @
                          size_str (bits opcode 6 3))
                 (if imm_count
                  then ''#'' @ fmt_d (int (if count_reg = 0 then 8 else count_reg)) @ '', '' @ d_name reg
                  else d_name count_reg @ '', '' @ d_name reg) s))"

subsection \<open>The line\<close>

definition disasm_decode :: "'h host_callbacks \<Rightarrow> u32 \<Rightarrow> u16 \<Rightarrow> 'h cpu \<Rightarrow> 'h listing" where
  "disasm_decode env at opcode s =
     (let line = opcode AND 0xF000
      in if line = 0x0000 then disasm_line_0 env at opcode s
         else if opcode AND 0xC000 = 0x0000 \<and> line \<noteq> 0 then decode_move env at opcode s
         else if line = 0x4000 then disasm_line_4 env at opcode s
         else if line = 0x5000 then disasm_line_5 env at opcode s
         else if line = 0x6000 then decode_branch env at opcode s
         else if line = 0x7000 then disasm_moveq opcode s
         else if line = 0x8000 then disasm_line_8 env at opcode s
         else if line = 0x9000 then disasm_add_sub env at opcode ''SUB'' s
         else if line = 0xB000 then disasm_line_B env at opcode s
         else if line = 0xC000 then disasm_line_C env at opcode s
         else if line = 0xD000 then disasm_add_sub env at opcode ''ADD'' s
         else if line = 0xE000 then disasm_line_E env at opcode s
         else unknown 2 s)"

text \<open>The returned length, the characters written to \<open>buffer\<close> from its start, and the
  context. \<open>buf_size\<close> is converted to \<open>size_t\<close>.\<close>

definition m68k_disasm ::
  "'h host_callbacks \<Rightarrow> u32 \<Rightarrow> int \<Rightarrow> 'h cpu \<Rightarrow> nat \<times> string \<times> 'h cpu" where
  "m68k_disasm env at buf_size s =
     (case peek_word env at s of (opcode, s) \<Rightarrow>
        (case disasm_decode env at opcode s of (len, op, args, s) \<Rightarrow>
           (len, snprintf_written (nat (buf_size mod 2 ^ 64))
                   (fmt_0X 4 opcode @ ''  '' @ pad_right 8 op @ '' '' @ args), s)))"

subsection \<open>Nothing is cut\<close>

lemma digits_length: "2 \<le> b \<Longrightarrow> n < b ^ Suc k \<Longrightarrow> length (digits b n) \<le> Suc k"
proof (induction k arbitrary: n)
  case 0
  then show ?case by (simp add: digits.simps [of b n])
next
  case (Suc k)
  then have "n div b < b ^ Suc k" by (simp add: less_mult_imp_div_less mult.commute)
  with Suc show ?case by (simp add: digits.simps [of b n])
qed

lemma digits_pos: "0 < length (digits b n)"
  by (simp add: digits.simps [of b n])

lemma fmt_d_length:
  "i < 10 ^ Suc k \<Longrightarrow> 0 \<le> i \<Longrightarrow> length (fmt_d i) \<le> Suc k"
  "- (10 ^ k) < i \<Longrightarrow> i < 10 ^ Suc k \<Longrightarrow> 0 < k \<Longrightarrow> length (fmt_d i) \<le> Suc k"
proof -
  show "i < 10 ^ Suc k \<Longrightarrow> 0 \<le> i \<Longrightarrow> length (fmt_d i) \<le> Suc k"
    using digits_length [of 10 "nat i" k] by (simp add: fmt_d_def nat_less_iff)
  assume a: "- (10 ^ k) < i" "i < 10 ^ Suc k" "0 < k"
  show "length (fmt_d i) \<le> Suc k"
  proof (cases "i < 0")
    case True
    then have "nat (- i) < 10 ^ Suc (k - 1)" using a by (simp add: nat_less_iff)
    from digits_length [OF _ this] show ?thesis using True a by (simp add: fmt_d_def)
  next
    case False
    then have "nat i < 10 ^ Suc k" using a by (simp add: nat_less_iff)
    from digits_length [OF _ this] show ?thesis using False by (simp add: fmt_d_def)
  qed
qed

lemma fmt_d_reg: "r \<le> 7 \<Longrightarrow> length (fmt_d (int r)) \<le> 1"
  using fmt_d_length(1) [of "int r" 0] by simp

lemma fmt_d_8: "length (fmt_d 8) = 1"
  by (simp add: fmt_d_def digits.simps)

lemma fmt_d_nibble: "r \<le> 15 \<Longrightarrow> length (fmt_d (int r)) \<le> 2"
  using fmt_d_length(1) [of "int r" 1] by simp

lemma fmt_d_byte: "length (fmt_d (sint (w :: u8))) \<le> 4"
  using fmt_d_length(2) [of 3 "sint w"] sint_ge [of w] sint_less [of w] by simp

lemma fmt_d_word: "length (fmt_d (sint (w :: u16))) \<le> 6"
  using fmt_d_length(2) [of 5 "sint w"] sint_ge [of w] sint_less [of w] by simp

lemma fmt_d_low_byte: "length (fmt_d (uint ((w :: u16) AND 0xFF))) \<le> 3"
proof -
  have "w AND 0xFF \<le> 0xFF" by (rule word_and_le1)
  then have "uint (w AND 0xFF) \<le> 255" by (simp add: word_le_def)
  then show ?thesis using fmt_d_length(1) [of "uint (w AND 0xFF)" 2] by simp
qed

lemma fmt_X_length: "length (fmt_X (v :: u32)) \<le> 8" "length (fmt_X (w :: u16)) \<le> 4"
  "length (fmt_X ((w :: u16) AND 0xFF)) \<le> 2"
proof -
  show "length (fmt_X v) \<le> 8" "length (fmt_X w) \<le> 4"
    using digits_length [of 16 "unat v" 7] unsigned_less [where 'a = nat, of v]
      digits_length [of 16 "unat w" 3] unsigned_less [where 'a = nat, of w]
    by (simp_all add: fmt_X_def)
  have "w AND 0xFF \<le> 0xFF" by (rule word_and_le1)
  then have "unat (w AND 0xFF) \<le> 255" by (simp add: word_le_nat_alt)
  then show "length (fmt_X (w AND 0xFF)) \<le> 2"
    using digits_length [of 16 "unat (w AND 0xFF)" 1] by (simp add: fmt_X_def)
qed

lemma fmt_0X_length: "length (fmt_0X 8 (v :: u32)) = 8" "length (fmt_0X 4 (w :: u16)) = 4"
  "length (fmt_0X 2 ((w :: u16) AND 0xFF)) = 2"
  using fmt_X_length(1) [of v] fmt_X_length(2,3) [of w] by (simp_all add: fmt_0X_def Let_def)

lemma name_length: "r \<le> 7 \<Longrightarrow> length (d_name r) \<le> 2" "r \<le> 7 \<Longrightarrow> length (a_name r) \<le> 2"
  "length (index_name ext) \<le> 4" "length (gpr_name ext) \<le> 2" "length (ctrl_name c) = 3"
  "length (size_str k) = 2"
  using fmt_d_reg [of r] fmt_d_reg [OF bits_7_le [of ext 12]]
  by (simp_all add: d_name_def a_name_def index_name_def gpr_name_def ctrl_name_def size_str_def
      snprintf_def Let_def)

lemma bound_rule: "x \<le> a \<Longrightarrow> a \<le> k \<Longrightarrow> x \<le> (k::nat)"
  and bound_rule_sum: "x \<le> a \<Longrightarrow> B \<le> k - a \<Longrightarrow> a \<le> k \<Longrightarrow> x + B \<le> (k::nat)"
  by simp_all

lemma bits_15_le: "bits w n 15 \<le> 15" "bits w n 7 \<le> 15"
  using bits_15_less [of w n] bits_7_le [of w n] by simp_all

lemmas text_bounds =
  bound_rule [OF fmt_d_byte] bound_rule_sum [OF fmt_d_byte]
  bound_rule [OF fmt_d_word] bound_rule_sum [OF fmt_d_word]
  bound_rule [OF fmt_d_low_byte] bound_rule_sum [OF fmt_d_low_byte]
  bound_rule [OF fmt_X_length(1)] bound_rule_sum [OF fmt_X_length(1)]
  bound_rule [OF name_length(1)] bound_rule_sum [OF name_length(1)]
  bound_rule [OF name_length(2)] bound_rule_sum [OF name_length(2)]
  bound_rule [OF name_length(3)] bound_rule_sum [OF name_length(3)]
  bound_rule [OF name_length(4)] bound_rule_sum [OF name_length(4)]
  bound_rule [OF fmt_d_reg] bound_rule_sum [OF fmt_d_reg]
  bound_rule [OF fmt_d_nibble] bound_rule_sum [OF fmt_d_nibble]
  bits_7_le bits_15_le

lemma snprintf_length: "length t \<le> k \<Longrightarrow> length (snprintf n t) \<le> k"
  by (simp add: snprintf_def)

lemma peek_keeps: "peek_word env a s = (w, s') \<Longrightarrow> read16_cb env = None \<longrightarrow> s' = s"
  "peek_long env a s = (v, s') \<Longrightarrow> read16_cb env = None \<longrightarrow> s' = s"
  by (auto simp: peek_word_def peek_long_def Let_def split: option.splits prod.splits if_splits)

text \<open>An operand text has at most 13 characters, the bytes it takes are 0, 2 or 4, and
  without a read callback the context is left as it was.\<close>

definition ea_fits :: "'h host_callbacks \<Rightarrow> 'h cpu \<Rightarrow> nat \<times> string \<times> 'h cpu \<Rightarrow> bool" where
  "ea_fits env s r =
     (case r of (n, ea, s') \<Rightarrow>
        (n = 0 \<or> n = 2 \<or> n = 4) \<and> length ea \<le> 13 \<and> (read16_cb env = None \<longrightarrow> s' = s))"

lemma ea_fits_step:
  assumes "n = 0 \<or> n = 2 \<or> n = 4" and "length ea \<le> 13" and "read16_cb env = None \<longrightarrow> s' = s"
  shows "ea_fits env s (n, snprintf DISASM_EA_SIZE ea, s')"
  using assms by (simp add: ea_fits_def snprintf_length)

lemma disasm_ea_mode7_fits: "ea_fits env s (disasm_ea_mode7 env at reg sz s)"
  unfolding disasm_ea_mode7_def Let_def
  by (auto split: prod.split intro!: ea_fits_step text_bounds dest: peek_keeps simp: fmt_0X_length)

lemma disasm_ea_fits: "reg \<le> 7 \<Longrightarrow> ea_fits env s (disasm_ea env at mode reg sz s)"
  unfolding disasm_ea_def Let_def
  by (auto split: prod.split intro!: ea_fits_step text_bounds disasm_ea_mode7_fits dest: peek_keeps)

text \<open>The same of a decoded instruction: between 2 and 10 bytes, a mnemonic of at most 7
  characters and at most 28 characters of arguments.\<close>

definition fits :: "'h host_callbacks \<Rightarrow> 'h cpu \<Rightarrow> 'h listing \<Rightarrow> bool" where
  "fits env s r =
     (case r of (len, op, args, s') \<Rightarrow>
        (len = 2 \<or> len = 4 \<or> len = 6 \<or> len = 8 \<or> len = 10) \<and> length op \<le> 7 \<and>
        length args \<le> 28 \<and> (read16_cb env = None \<longrightarrow> s' = s))"

lemma fits_listing:
  assumes "len = 2 \<or> len = 4" and "length op \<le> 7" and "length args \<le> 28"
    and "read16_cb env = None \<longrightarrow> s' = s"
  shows "fits env s (listing len op args s')"
  using assms by (auto simp: fits_def listing_def snprintf_length)

lemma fits_unknown: "fits env s (unknown 2 s)"
  by (simp add: fits_def unknown_def)

lemma fits_with_ea:
  assumes "reg \<le> 7" and "len = 2 \<or> len = 4 \<or> len = 6" and "length op \<le> 7"
    and "\<And>ea. length ea \<le> 13 \<Longrightarrow> length (args ea) \<le> 28"
    and "read16_cb env = None \<longrightarrow> s' = s"
  shows "fits env s (with_ea env at mode reg sz len op args s')"
  using disasm_ea_fits [OF assms(1), of env s' at mode sz] assms(2-)
  by (auto simp: with_ea_def ea_fits_def fits_def listing_def snprintf_length split: prod.split)

lemma ea_bound: "length ea \<le> 13 \<Longrightarrow> length t \<le> 13 \<Longrightarrow> length (ea :: string) + length (t :: string) \<le> 26"
  by simp

lemma if_fits: "fits env s x \<Longrightarrow> fits env s y \<Longrightarrow> fits env s (if b then x else y)"
  by simp

lemma if_fits_option:
  "\<forall>r. x = Some r \<longrightarrow> fits env s r \<Longrightarrow> \<forall>r. y = Some r \<longrightarrow> fits env s r \<Longrightarrow>
   \<forall>r. (if b then x else y) = Some r \<longrightarrow> fits env s r"
  by simp

lemmas fits_rules = fits_listing fits_unknown fits_with_ea bits_7_le ea_bound text_bounds

lemma decode_imm_arith_fits:
  assumes "length name = 4 \<or> length name = 3"
  shows "fits env s (decode_imm_arith env at opcode name s)"
  using disasm_ea_fits [of 4 env s "at + 2" 7 "disasm_size (bits opcode 6 3)"] assms
  by (auto simp: decode_imm_arith_def Let_def ea_fits_def name_length intro!: fits_rules
      split: prod.split)

lemma decode_std_arith_fits:
  assumes "length name \<le> 3" and "bits opcode 6 7 \<noteq> 3" and "bits opcode 6 7 \<noteq> 7"
  shows "fits env s (decode_std_arith env at opcode name s)"
proof -
  have "bits opcode 6 7 \<in> {0, 1, 2, 4, 5, 6}" using bits_7_le [of opcode 6] assms(2,3) by auto
  then show ?thesis
    using assms(1) by (auto simp: decode_std_arith_def Let_def intro!: fits_rules)
qed

lemma nth_bound: "\<forall>t \<in> set ts. length t \<le> k \<Longrightarrow> i < length ts \<Longrightarrow> length (ts ! i) \<le> k"
  by simp

lemma table_names:
  "length (bit_names ! bits w n 3) = 4" "length (cc_names ! bits w n 15) = 2"
  "length (cond_names ! bits w n 15) \<le> 2" "length (reg_ops ! bits w n 3) \<le> 3"
  "length (mem_ops ! (bits w n 3 * 2 + bits w m 1)) \<le> 4"
proof -
  have b: "bits w n 3 \<in> {0, 1, 2, 3}" "bits w m 1 \<in> {0, 1}"
    using bits_3_less [of w n] bits_1_less [of w m] by auto
  have c: "bits w n 15 \<in> set [0..<16]" using bits_15_less [of w n] by simp
  show "length (bit_names ! bits w n 3) = 4" "length (reg_ops ! bits w n 3) \<le> 3"
    "length (mem_ops ! (bits w n 3 * 2 + bits w m 1)) \<le> 4"
    using b by (auto simp: bit_names_def reg_ops_def mem_ops_def)
  show "length (cc_names ! bits w n 15) = 2" "length (cond_names ! bits w n 15) \<le> 2"
    using c by (auto simp: cc_names_def cond_names_def upt_rec)
qed

lemma decode_move_fits:
  assumes "bits opcode 12 3 \<noteq> 0"
  shows "fits env s (decode_move env at opcode s)"
proof -
  have "fits env s (case disasm_ea env (at + 2) (bits opcode 3 7) (bits opcode 0 7) sz s of
      (src_bytes, src, s) \<Rightarrow> with_ea env (at + of_nat (2 + src_bytes)) m (bits opcode 9 7) sz
        (2 + src_bytes) (''MOVE'' @ str) (\<lambda>dest. src @ '', '' @ dest) s)"
    if "length str = 2" for sz str m
    using that disasm_ea_fits [OF bits_7_le, of env s "at + 2" "bits opcode 3 7" opcode 0 sz]
    by (cases "disasm_ea env (at + 2) (bits opcode 3 7) (bits opcode 0 7) sz s")
      (auto simp: ea_fits_def intro!: fits_rules)
  then show ?thesis
    using assms by (simp add: decode_move_def Let_def)
qed

lemma decode_branch_fits: "fits env s (decode_branch env at opcode s)"
  unfolding decode_branch_def Let_def
  by (auto intro!: fits_rules simp: table_names split: prod.split dest: peek_keeps)

lemma disasm_line_0_fits: "fits env s (disasm_line_0 env at opcode s)"
proof -
  have imm: "fits env s (disasm_to_ccr env at op s)" "fits env s (disasm_to_sr env at op s)"
    if "length op \<le> 4" for op
    using that by (auto simp: disasm_to_ccr_def disasm_to_sr_def fmt_0X_length intro!: fits_rules
        split: prod.split dest: peek_keeps)
  have m: "fits env s (disasm_movep env at opcode s)"
    by (auto simp: disasm_movep_def Let_def name_length intro!: fits_rules split: prod.split dest: peek_keeps)
  have m': "fits env s (disasm_moves env at opcode s)"
    by (auto simp: disasm_moves_def Let_def name_length intro!: fits_rules split: prod.split dest: peek_keeps)
  have b: "fits env s (case peek_word env (at + 2) s of (bit_num, s) \<Rightarrow>
      with_ea env (at + 4) mode (bits opcode 0 7) SIZE_BYTE 4 (bit_names ! bits opcode 6 3)
        (\<lambda>ea. ''#'' @ fmt_d (uint (bit_num AND 0xFF)) @ '', '' @ ea) s)" for mode
    by (auto simp: table_names split: prod.split intro!: fits_rules dest: peek_keeps)
  show ?thesis
    unfolding disasm_line_0_def Let_def
    by (intro if_fits m m' b imm decode_imm_arith_fits fits_rules)
      (auto simp: table_names intro!: text_bounds ea_bound)
qed

lemma disasm_line_4_fits: "fits env s (disasm_line_4 env at opcode s)"
proof -
  have "fits env s (disasm_movec env at opcode s)"
    by (auto simp: disasm_movec_def Let_def name_length intro!: fits_rules split: prod.split dest: peek_keeps)
  then have "\<forall>r. disasm_line_4_fixed env at opcode s = Some r \<longrightarrow> fits env s r"
    unfolding disasm_line_4_fixed_def
    by (intro if_fits_option)
      (auto simp: fmt_0X_length intro!: fits_rules split: prod.split dest: peek_keeps)
  moreover have "fits env s (disasm_line_4_groups env at opcode s)"
    unfolding disasm_line_4_groups_def Let_def
    by (intro if_fits) (auto simp: name_length intro!: fits_rules)
  ultimately show ?thesis by (auto simp: disasm_line_4_def split: option.split)
qed

lemma disasm_line_5_fits: "fits env s (disasm_line_5 env at opcode s)"
  unfolding disasm_line_5_def Let_def
  by (intro if_fits)
    (auto simp: name_length fmt_d_8 intro!: fits_rules bound_rule [OF table_names(3)] split: prod.split
      dest: peek_keeps)

lemma disasm_moveq_fits: "fits env s (disasm_moveq opcode s)"
  unfolding disasm_moveq_def by (auto intro!: fits_rules)

lemma pair_args_length: "length (pair_args opcode) \<le> 28"
  by (auto simp: pair_args_def Let_def intro!: text_bounds)

lemma group_fits:
  "length op \<le> 6 \<Longrightarrow> fits env s (disasm_word_to_dn env at opcode op s)"
  "length op \<le> 4 \<Longrightarrow> fits env s (disasm_to_an env at opcode op s)"
  by (auto simp: disasm_word_to_dn_def disasm_to_an_def Let_def intro!: fits_rules)

lemma disasm_line_8_fits: "fits env s (disasm_line_8 env at opcode s)"
  unfolding disasm_line_8_def Let_def
  by (auto intro!: group_fits decode_std_arith_fits fits_listing pair_args_length)

lemma disasm_add_sub_fits:
  assumes "length name = 3"
  shows "fits env s (disasm_add_sub env at opcode name s)"
  using assms unfolding disasm_add_sub_def Let_def
  by (auto simp: name_length intro!: group_fits decode_std_arith_fits fits_listing pair_args_length)

lemma disasm_line_B_fits: "fits env s (disasm_line_B env at opcode s)"
  unfolding disasm_line_B_def Let_def
  by (auto simp: name_length intro!: group_fits decode_std_arith_fits fits_listing text_bounds)

lemma disasm_line_C_fits: "fits env s (disasm_line_C env at opcode s)"
  unfolding disasm_line_C_def Let_def
  by (auto intro!: group_fits decode_std_arith_fits fits_listing pair_args_length text_bounds)

lemma disasm_line_E_fits: "fits env s (disasm_line_E env at opcode s)"
  unfolding disasm_line_E_def Let_def
  by (intro if_fits)
    (auto simp: name_length fmt_d_8 intro!: fits_rules bound_rule [OF table_names(5)] bound_rule [OF table_names(4)]
      bound_rule_sum [OF table_names(5)] bound_rule_sum [OF table_names(4)])

lemma line_not_move: "opcode AND 0xC000 = 0 \<Longrightarrow> opcode AND 0xF000 \<noteq> 0 \<Longrightarrow> bits opcode 12 3 \<noteq> 0"
proof -
  assume a: "opcode AND 0xC000 = 0" "opcode AND 0xF000 \<noteq> 0"
  have m: "(0xC000 :: u16) = push_bit 14 (mask 2)" "(0xF000 :: u16) = push_bit 12 (mask 4)"
      "(3 :: u16) = mask 2" by (simp_all add: mask_numeral)
  obtain n where n: "bit opcode n" "12 \<le> n" "n < 16"
    using a(2) unfolding m by (auto simp: bit_eq_iff bit_simps)
  moreover have "\<not> (14 \<le> n \<and> bit opcode n)"
    using a(1) n(3) unfolding m bit_eq_iff by (auto simp: bit_simps)
  ultimately have "bit (drop_bit 12 opcode AND mask 2) (n - 12)"
    by (auto simp: bit_simps)
  then show "bits opcode 12 3 \<noteq> 0"
    by (auto simp: bits_def m(3) unat_eq_0)
qed

lemma disasm_decode_fits: "fits env s (disasm_decode env at opcode s)"
proof -
  have mv: "fits env s (if opcode AND 0xC000 = 0 \<and> opcode AND 0xF000 \<noteq> 0
      then decode_move env at opcode s else r)" if "fits env s r" for r
    using that by (simp add: decode_move_fits line_not_move)
  show ?thesis
    unfolding disasm_decode_def Let_def
    by (intro mv if_fits disasm_line_0_fits disasm_line_4_fits disasm_line_5_fits decode_branch_fits
        disasm_moveq_fits disasm_line_8_fits disasm_add_sub_fits disasm_line_B_fits
        disasm_line_C_fits disasm_line_E_fits fits_unknown) simp_all
qed

text \<open>A full buffer holds one character less than its size, so a string that leaves room is the
  string that was formatted.\<close>

lemma snprintf_uncut: "snprintf n t = u \<Longrightarrow> length u + 1 < n \<Longrightarrow> t = u"
  by (cases "length t \<le> n - 1") (auto simp: snprintf_def)

lemma disasm_ea_uncut:
  assumes "reg \<le> 7" and "disasm_ea env at mode reg sz s = (n, ea, s')" and "snprintf DISASM_EA_SIZE t = ea"
  shows "t = ea"
  using disasm_ea_fits [OF assms(1), of env s at mode sz] assms(2)
  by (intro snprintf_uncut [OF assms(3)]) (simp add: ea_fits_def disasm_sizes)

lemma gpr_name_uncut: "gpr_name ext = (if ext AND 0x8000 \<noteq> 0 then ''A'' else ''D'') @ fmt_d (int (bits ext 12 7))"
  using fmt_d_reg [OF bits_7_le [of ext 12]] by (simp add: gpr_name_def snprintf_def)

text \<open>C11: The disassembler stays inside its buffers and cuts nothing in its scratch buffers: an
  instruction is decoded to 2 to 10 bytes, a mnemonic of at most 7 and arguments of at most 28
  characters; every string whose formatting could have left this mnemonic or these arguments in
  the scratch buffers \<open>op\<close> and \<open>args\<close> is that mnemonic or those arguments, whole,
  and so is every operand text in the buffers of \<open>disasm_ea\<close>, for every mode, and every
  register name in \<open>gpr\<close>. What is written to the caller's buffer fits it, is terminated,
  is the start of the line of opcode, mnemonic and arguments, and is the whole line when the
  buffer has 44 characters. Without a read callback the context is not changed.\<close>

theorem m68k_disasm_bounds:
  assumes "m68k_disasm env at buf_size s = (len, out, s')"
    and "0 < buf_size" and "buf_size < 2 ^ 31"
    and "peek_word env at s = (opcode, s1)" and "disasm_decode env at opcode s1 = (n, op, args, s2)"
    and "line = fmt_0X 4 opcode @ ''  '' @ pad_right 8 op @ '' '' @ args"
  shows "len = n \<and> even len \<and> 2 \<le> len \<and> len \<le> 10 \<and> length op \<le> 7 \<and> length args \<le> 28 \<and>
    (\<forall>t. snprintf DISASM_OP_SIZE t = op \<longrightarrow> t = op) \<and>
    (\<forall>t. snprintf DISASM_ARGS_SIZE t = args \<longrightarrow> t = args) \<and>
    (\<forall>base mode reg sz u k ea u'. reg \<le> 7 \<longrightarrow> disasm_ea env base mode reg sz u = (k, ea, u') \<longrightarrow>
       (\<forall>t. snprintf DISASM_EA_SIZE t = ea \<longrightarrow> t = ea)) \<and>
    (\<forall>ext. gpr_name ext =
       (if ext AND 0x8000 \<noteq> 0 then ''A'' else ''D'') @ fmt_d (int (bits ext 12 7))) \<and>
    out = take (nat buf_size - 1) line @ [CHR 0x00] \<and> length out \<le> nat buf_size \<and>
    (44 \<le> buf_size \<longrightarrow> out = line @ [CHR 0x00]) \<and> s' = s2 \<and> (read16_cb env = None \<longrightarrow> s' = s)"
proof -
  have f: "n = 2 \<or> n = 4 \<or> n = 6 \<or> n = 8 \<or> n = 10" "length op \<le> 7" "length args \<le> 28"
      "read16_cb env = None \<longrightarrow> s2 = s1"
    using disasm_decode_fits [of env s1 at opcode] by (simp_all add: assms(5) fits_def)
  have w: "nat (buf_size mod 2 ^ 64) = nat buf_size" using assms(2,3) by simp
  have out: "len = n" "out = take (nat buf_size - 1) line @ [CHR 0x00]" "s' = s2"
    using assms(1,2) unfolding m68k_disasm_def assms(4,5) prod.case w snprintf_written_def snprintf_def
      assms(6) [symmetric] by (simp_all split: if_splits)
  have len: "even len" "2 \<le> len" "len \<le> 10" using f(1) out(1) by auto
  have scratch: "\<forall>t. snprintf DISASM_OP_SIZE t = op \<longrightarrow> t = op" "\<forall>t. snprintf DISASM_ARGS_SIZE t = args \<longrightarrow> t = args"
    using snprintf_uncut [of DISASM_OP_SIZE _ op] snprintf_uncut [of DISASM_ARGS_SIZE _ args] f(2,3)
    by (simp_all add: disasm_sizes)
  have l: "length line \<le> 43" using f(2,3) by (simp add: assms(6) fmt_0X_length pad_right_def)
  have fit: "length out \<le> nat buf_size" using assms(2) by (simp add: out(2))
  have whole: "44 \<le> buf_size \<longrightarrow> out = line @ [CHR 0x00]" using l by (simp add: out(2) nat_le_iff)
  have pure: "read16_cb env = None \<longrightarrow> s' = s" using peek_keeps(1) [OF assms(4)] f(4) out(3) by simp
  have ea: "\<forall>base mode reg sz u k ea u'. reg \<le> 7 \<longrightarrow> disasm_ea env base mode reg sz u = (k, ea, u') \<longrightarrow>
       (\<forall>t. snprintf DISASM_EA_SIZE t = ea \<longrightarrow> t = ea)"
    using disasm_ea_uncut by blast
  show ?thesis
    by (intro conjI out len f(2,3) scratch ea fit whole pure) (rule allI, rule gpr_name_uncut)
qed

lemma m68k_disasm_bounds_witness:
  "m68k_disasm no_callbacks 0x200 12 (trap_state\<lparr>memory := Some (\<lambda>a. if a = 0x200 then 0x4E else 0x71)\<rparr>) =
     (2, ''4E71  NOP  '' @ [CHR 0x00], trap_state\<lparr>memory := Some (\<lambda>a. if a = 0x200 then 0x4E else 0x71)\<rparr>)"
proof -
  define s where "s = trap_state\<lparr>memory := Some (\<lambda>a. if a = (0x200 :: u32) then 0x4E else (0x71 :: u8))\<rparr>"
  have p: "peek_word no_callbacks 0x200 s = (0x4E71, s)"
    by (simp add: peek_word_def no_callbacks_def s_def trap_state_def m68k_init_def Let_def)
  have d: "disasm_decode no_callbacks 0x200 0x4E71 s = (2, ''NOP'', [], s)"
    by (simp add: disasm_decode_def disasm_line_4_def disasm_line_4_fixed_def listing_def snprintf_def disasm_sizes Let_def)
  obtain len out s' where m: "m68k_disasm no_callbacks 0x200 12 s = (len, out, s')"
    by (metis prod_cases3)
  have "fmt_0X 4 (0x4E71 :: u16) = ''4E71''"
    by (simp add: fmt_0X_def fmt_X_def Let_def digits.simps digit_def)
  then have "len = 2" "out = ''4E71  NOP  '' @ [CHR 0x00]" "s' = s"
    using m68k_disasm_bounds [OF m _ _ p d refl] by (simp_all add: pad_right_def numeral_2_eq_2)
  then show ?thesis using m by (simp add: s_def)
qed

subsection \<open>The disassembler and the executor agree on operands\<close>

lemma snprintf_all: "length t < n \<Longrightarrow> snprintf n t = t"
  by (simp add: snprintf_def)

lemma peek_plain:
  assumes "plain_bus env" and "in_ram s a 2"
  shows "peek_word env a s = (get16 (ram s) (mask_address_24 a), s)"
  using assms in_ram_valid [OF assms(2), of 1]
  by (auto simp: peek_word_def Let_def plain_bus_def in_ram_def ram_def get16_def
      mask_address_24_def is_valid_address_def)

lemma extension_plain:
  assumes "plain_bus env" and "even (pc s)" and "in_ram s (pc s) 2"
  shows "fetch_extension env s =
    Ret (ucast (get16 (ram s) (mask_address_24 (pc s)))) (s\<lparr>pc := pc s + 2\<rparr>)"
  by (simp add: fetch_extension_def fetch_plain [OF assms])

lemma sext16_ucast: "sext16 (ucast (w :: u16) :: u32) = sext16 w"
  unfolding sext16_def by (rule arg_cong [where f = scast], rule bit_word_eqI) (simp add: bit_simps)

lemma ucast_sext16: "ucast (sext16 w) = (ucast w :: u16)"
  unfolding sext16_def by (rule bit_word_eqI) (auto simp: bit_simps)

lemma set_fault_pc_same:
  "pc (set_fault_pc mode reg sz s) = pc s" "ram (set_fault_pc mode reg sz s) = ram s"
  "in_ram (set_fault_pc mode reg sz s) a n = in_ram s a n"
  by (simp_all add: set_fault_pc_def Let_def)

text \<open>C12: The disassembler consumes what the executor consumes: for every valid addressing mode the
  operand bytes it counts are the bytes by which effective-address resolution advances the
  program counter, and the absolute and PC-relative addresses it prints are the addresses
  that resolution yields.\<close>

theorem disasm_ea_agrees:
  assumes "plain_bus env" and "even (pc s)" and "in_ram s (pc s) 4"
    and "mode \<le> 6 \<or> mode = 7 \<and> reg \<le> 4" and "disasm_ea env (pc s) mode reg sz s = (n, text, s1)"
  shows "\<exists>ea s'. m68k_calc_ea_ex env mode reg sz False s = Ret ea s' \<and>
    pc s' = pc s + of_nat n \<and> s1 = s \<and>
    (mode = 7 \<and> reg = 0 \<longrightarrow> text = ''$'' @ fmt_0X 4 (ucast (address ea) :: u16) @ ''.W'') \<and>
    (mode = 7 \<and> reg = 1 \<longrightarrow> text = ''$'' @ fmt_0X 8 (address ea) @ ''.L'') \<and>
    (mode = 7 \<and> reg = 2 \<longrightarrow> text = ''$'' @ fmt_X (address ea) @ ''(PC)'') \<and>
    (mode = 7 \<and> reg = 4 \<and> sz = SIZE_LONG \<longrightarrow> text = ''#$'' @ fmt_X (ea_value ea))"
proof -
  have r: "in_ram s (pc s) 2" "in_ram s (pc s + 2) 2"
    using in_ram_less [OF assms(3), of 2] in_ram_add [OF assms(3), of 2 2] by simp_all
  have e: "even (pc s + 2)" using assms(2) by simp
  have x: "fetch_extension env (set_fault_pc m r z s) =
      Ret (ucast (get16 (ram s) (mask_address_24 (pc s)))) ((set_fault_pc m r z s)\<lparr>pc := pc s + 2\<rparr>)" for m r z
    using extension_plain [OF assms(1), of "set_fault_pc m r z s"] assms(2) r(1) by (simp add: set_fault_pc_same)
  have y: "fetch_extension env ((set_fault_pc m r z s)\<lparr>pc := pc s + 2\<rparr>) =
      Ret (ucast (get16 (ram s) (mask_address_24 (pc s + 2)))) ((set_fault_pc m r z s)\<lparr>pc := pc s + 2 + 2\<rparr>)" for m r z
    using extension_plain [OF assms(1), of "(set_fault_pc m r z s)\<lparr>pc := pc s + 2\<rparr>"] e r(2)
    by (simp add: set_fault_pc_same)
  note p = peek_plain [OF assms(1) r(1)] peek_plain [OF assms(1) r(2)]
  note d = assms(5) and dd = disasm_ea_def disasm_ea_mode7_def
  have "mode \<le> 4 \<or> mode = 5 \<or> mode = 6 \<or>
      mode = 7 \<and> (reg = 0 \<or> reg = 1 \<or> reg = 2 \<or> reg = 3 \<or> reg = 4)"
    using assms(4) by presburger
  then consider "mode \<le> 4" | "mode = 5" | "mode = 6" | "mode = 7" "reg = 0" | "mode = 7" "reg = 1"
    | "mode = 7" "reg = 2" | "mode = 7" "reg = 3" | "mode = 7" "reg = 4" "sz = SIZE_LONG"
    | "mode = 7" "reg = 4" "sz \<noteq> SIZE_LONG"
    by blast
  then show ?thesis
  proof cases
    case 1
    then have "mode = 0 \<or> mode = 1 \<or> mode = 2 \<or> mode = 3 \<or> mode = 4" by auto
    then show ?thesis
      using d by (auto simp: dd m68k_calc_ea_ex_def Let_def finish_ea_def set_fault_pc_same)
  next
    case 2
    then have "n = 2 \<and> s1 = s" using d by (auto simp: dd p)
    with 2 show ?thesis by (simp add: m68k_calc_ea_ex_def Let_def x finish_ea_def)
  next
    case 3
    then have "n = 2 \<and> s1 = s" using d by (auto simp: dd p)
    with 3 show ?thesis by (simp add: m68k_calc_ea_ex_def Let_def x finish_ea_def)
  next
    case 4
    then have "n = 2 \<and> s1 = s \<and> text = ''$'' @ fmt_0X 4 (get16 (ram s) (mask_address_24 (pc s))) @ ''.W''"
      using d by (auto simp: dd p snprintf_all fmt_0X_length DISASM_EA_SIZE_def)
    with 4 show ?thesis
      by (simp add: m68k_calc_ea_ex_def Let_def calc_ea_mode7_def x finish_ea_def zero_ea_def
          sext16_ucast ucast_sext16)
  next
    case 5
    let ?a = "push_bit 16 (ucast (get16 (ram s) (mask_address_24 (pc s)))) OR
      ucast (get16 (ram s) (mask_address_24 (pc s + 2))) :: u32"
    have "n = 4 \<and> s1 = s \<and> text = ''$'' @ fmt_0X 8 ?a @ ''.L''"
      using 5 d by (auto simp: dd p peek_long_def snprintf_all fmt_0X_length DISASM_EA_SIZE_def)
    with 5 show ?thesis
      by (simp add: m68k_calc_ea_ex_def Let_def calc_ea_mode7_def x y finish_ea_def zero_ea_def)
  next
    case 6
    have "snprintf DISASM_EA_SIZE (''$'' @ fmt_X v @ ''(PC)'') = ''$'' @ fmt_X v @ ''(PC)''" for v :: u32
      using fmt_X_length(1) [of v] by (intro snprintf_all) (simp add: DISASM_EA_SIZE_def le_less_trans)
    then have "n = 2 \<and> s1 = s \<and>
        text = ''$'' @ fmt_X (pc s + sext16 (get16 (ram s) (mask_address_24 (pc s)))) @ ''(PC)''"
      using 6 d by (auto simp: dd p)
    with 6 show ?thesis
      by (simp add: m68k_calc_ea_ex_def Let_def calc_ea_mode7_def x finish_pc_relative_def
          zero_ea_def sext16_ucast)
  next
    case 7
    then have "n = 2 \<and> s1 = s" using d by (auto simp: dd p)
    with 7 show ?thesis
      by (simp add: m68k_calc_ea_ex_def Let_def calc_ea_mode7_def x finish_pc_relative_def)
  next
    case 8
    let ?a = "push_bit 16 (ucast (get16 (ram s) (mask_address_24 (pc s)))) OR
      ucast (get16 (ram s) (mask_address_24 (pc s + 2))) :: u32"
    have "snprintf DISASM_EA_SIZE (''#$'' @ fmt_X v) = ''#$'' @ fmt_X v" for v :: u32
      using fmt_X_length(1) [of v] by (intro snprintf_all) (simp add: DISASM_EA_SIZE_def le_less_trans)
    then have "n = 4 \<and> s1 = s \<and> text = ''#$'' @ fmt_X ?a"
      using 8 d by (auto simp: dd p peek_long_def)
    with 8 show ?thesis
      by (simp add: m68k_calc_ea_ex_def Let_def calc_ea_mode7_def x y zero_ea_def)
  next
    case 9
    then have "n = 2 \<and> s1 = s" using d by (auto simp: dd p Let_def split: if_splits)
    with 9 show ?thesis by (simp add: m68k_calc_ea_ex_def Let_def calc_ea_mode7_def x)
  qed
qed

lemma disasm_ea_agrees_witness:
  "\<exists>ea s'. m68k_calc_ea_ex no_callbacks 7 2 SIZE_WORD False trap_state = Ret ea s' \<and>
     pc s' = 0x202 \<and> fst (snd (disasm_ea no_callbacks 0x200 7 2 SIZE_WORD trap_state)) =
       ''$'' @ fmt_X (address ea) @ ''(PC)''"
proof -
  obtain n t s1 where d: "disasm_ea no_callbacks 0x200 7 2 SIZE_WORD trap_state = (n, t, s1)"
    by (metis prod_cases3)
  then have n: "n = 2"
    by (simp add: disasm_ea_def disasm_ea_mode7_def Let_def split: prod.splits)
  have "in_ram trap_state (pc trap_state) 4" by (simp add: in_trap_state)
  from disasm_ea_agrees [OF plain_bus_no_callbacks _ this, of 7 2 SIZE_WORD n t s1] d n
  show ?thesis by auto
qed

end
