(* ===== verification/Spec2Isabelle.thy ===== *)
theory Spec2Isabelle
  imports M68k_Programs M68k_SaveState M68k_Loader M68k_Disasm
begin

section \<open>The rocket68 emulator\<close>

text \<open>
  A verification library for rocket68, an emulator of the Motorola 68000 and 68010 in C. One
  context (\<open>M68kCpu\<close>) holds the registers, the memory binding and the callbacks of the
  host. \<open>m68k_execute\<close> spends a timeslice by calling \<open>m68k_step_ex\<close>, which checks
  interrupts, fetches an opcode over the bus, dispatches it to a handler and accounts for traps,
  tracing and cycles. A handler resolves effective addresses, reads and writes over the bus and
  may raise an exception; a bus or address fault takes the exception and leaves the handler with
  \<open>longjmp\<close>. The disassembler, the save states and the loaders work on the same context.

  Theories and sources (below \<open>src/\<close> and \<open>include/\<close>):

  \<^item> M68k_Prelude: widths, opcode fields, sign extension, and the outcome of a C call: it returns,
    it leaves by \<open>longjmp\<close>, or it is stuck (a null memory pointer is read, or exceptions nest
    without bound).
  \<^item> M68k_State: \<open>m68k.h\<close> and the accessors of \<open>m68k.c\<close>. The record \<open>cpu\<close> has a field
    for every field of \<open>M68kCpu\<close> but the callbacks, which are the record \<open>host_callbacks\<close>,
    and the \<open>jmp_buf\<close>, which is the outcome above; \<open>host\<close> is what the callbacks keep.
  \<^item> M68k_Bus: accesses, wait states, function codes, faults, fetches, \<open>m68k_exception\<close> and the
    stack, \<open>m68k_reset\<close>. M68k_Frame and M68k_Memory hold its theorems: the invariant that every
    access and exception keeps, and what accesses do to memory.
  \<^item> M68k_EA: \<open>m68k_calc_ea\<close> and the cycle tables (\<open>m68k.c\<close>, \<open>m68k_internal.h\<close>).
  \<^item> M68k_Flags: flag updates and conditions. M68k_Arith, M68k_Logic, M68k_Bit, M68k_Move and
    M68k_Control: every handler of \<open>ops_arith.c\<close>, \<open>ops_logic.c\<close>, \<open>ops_bit.c\<close>,
    \<open>ops_move.c\<close> and \<open>ops_control.c\<close>.
  \<^item> M68k_Step: interrupts, dispatch, \<open>m68k_step_ex\<close> and \<open>m68k_execute\<close>. M68k_Programs:
    instructions fetched from memory and executed.
  \<^item> M68k_SaveState: \<open>m68k_serialize\<close>, \<open>m68k_deserialize\<close> and the context copies.
    M68k_Loader: \<open>loader.c\<close>. M68k_Disasm: \<open>disasm.c\<close>.

  Lemmas. Every handler keeps the invariant of M68k_Frame (the lemmas named \<open>_keeps\<close>, collected
  for automation and proved inside the locales \<open>exc_contract\<close>, \<open>machine\<close> and
  \<open>instruction\<close>, which state what a routine may assume of exceptions, of the bus and of
  operand access, and which are interpreted on the model); so every step returns, and
  \<open>m68k_execute\<close> does. The field locales of M68k_Memory give the read-after-write laws from
  which the stack, frame and subroutine round trips follow. M68k_Flags ties the flag formulas to
  sums and differences over the integers; M68k_Arith, M68k_Logic, M68k_Move, M68k_Control and
  M68k_Step state what multiplication, division, decimal arithmetic, shifts, rotates, exchanges,
  frames, counted loops, status-register writes, privileged instructions and interrupts compute;
  M68k_SaveState and M68k_Loader show that the formats are read back and which inputs are
  refused, M68k_Disasm that the listing fits its buffers and agrees with the executor. The
  theorem below spans dispatch, handler and disassembler.

  Recursion. \<open>m68k_exception\<close> calls itself through the bus; the model unrolls it, three
  nested activations are allowed, and the fourth is the stuck outcome; a theorem of M68k_Frame
  shows that three are enough and that more change nothing, since the two guards and the depth
  stop the recursion. \<open>m68k_execute\<close> is a partial function, and a theorem of M68k_Step shows
  that it returns for every program when callbacks add no cycles and no illegal-instruction
  callback is installed (a callback that claims an opcode makes some instructions free of cost,
  and a program of nothing else then keeps \<open>m68k_execute\<close> running). All other loops recurse on
  their counter or on the rest of the input.

  Conventions. Where C leaves the order of two calls in one expression open, as in
  \<open>((u32)m68k_fetch(cpu) << 16) | m68k_fetch(cpu)\<close> and in the byte reads of MOVEP, the model
  evaluates from left to right, which is what the code means. C \<open>int\<close> counters (cycles,
  depth, interrupt level) are unbounded integers, since their overflow is undefined; 8, 16 and
  32-bit values wrap at their width. \<open>snprintf\<close> leaves the start of the string and a null
  byte; a file is the list of its bytes. A callback is a function of the context, so it may change
  it; the theorems say what they assume of it.

  Not modelled: \<open>wasm_compat\<close> (stubs of the C library for one build), the tests, benchmarks,
  documentation and build files, messages on \<open>stderr\<close> and \<open>stdout\<close>, and what C
  leaves undefined.
\<close>

subsection \<open>What is listed and what is executed\<close>

lemma dispatch_line_7:
  assumes "opcode AND 0xF000 = 0x7000"
  shows "dispatch env opcode s =
    (if opcode AND 0x0100 = 0 then costing 4 (m68k_exec_moveq env opcode s)
     else costing 34 (m68k_exception env 4 s))"
proof -
  have "opcode AND 0xC000 = 0x4000" using submask [OF assms, of "0xC000"] by simp
  moreover have "(opcode AND 0xF100 = 0x7000) = (opcode AND 0x0100 = 0)"
  proof -
    have f: "(0xF100 :: u16) = 0xF000 OR 0x0100" by simp
    have a: "opcode AND 0xF100 = 0x7000 OR (opcode AND 0x0100)"
      unfolding f bit.conj_disj_distrib assms ..
    have "(opcode AND 0xF100) AND 0x0100 = opcode AND 0x0100" by (simp add: and.assoc)
    then show ?thesis using a by auto
  qed
  ultimately show ?thesis
    using assms by (simp add: dispatch_def dispatch_unmatched_def)
qed

lemma low_byte_value: "ucast (opcode AND 0xFF) = (ucast (opcode :: u16) :: u8)"
proof -
  have m: "(0xFF :: u16) = mask 8" by (simp add: mask_eq_exp_minus_1)
  show ?thesis unfolding m by (rule bit_word_eqI) (auto simp: bit_simps)
qed

lemma sext8_sint: "sint (sext8 (opcode AND 0xFF)) = sint (ucast (opcode :: u16) :: u8)"
  unfolding sext8_def low_byte_value by (rule sint_up_scast) (simp add: is_up_def source_size_def target_size_def word_size)

lemma disasm_line_7:
  assumes "opcode AND 0xF000 = 0x7000"
  shows "disasm_decode env at opcode s =
    (2, ''MOVEQ'', ''#'' @ fmt_d (sint (ucast opcode :: u8)) @ '', '' @ d_name (bits opcode 9 7), s)"
proof -
  have c: "opcode AND 0xC000 = 0x4000" using submask [OF assms, of "0xC000"] by simp
  have l: "length (fmt_d (sint (ucast opcode :: u8))) \<le> 4" "length (d_name (bits opcode 9 7)) \<le> 2"
    by (rule fmt_d_byte, rule name_length(1) [OF bits_7_le])
  show ?thesis
    using assms c l by (simp add: disasm_decode_def Let_def disasm_moveq_def listing_def low_byte_value snprintf_def disasm_sizes)
qed

text \<open>C39: On line 7 the listing and the execution agree, but for the encodings with bit 8 set: for
  each of the 4096 opcodes the disassembler prints MOVEQ with the signed value of the low byte
  and the data register; with bit 8 clear the executor puts that value, sign-extended to 32
  bits, in that register, sets N and Z from it, clears V and C, keeps X and every other register
  and costs 4 cycles; with bit 8 set it raises the illegal-instruction exception for 34.\<close>

theorem moveq_listed_and_executed:
  assumes "opcode AND 0xF000 = 0x7000"
    and "k = sint (ucast opcode :: u8)" and "r = bits opcode 9 7"
  shows "disasm_decode env at opcode s = (2, ''MOVEQ'', ''#'' @ fmt_d k @ '', '' @ d_name r, s) \<and>
    (if opcode AND 0x0100 = 0
     then \<exists>s'. dispatch env opcode s = Ret 4 s' \<and> sint (d_regs s' r) = k \<and>
       (\<forall>j. j \<noteq> r \<longrightarrow> d_regs s' j = d_regs s j) \<and> a_regs s' = a_regs s \<and> pc s' = pc s \<and>
       sr_flag M68K_SR_N s' = (k < 0) \<and> sr_flag M68K_SR_Z s' = (k = 0) \<and>
       \<not> sr_flag M68K_SR_V s' \<and> \<not> sr_flag M68K_SR_C s' \<and>
       sr_flag M68K_SR_X s' = sr_flag M68K_SR_X s
     else dispatch env opcode s = costing 34 (m68k_exception env 4 s))"
proof -
  have z: "(uint (sext8 (opcode AND 0xFF)) = 0) = (k = 0)"
    using sext8_sint [of opcode] assms(2) by (metis signed_eq_0_iff uint_0_iff)
  have x: "sr_flag M68K_SR_X (set_d r v s) = sr_flag M68K_SR_X s" for v by (simp add: sr_flag_def)
  show ?thesis
    using sext8_sint [of opcode] z
    by (simp add: disasm_line_7 [OF assms(1)] dispatch_line_7 [OF assms(1)] assms(2,3) costing_def
        m68k_exec_moveq_def Let_def update_flags_logic_bits sval_def uval_def x)
qed

lemma moveq_listed_and_executed_witness:
  "disasm_decode no_callbacks 0 0x72FF trap_state = (2, ''MOVEQ'', ''#-1, D1'', trap_state) \<and>
   (\<exists>s'. dispatch no_callbacks 0x72FF trap_state = Ret 4 s' \<and> d_regs s' 1 = 0xFFFFFFFF)"
proof -
  have k: "(-1 :: int) = sint (ucast (0x72FF :: u16) :: u8)" "(1 :: nat) = bits 0x72FF 9 7"
    by (simp_all add: bits_def)
  have t: "''#'' @ fmt_d (- 1) @ '', '' @ d_name 1 = ''#-1, D1''"
    by (simp add: fmt_d_def d_name_def digits.simps digit_def)
  have m: "sint w = - 1 \<Longrightarrow> w = 0xFFFFFFFF" for w :: u32
  proof -
    assume "sint w = - 1"
    then have "word_of_int (sint w) = (0xFFFFFFFF :: u32)" by simp
    then show "w = 0xFFFFFFFF" by simp
  qed
  show ?thesis
    using moveq_listed_and_executed [OF _ k, of no_callbacks 0 trap_state] m unfolding t by auto
qed

end
